(* ===== verification/Prelude.thy ===== *)
theory Prelude
  imports Main "HOL-Library.Word"
begin

text \<open>
  What every component of the development shares: names for Rust's machine integers, values for
  the ways a Rust function can end (a \<open>Result\<close>, or an abort), the checked operations of
  \<open>core::num\<close>, the byte representation of integers in memory and on the wire, and the facts
  about lists and words that the component proofs use.

  Machine integers are words, so \<open>+\<close>, \<open>-\<close> and \<open>*\<close> wrap around. The release profile of
  the workspace (\<^verbatim>\<open>Cargo.toml\<close>) leaves overflow checks off, so this is what the shipped
  binary computes; \<^verbatim>\<open>usize\<close> values that count list elements are \<open>nat\<close>.
\<close>

unbundle bit_operations_syntax

type_synonym u8 = "8 word"
type_synonym u16 = "16 word"
type_synonym u32 = "32 word"
type_synonym u64 = "64 word"
type_synonym i64 = "64 word"

named_theorems exec_simps \<open>equations of the sequencing operations\<close>
named_theorems byte_simps \<open>equations of the byte representations\<close>
named_theorems word_nat \<open>word arithmetic and comparison read as natural numbers\<close>

section \<open>How a Rust function ends\<close>

text \<open>
  \<open>Panic\<close> is an abort of the process (both profiles set \<^verbatim>\<open>panic = "abort"\<close>): a failed
  \<open>unwrap\<close>, \<open>expect\<close> or \<open>assert\<close>, an explicit \<open>panic\<close>, an index out of range or a
  division by zero. A \<open>Result\<close> is a sum, \<open>Inl\<close> for \<open>Err\<close> and \<open>Inr\<close> for \<open>Ok\<close>.
\<close>

datatype 'a exec = Done 'a | Panic

primrec ebind :: "'a exec \<Rightarrow> ('a \<Rightarrow> 'b exec) \<Rightarrow> 'b exec" where
  "ebind (Done x) f = f x"
| "ebind Panic f = Panic"

primrec unwrap :: "'a option \<Rightarrow> 'a exec" where
  "unwrap (Some x) = Done x"
| "unwrap None = Panic"

abbreviation Err :: "'e \<Rightarrow> 'e + 'a" where
  "Err \<equiv> Inl"

abbreviation Ok :: "'a \<Rightarrow> 'e + 'a" where
  "Ok \<equiv> Inr"

primrec rbind :: "'e + 'a \<Rightarrow> ('a \<Rightarrow> 'e + 'b) \<Rightarrow> 'e + 'b" where
  "rbind (Inl e) f = Inl e"
| "rbind (Inr x) f = f x"

definition ok_or :: "'a option \<Rightarrow> 'e \<Rightarrow> 'e + 'a" where
  "ok_or x e = (case x of None \<Rightarrow> Inl e | Some v \<Rightarrow> Inr v)"

lemma ebind_Done [exec_simps]: "ebind m f = Done y \<longleftrightarrow> (\<exists>x. m = Done x \<and> f x = Done y)"
  by (cases m) auto

lemma ebind_Ok [exec_simps]:
  "ebind m (\<lambda>r. case r of Inl e \<Rightarrow> Done (Err e) | Inr x \<Rightarrow> g x) = Done (Ok y)
   \<longleftrightarrow> (\<exists>x. m = Done (Ok x) \<and> g x = Done (Ok y))"
  by (cases m) (auto split: sum.splits)

lemma case_sum_Some [exec_simps]:
  "(case r of Inl e \<Rightarrow> None | Inr x \<Rightarrow> f x) = Some y \<longleftrightarrow> (\<exists>x. r = Inr x \<and> f x = Some y)"
  by (cases r) auto

lemma unwrap_Done [exec_simps]: "unwrap x = Done v \<longleftrightarrow> x = Some v"
  by (cases x) auto

lemma unwrap_Panic [exec_simps]: "unwrap x = Panic \<longleftrightarrow> x = None"
  by (cases x) auto

lemma rbind_Ok [exec_simps]: "rbind m f = Inr y \<longleftrightarrow> (\<exists>x. m = Inr x \<and> f x = Inr y)"
  by (cases m) auto

lemma rbind_Err [exec_simps]:
  "rbind m f = Inl e \<longleftrightarrow> m = Inl e \<or> (\<exists>x. m = Inr x \<and> f x = Inl e)"
  by (cases m) auto

lemma ok_or_Ok [exec_simps]: "ok_or x e = Inr v \<longleftrightarrow> x = Some v"
  by (cases x) (auto simp: ok_or_def)

lemma ok_or_Err [exec_simps]: "ok_or x e = Inl e' \<longleftrightarrow> x = None \<and> e' = e"
  by (cases x) (auto simp: ok_or_def)

section \<open>Checked and saturating arithmetic\<close>

definition checked_add :: "'a::len word \<Rightarrow> 'a word \<Rightarrow> 'a word option" where
  "checked_add a b = (if unat a + unat b < 2 ^ LENGTH('a) then Some (a + b) else None)"

definition checked_sub :: "'a::len word \<Rightarrow> 'a word \<Rightarrow> 'a word option" where
  "checked_sub a b = (if b \<le> a then Some (a - b) else None)"

definition checked_nat_sub :: "nat \<Rightarrow> nat \<Rightarrow> nat option" where
  "checked_nat_sub a b = (if b \<le> a then Some (a - b) else None)"

definition saturating_sub :: "'a::len word \<Rightarrow> 'a word \<Rightarrow> 'a word" where
  "saturating_sub a b = (if b \<le> a then a - b else 0)"

lemma checked_add_Some:
  "checked_add a b = Some c \<longleftrightarrow> unat a + unat b < 2 ^ LENGTH('a) \<and> c = a + (b :: 'a::len word)"
  by (auto simp: checked_add_def)

lemma unat_checked_add: "checked_add a b = Some c \<Longrightarrow> unat c = unat a + unat b"
  by (auto simp: checked_add_Some unat_word_ariths)

lemma unat_add_small:
  "unat a + unat b < 2 ^ LENGTH('a) \<Longrightarrow> unat (a + b :: 'a::len word) = unat a + unat b"
  by (simp add: unat_word_ariths)

lemma unat_mult_small:
  "unat a * unat b < 2 ^ LENGTH('a) \<Longrightarrow> unat (a * b :: 'a::len word) = unat a * unat b"
  by (simp add: unat_word_ariths)

lemma unat_sub_le: "b \<le> a \<Longrightarrow> unat (a - b :: 'a::len word) = unat a - unat b"
  by (rule unat_sub)

lemma unat_saturating_sub [simp]: "unat (saturating_sub a b) = unat a - unat b"
  by (simp add: saturating_sub_def unat_sub_le word_le_nat_alt)

lemma unat_ucast_mod:
  "unat (ucast (x :: 'a::len word) :: 'b::len word) = unat x mod 2 ^ LENGTH('b)"
  by (simp add: unsigned_ucast_eq take_bit_eq_mod)

lemma unat_bound: "unat (x :: 'a::len word) < 2 ^ LENGTH('a)"
  by (rule unsigned_less)

lemma unat_ucast_up:
  "LENGTH('a) \<le> LENGTH('b) \<Longrightarrow> unat (ucast (x :: 'a::len word) :: 'b::len word) = unat x"
  by (metis mod_less order_less_le_trans one_le_numeral power_increasing unat_bound unat_ucast_mod)

lemmas [word_nat] =
  word_less_nat_alt word_le_nat_alt word_unat_eq_iff unat_add_small unat_mult_small unat_sub_le

section \<open>Bytes\<close>

text \<open>
  The memory of the supported targets is little-endian; the network protocols are big-endian.
  \<open>le_bytes n w\<close> is the first \<open>n\<close> bytes of \<open>w\<close> in memory, \<open>le_word\<close> reads them back.
\<close>

fun le_bytes :: "nat \<Rightarrow> 'a::len word \<Rightarrow> u8 list" where
  "le_bytes 0 w = []"
| "le_bytes (Suc n) w = ucast w # le_bytes n (drop_bit 8 w)"

fun le_word :: "u8 list \<Rightarrow> 'a::len word" where
  "le_word [] = 0"
| "le_word (b # bs) = ucast b OR push_bit 8 (le_word bs)"

definition be_bytes :: "nat \<Rightarrow> 'a::len word \<Rightarrow> u8 list" where
  "be_bytes n w = rev (le_bytes n w)"

definition be_word :: "u8 list \<Rightarrow> 'a::len word" where
  "be_word bs = le_word (rev bs)"

lemma length_le_bytes [simp]: "length (le_bytes n w) = n"
  by (induction n arbitrary: w) auto

lemma length_be_bytes [simp]: "length (be_bytes n w) = n"
  by (simp add: be_bytes_def)

lemma nth_le_bytes: "i < n \<Longrightarrow> le_bytes n w ! i = ucast (drop_bit (8 * i) w)"
  by (induction n arbitrary: w i) (auto simp: nth_Cons ac_simps split: nat.split)

lemma le_bytes_add: "le_bytes (m + n) x = le_bytes m x @ le_bytes n (drop_bit (8 * m) x)"
  by (induction m arbitrary: x) (auto simp: ac_simps)

lemma le_bytes_ucast:
  "8 * n \<le> LENGTH('b) \<Longrightarrow> le_bytes n (ucast (x :: 'a::len word) :: 'b::len word) = le_bytes n x"
  by (rule nth_equalityI)
    (auto simp: nth_le_bytes bit_simps intro!: bit_eqI dest: bit_imp_le_length)

lemma le_word_le_bytes_take: "le_word (le_bytes n w) = take_bit (8 * n) (w :: 'a::len word)"
proof (induction n arbitrary: w)
  case 0
  then show ?case by simp
next
  case (Suc n)
  show ?case
    by (rule bit_eqI) (auto simp: Suc.IH bit_simps ac_simps)
qed

lemma le_word_le_bytes [byte_simps]:
  "LENGTH('a) \<le> 8 * n \<Longrightarrow> le_word (le_bytes n w) = (w :: 'a::len word)"
  by (simp add: le_word_le_bytes_take take_bit_word_eq_self)

lemma le_word_small: "bit (le_word bs :: 'a::len word) i \<Longrightarrow> i < 8 * length bs"
proof (induction bs arbitrary: i)
  case Nil
  then show ?case by simp
next
  case (Cons b bs)
  show ?case
  proof (cases "i < 8")
    case False
    with Cons.prems have "bit (le_word bs :: 'a word) (i - 8)"
      by (auto simp: bit_simps dest: bit_imp_le_length)
    then have "i - 8 < 8 * length bs" by (rule Cons.IH)
    then show ?thesis by simp
  qed simp
qed

lemma le_bytes_le_word [byte_simps]:
  "8 * length bs \<le> LENGTH('a) \<Longrightarrow> le_bytes (length bs) (le_word bs :: 'a::len word) = bs"
proof (induction bs)
  case Nil
  then show ?case by simp
next
  case (Cons b bs)
  have hd: "ucast (le_word (b # bs) :: 'a word) = b"
    using Cons.prems by (intro bit_eqI) (auto simp: bit_simps)
  have tl: "drop_bit 8 (le_word (b # bs) :: 'a word) = le_word bs"
    using Cons.prems
    by (intro bit_eqI) (auto simp: bit_simps dest: bit_imp_le_length le_word_small)
  from hd tl Cons show ?case by simp
qed

lemma be_word_be_bytes [byte_simps]:
  "LENGTH('a) \<le> 8 * n \<Longrightarrow> be_word (be_bytes n w) = (w :: 'a::len word)"
  by (simp add: be_word_def be_bytes_def byte_simps)

lemma be_bytes_be_word [byte_simps]:
  "8 * length bs \<le> LENGTH('a) \<Longrightarrow> be_bytes (length bs) (be_word bs :: 'a::len word) = bs"
  using le_bytes_le_word [of "rev bs", where ?'a = 'a] by (simp add: be_word_def be_bytes_def)

section \<open>Slices\<close>

text \<open>
  \<open>slice xs i n\<close> is the sub-slice of length \<open>n\<close> at \<open>i\<close>, \<open>splice xs i ys\<close> is what
  \<open>copy_from_slice\<close> leaves when it copies \<open>ys\<close> over the sub-slice at \<open>i\<close>. Both are used
  within bounds; where the code can be out of bounds the model has its own branch.
\<close>

definition slice :: "'a list \<Rightarrow> nat \<Rightarrow> nat \<Rightarrow> 'a list" where
  "slice xs i n = take n (drop i xs)"

definition splice :: "'a list \<Rightarrow> nat \<Rightarrow> 'a list \<Rightarrow> 'a list" where
  "splice xs i ys = take i xs @ ys @ drop (i + length ys) xs"

lemma length_slice: "i + n \<le> length xs \<Longrightarrow> length (slice xs i n) = n"
  by (simp add: slice_def)

lemma length_splice [simp]: "i + length ys \<le> length xs \<Longrightarrow> length (splice xs i ys) = length xs"
  by (simp add: splice_def)

lemma splice_Nil [simp]: "splice xs i [] = xs"
  by (simp add: splice_def)

lemma drop_concat_map:
  assumes "\<And>x. length (f x) = w" and "i < length xs"
  shows "drop (w * i) (concat (map f xs)) = f (xs ! i) @ concat (map f (drop (Suc i) xs))"
  using assms(2)
proof (induction xs arbitrary: i)
  case Nil
  then show ?case by simp
next
  case (Cons x xs)
  then show ?case using assms(1) by (cases i) auto
qed

lemma nth_slice: "j < n \<Longrightarrow> i + n \<le> length xs \<Longrightarrow> slice xs i n ! j = xs ! (i + j)"
  by (simp add: slice_def)

lemma nth_splice:
  "i + length ys \<le> length xs \<Longrightarrow> j < length xs \<Longrightarrow>
   splice xs i ys ! j = (if i \<le> j \<and> j < i + length ys then ys ! (j - i) else xs ! j)"
  by (auto simp: splice_def nth_append min_def)

lemma slice_splice_same:
  "i + length ys \<le> length xs \<Longrightarrow> slice (splice xs i ys) i (length ys) = ys"
  by (simp add: slice_def splice_def)

lemma slice_splice_disjoint:
  assumes "i + length ys \<le> length xs" and "j + n \<le> length xs"
    and "j + n \<le> i \<or> i + length ys \<le> j"
  shows "slice (splice xs i ys) j n = slice xs j n"
proof (rule nth_equalityI)
  show "length (slice (splice xs i ys) j n) = length (slice xs j n)"
    using assms by (simp add: length_slice)
next
  fix k assume "k < length (slice (splice xs i ys) j n)"
  with assms show "slice (splice xs i ys) j n ! k = slice xs j n ! k"
    by (auto simp: length_slice nth_slice nth_splice)
qed

text \<open>
  \<open>data[i..j].copy_from_slice(src)\<close>: a slice out of bounds panics, as does a copy between different
  lengths.
\<close>

definition copy_from_slice :: "'a list \<Rightarrow> nat \<Rightarrow> nat \<Rightarrow> 'a list \<Rightarrow> 'a list exec" where
  "copy_from_slice data i j src =
     (if i \<le> j \<and> j \<le> length data \<and> length src = j - i
      then Done (splice data i src) else Panic)"

end
