(* ===== verification/GuestMem.thy ===== *)
theory GuestMem
  imports Prelude
begin

text \<open>
  Guest memory. The devices reach it through the \<open>vm-memory\<close> crate, which is not part of the
  repository: its operations are a parameter of the model, and \<open>guest_memory\<close> states what the
  crate documents of them. \<open>byte_memory\<close> is one implementation.
\<close>

section \<open>The operations\<close>

text \<open>
  \<open>'m\<close> is a memory, \<open>'ge\<close> the crate's \<open>GuestMemoryError\<close>. \<open>gm_read\<close> and \<open>gm_write\<close> are the
  slice operations of the trait \<open>Bytes\<close>.
\<close>

record ('m, 'ge) GuestMemory =
  address_in_range :: "'m \<Rightarrow> u64 \<Rightarrow> bool"
  checked_offset :: "'m \<Rightarrow> u64 \<Rightarrow> nat \<Rightarrow> u64 option"
  gm_read :: "'m \<Rightarrow> u64 \<Rightarrow> nat \<Rightarrow> 'ge + u8 list"
  gm_write :: "'m \<Rightarrow> u64 \<Rightarrow> u8 list \<Rightarrow> 'm \<times> ('ge + unit)"

text \<open>\<open>read_obj\<close> and \<open>write_obj\<close> of an integer of \<open>n\<close> bytes.\<close>

definition read_obj :: "('m, 'ge) GuestMemory \<Rightarrow> 'm \<Rightarrow> nat \<Rightarrow> u64 \<Rightarrow> 'ge + 'a::len word" where
  "read_obj G m n a = rbind (gm_read G m a n) (\<lambda>bs. Ok (le_word bs))"

definition write_obj :: "('m, 'ge) GuestMemory \<Rightarrow> 'm \<Rightarrow> nat \<Rightarrow> 'a::len word \<Rightarrow> u64 \<Rightarrow> 'm \<times> ('ge + unit)" where
  "write_obj G m n w a = gm_write G m a (le_bytes n w)"

abbreviation "read_u16 G m a \<equiv> read_obj G m 2 a :: _ + u16"
abbreviation "read_u32 G m a \<equiv> read_obj G m 4 a :: _ + u32"
abbreviation "read_u64 G m a \<equiv> read_obj G m 8 a :: _ + u64"
abbreviation "write_u16 G m (w :: u16) a \<equiv> write_obj G m 2 w a"
abbreviation "write_u32 G m (w :: u32) a \<equiv> write_obj G m 4 w a"

text \<open>\<open>Result::unwrap\<close>\<close>

definition unwrap_res :: "'e + 'a \<Rightarrow> 'a exec" where
  "unwrap_res r = (case r of Inl _ \<Rightarrow> Panic | Inr x \<Rightarrow> Done x)"

lemma unwrap_res_simps [simp]: "unwrap_res (Err e) = Panic" "unwrap_res (Ok x) = Done x"
  by (simp_all add: unwrap_res_def)

text \<open>\<open>n\<close> bytes of memory from \<open>a\<close> on, without wrapping around the address space.\<close>

definition mapped :: "('m, 'ge) GuestMemory \<Rightarrow> 'm \<Rightarrow> u64 \<Rightarrow> nat \<Rightarrow> bool" where
  "mapped G m a n \<longleftrightarrow>
     unat a + n \<le> 2 ^ 64 \<and> (\<forall>i<n. address_in_range G m (a + of_nat i))"

definition within :: "u64 \<Rightarrow> nat \<Rightarrow> u64 \<Rightarrow> bool" where
  "within a n x \<longleftrightarrow> unat a \<le> unat x \<and> unat x < unat a + n"

definition disjoint_areas :: "u64 \<Rightarrow> nat \<Rightarrow> u64 \<Rightarrow> nat \<Rightarrow> bool" where
  "disjoint_areas a n b k \<longleftrightarrow> unat a + n \<le> unat b \<or> unat b + k \<le> unat a"

lemma unat_offset:
  "unat a + n \<le> 2 ^ 64 \<Longrightarrow> i < n \<Longrightarrow> unat (a + of_nat i :: u64) = unat a + i"
  by (subst unat_add_small) (simp_all add: unat_of_nat)

lemma mapped_part:
  assumes "mapped G m a n" and "k + j \<le> n"
  shows "mapped G m (a + of_nat k) j"
proof (cases "j = 0")
  case True
  then show ?thesis using unat_bound [of "a + of_nat k"] by (simp add: mapped_def)
next
  case False
  then have "unat (a + of_nat k) = unat a + k"
    using assms by (intro unat_offset [of a n]) (simp_all add: mapped_def)
  moreover have "address_in_range G m (a + of_nat k + of_nat i)" if "i < j" for i
    using assms that unfolding mapped_def by (metis add.assoc add_less_cancel_left of_nat_add order_less_le_trans)
  ultimately show ?thesis using assms by (simp add: mapped_def)
qed

text \<open>The integer of \<open>n\<close> bytes at an address of a memory with the bytes \<open>mb\<close>.\<close>

definition peek :: "('m \<Rightarrow> u64 \<Rightarrow> u8) \<Rightarrow> 'm \<Rightarrow> nat \<Rightarrow> u64 \<Rightarrow> 'a::len word" where
  "peek mb m n a = le_word (map (\<lambda>i. mb m (a + of_nat i)) [0..<n])"

section \<open>The contract\<close>

locale guest_memory =
  fixes G :: "('m, 'ge) GuestMemory" and mem_byte :: "'m \<Rightarrow> u64 \<Rightarrow> u8"
  assumes checked_offset: "checked_offset G m a n =
      (if unat a + n < 2 ^ 64 \<and> address_in_range G m (a + of_nat n) then Some (a + of_nat n) else None)"
    and read_Ok: "0 < n \<Longrightarrow> mapped G m a n \<Longrightarrow>
      gm_read G m a n = Ok (map (\<lambda>i. mem_byte m (a + of_nat i)) [0..<n])"
    and read_Err: "0 < n \<Longrightarrow> \<not> mapped G m a n \<Longrightarrow> \<exists>e. gm_read G m a n = Err e"
    and write_Ok: "0 < length bs \<Longrightarrow> mapped G m a (length bs) \<Longrightarrow> \<exists>m'. gm_write G m a bs = (m', Ok ())
      \<and> (\<forall>i < length bs. mem_byte m' (a + of_nat i) = bs ! i)"
    and write_Err: "0 < length bs \<Longrightarrow> \<not> mapped G m a (length bs) \<Longrightarrow> \<exists>m' e. gm_write G m a bs = (m', Err e)"
    and write_frame: "gm_write G m a bs = (m', r) \<Longrightarrow>
      (\<forall>x. address_in_range G m' x = address_in_range G m x)
      \<and> (\<forall>x. \<not> within a (length bs) x \<longrightarrow> mem_byte m' x = mem_byte m x)"
begin

lemma read_obj_Ok: "0 < n \<Longrightarrow> mapped G m a n \<Longrightarrow> read_obj G m n a = Ok (peek mem_byte m n a)"
  by (simp add: read_obj_def read_Ok peek_def)

lemma read_obj_Err: "0 < n \<Longrightarrow> \<not> mapped G m a n \<Longrightarrow> \<exists>e. read_obj G m n a = Err e"
  using read_Err [of n m a] by (auto simp: read_obj_def)

lemma mapped_frame: "gm_write G m a bs = (m', r) \<Longrightarrow> mapped G m' b k = mapped G m b k"
  using write_frame by (simp add: mapped_def)

lemma write_obj_mapped: "write_obj G m n w a = (m', r) \<Longrightarrow> mapped G m' b k = mapped G m b k"
  unfolding write_obj_def by (rule mapped_frame)

lemma write_obj_frame:
  assumes "write_obj G m n w a = (m', r)" and "disjoint_areas a n b k" and "unat b + k \<le> 2 ^ 64"
  shows "peek mem_byte m' k b = peek mem_byte m k b"
proof -
  have "mem_byte m' (b + of_nat i) = mem_byte m (b + of_nat i)" if "i < k" for i
    using write_frame [OF assms(1) [unfolded write_obj_def]] assms(2) unat_offset [OF assms(3) that] that
    by (auto simp: within_def disjoint_areas_def)
  then have "map (\<lambda>i. mem_byte m' (b + of_nat i)) [0..<k] = map (\<lambda>i. mem_byte m (b + of_nat i)) [0..<k]"
    by simp
  then show ?thesis by (simp only: peek_def)
qed

lemma write_obj_Ok:
  assumes "0 < n" and "mapped G m a n" and "LENGTH('a) = 8 * n"
  obtains m' where "write_obj G m n (w :: 'a::len word) a = (m', Ok ())"
    and "peek mem_byte m' n a = w"
proof -
  obtain m' where w: "gm_write G m a (le_bytes n w) = (m', Ok ())"
    and b: "\<forall>i < n. mem_byte m' (a + of_nat i) = le_bytes n w ! i"
    using write_Ok [of "le_bytes n w" m a] assms(1,2) by auto
  have "map (\<lambda>i. mem_byte m' (a + of_nat i)) [0..<n] = le_bytes n w"
    using b by (intro nth_equalityI) simp_all
  then show thesis
    using that [of m'] w assms(3) by (simp add: write_obj_def peek_def le_word_le_bytes)
qed

end

section \<open>A memory\<close>

text \<open>
  A map from addresses to bytes. A write that does not fit leaves the memory as it is; the crate
  may write a part of it, which the contract allows.
\<close>

type_synonym byte_map = "u64 \<rightharpoonup> u8"

definition bm_mapped :: "byte_map \<Rightarrow> u64 \<Rightarrow> nat \<Rightarrow> bool" where
  "bm_mapped m a n \<longleftrightarrow> unat a + n \<le> 2 ^ 64 \<and> list_all (\<lambda>i. m (a + of_nat i) \<noteq> None) [0..<n]"

fun bm_store :: "byte_map \<Rightarrow> u64 \<Rightarrow> u8 list \<Rightarrow> byte_map" where
  "bm_store m a [] = m"
| "bm_store m a (b # bs) = bm_store (m(a \<mapsto> b)) (a + 1) bs"

definition byte_memory :: "(byte_map, unit) GuestMemory" where
  "byte_memory =
     \<lparr>address_in_range = (\<lambda>m a. m a \<noteq> None),
      checked_offset = (\<lambda>m a n.
        if unat a + n < 2 ^ 64 \<and> m (a + of_nat n) \<noteq> None then Some (a + of_nat n) else None),
      gm_read = (\<lambda>m a n.
        if bm_mapped m a n then Ok (map (\<lambda>i. the (m (a + of_nat i))) [0..<n]) else Err ()),
      gm_write = (\<lambda>m a bs.
        if bm_mapped m a (length bs) then (bm_store m a bs, Ok ()) else (m, Err ()))\<rparr>"

lemma byte_memory_simps [simp]:
  "address_in_range byte_memory m a \<longleftrightarrow> m a \<noteq> None"
  "checked_offset byte_memory m a n =
     (if unat a + n < 2 ^ 64 \<and> m (a + of_nat n) \<noteq> None then Some (a + of_nat n) else None)"
  "gm_read byte_memory m a n =
     (if bm_mapped m a n then Ok (map (\<lambda>i. the (m (a + of_nat i))) [0..<n]) else Err ())"
  "gm_write byte_memory m a bs =
     (if bm_mapped m a (length bs) then (bm_store m a bs, Ok ()) else (m, Err ()))"
  by (simp_all add: byte_memory_def)

lemma bm_mapped_iff: "bm_mapped m a n \<longleftrightarrow> mapped byte_memory m a n"
  by (auto simp: bm_mapped_def mapped_def list_all_iff)

lemma bm_mapped_Some: "bm_mapped m a n \<Longrightarrow> i < n \<Longrightarrow> \<exists>b. m (a + of_nat i) = Some b"
  by (simp add: bm_mapped_def list_all_iff)

lemma bm_store_at:
  assumes "unat a + length bs \<le> 2 ^ 64"
  shows "bm_store m a bs x = (if within a (length bs) x then Some (bs ! (unat x - unat a)) else m x)"
  using assms
proof (induction bs arbitrary: m a)
  case Nil
  then show ?case by (auto simp: within_def)
next
  case (Cons b bs)
  show ?case
  proof (cases "bs = []")
    case True
    then show ?thesis by (auto simp: within_def word_unat_eq_iff less_Suc_eq)
  next
    case False
    then have a1: "unat (a + 1) = unat a + 1"
      using Cons.prems by (subst unat_add_small) (cases bs; simp)+
    have IH: "bm_store (m(a \<mapsto> b)) (a + 1) bs x
        = (if within (a + 1) (length bs) x then Some (bs ! (unat x - unat (a + 1))) else (m(a \<mapsto> b)) x)"
      using Cons.prems by (intro Cons.IH) (simp add: a1)
    show ?thesis
    proof (cases "x = a")
      case True
      then show ?thesis using IH by (simp add: within_def a1)
    next
      case False
      then have "unat x \<noteq> unat a" by (simp add: word_unat_eq_iff)
      then have "within (a + 1) (length bs) x \<longleftrightarrow> within a (length (b # bs)) x"
        by (auto simp: within_def a1)
      moreover have "(b # bs) ! (unat x - unat a) = bs ! (unat x - unat (a + 1))"
        if "within a (length (b # bs)) x"
        using that \<open>unat x \<noteq> unat a\<close> by (simp add: within_def a1 nth_Cons' Suc_diff_Suc)
      ultimately show ?thesis using IH False by simp
    qed
  qed
qed

lemma within_offset: "unat a + n \<le> 2 ^ 64 \<Longrightarrow> i < n \<Longrightarrow> within a n (a + of_nat i)"
  by (simp add: within_def unat_offset)

interpretation bm: guest_memory byte_memory "\<lambda>m a. case m a of None \<Rightarrow> 0 | Some b \<Rightarrow> b"
proof
  fix m :: byte_map and a n
  show "checked_offset byte_memory m a n =
      (if unat a + n < 2 ^ 64 \<and> address_in_range byte_memory m (a + of_nat n)
       then Some (a + of_nat n) else None)"
    by simp
  show "gm_read byte_memory m a n
      = Ok (map (\<lambda>i. case m (a + of_nat i) of None \<Rightarrow> 0 | Some b \<Rightarrow> b) [0..<n])"
    if "0 < n" "mapped byte_memory m a n"
  proof -
    have "bm_mapped m a n" using that by (simp add: bm_mapped_iff)
    then show ?thesis using bm_mapped_Some [of m a n] by (fastforce split: option.split)
  qed
  show "\<exists>e. gm_read byte_memory m a n = Err e" if "0 < n" "\<not> mapped byte_memory m a n"
    using that by (auto simp: bm_mapped_iff [symmetric])
next
  fix m :: byte_map and a bs
  show "\<exists>m'. gm_write byte_memory m a bs = (m', Ok ())
      \<and> (\<forall>i<length bs. (case m' (a + of_nat i) of None \<Rightarrow> 0 | Some b \<Rightarrow> b) = bs ! i)"
    if "0 < length bs" "mapped byte_memory m a (length bs)"
  proof -
    have l: "unat a + length bs \<le> 2 ^ 64" using that by (simp add: mapped_def)
    have "gm_write byte_memory m a bs = (bm_store m a bs, Ok ())"
      using that by (simp add: bm_mapped_iff [symmetric])
    moreover have "\<forall>i<length bs. bm_store m a bs (a + of_nat i) = Some (bs ! i)"
      using l by (simp add: bm_store_at within_offset unat_offset)
    ultimately show ?thesis by simp
  qed
  show "\<exists>m' e. gm_write byte_memory m a bs = (m', Err e)"
    if "0 < length bs" "\<not> mapped byte_memory m a (length bs)"
    using that by (auto simp: bm_mapped_iff [symmetric])
next
  fix m m' :: byte_map and a bs r
  assume w: "gm_write byte_memory m a bs = (m', r)"
  show "(\<forall>x. address_in_range byte_memory m' x = address_in_range byte_memory m x)
     \<and> (\<forall>x. \<not> within a (length bs) x \<longrightarrow>
          (case m' x of None \<Rightarrow> 0 | Some b \<Rightarrow> b) = (case m x of None \<Rightarrow> 0 | Some b \<Rightarrow> b))"
  proof (cases "bm_mapped m a (length bs)")
    case False
    then show ?thesis using w by simp
  next
    case True
    then have m': "m' = bm_store m a bs" using w by simp
    have l: "unat a + length bs \<le> 2 ^ 64" using True by (simp add: bm_mapped_def)
    have "m x \<noteq> None" if "within a (length bs) x" for x
    proof -
      have "x = a + of_nat (unat x - unat a)" "unat x - unat a < length bs"
        using that by (auto simp: within_def of_nat_diff)
      then show ?thesis using bm_mapped_Some [OF True] by (metis option.discI)
    qed
    then show ?thesis using l by (auto simp: m' bm_store_at)
  qed
qed

end
