(* ===== verification/VirtQueue.thy ===== *)
theory VirtQueue
  imports GuestMem
begin

text \<open>
  The virtio queues of the devices, \<open>devices/src/virtio/queue.rs\<close>: descriptor chains, the available
  ring the driver fills, the used ring the device fills, and the suppression of notifications.
  Reads and writes of guest memory go through a \<open>GuestMemory\<close>; a failed \<open>unwrap\<close>, a division by
  zero and the explicit \<open>panic!\<close> are \<open>Panic\<close>.
\<close>

section \<open>Descriptor chains\<close>

definition VIRTQ_DESC_F_NEXT :: u16 where "VIRTQ_DESC_F_NEXT = 0x1"
definition VIRTQ_DESC_F_WRITE :: u16 where "VIRTQ_DESC_F_WRITE = 0x2"

datatype 'ge QueueError = DescIndexOutOfBounds u16 | UsedRing 'ge

record Descriptor =
  d_addr :: u64
  d_len :: u32
  d_flags :: u16
  d_next :: u16

text \<open>The C layout of a descriptor: 16 bytes without padding.\<close>

definition Descriptor_from_bytes :: "u8 list \<Rightarrow> Descriptor" where
  "Descriptor_from_bytes bs =
     \<lparr>d_addr = le_word (slice bs 0 8), d_len = le_word (slice bs 8 4),
      d_flags = le_word (slice bs 12 2), d_next = le_word (slice bs 14 2)\<rparr>"

record DescriptorChain =
  dc_desc_table :: u64
  dc_queue_size :: u16
  dc_ttl :: u16
  dc_index :: u16
  dc_addr :: u64
  dc_len :: u32
  dc_flags :: u16
  dc_next :: u16

definition has_next :: "DescriptorChain \<Rightarrow> bool" where
  "has_next c \<longleftrightarrow> dc_flags c AND VIRTQ_DESC_F_NEXT \<noteq> 0 \<and> dc_ttl c > 1"

definition dc_is_valid :: "DescriptorChain \<Rightarrow> bool" where
  "dc_is_valid c \<longleftrightarrow> \<not> has_next c \<or> dc_next c < dc_queue_size c"

definition is_write_only :: "DescriptorChain \<Rightarrow> bool" where
  "is_write_only c \<longleftrightarrow> dc_flags c AND VIRTQ_DESC_F_WRITE \<noteq> 0"

definition checked_new ::
  "('m, 'ge) GuestMemory \<Rightarrow> 'm \<Rightarrow> u64 \<Rightarrow> u16 \<Rightarrow> u16 \<Rightarrow> DescriptorChain option" where
  "checked_new G m desc_table queue_size index =
     (if index \<ge> queue_size then None
      else Option.bind (checked_offset G m desc_table (unat index * 16)) (\<lambda>desc_head.
           Option.bind (checked_offset G m desc_head 16) (\<lambda>_.
           case gm_read G m desc_head 16 of
             Inl _ \<Rightarrow> None
           | Inr bs \<Rightarrow>
               let desc = Descriptor_from_bytes bs;
                   chain = \<lparr>dc_desc_table = desc_table, dc_queue_size = queue_size,
                            dc_ttl = queue_size, dc_index = index, dc_addr = d_addr desc,
                            dc_len = d_len desc, dc_flags = d_flags desc, dc_next = d_next desc\<rparr>
               in if dc_is_valid chain then Some chain else None)))"

definition next_descriptor ::
  "('m, 'ge) GuestMemory \<Rightarrow> 'm \<Rightarrow> DescriptorChain \<Rightarrow> DescriptorChain option" where
  "next_descriptor G m c =
     (if has_next c
      then map_option (\<lambda>c'. c'\<lparr>dc_ttl := dc_ttl c - 1\<rparr>)
             (checked_new G m (dc_desc_table c) (dc_queue_size c) (dc_next c))
      else None)"

section \<open>Queues\<close>

record Queue =
  q_max_size :: u16
  q_size :: u16
  q_ready :: bool
  q_desc_table :: u64
  q_avail_ring :: u64
  q_used_ring :: u64
  q_next_avail :: u16
  q_next_used :: u16
  q_uses_notif_suppression :: bool
  q_num_added :: u16

definition queue_new :: "u16 \<Rightarrow> Queue" where
  "queue_new max_size =
     \<lparr>q_max_size = max_size, q_size = 0, q_ready = False, q_desc_table = 0, q_avail_ring = 0,
      q_used_ring = 0, q_next_avail = 0, q_next_used = 0, q_uses_notif_suppression = False,
      q_num_added = 0\<rparr>"

definition actual_size :: "Queue \<Rightarrow> u16" where
  "actual_size q = min (q_size q) (q_max_size q)"

definition avail_idx :: "('m, 'ge) GuestMemory \<Rightarrow> 'm \<Rightarrow> Queue \<Rightarrow> u16 exec" where
  "avail_idx G m q = unwrap_res (read_u16 G m (q_avail_ring q + 2))"

definition queue_len :: "('m, 'ge) GuestMemory \<Rightarrow> 'm \<Rightarrow> Queue \<Rightarrow> u16 exec" where
  "queue_len G m q = ebind (avail_idx G m q) (\<lambda>i. Done (i - q_next_avail q))"

definition queue_is_empty :: "('m, 'ge) GuestMemory \<Rightarrow> 'm \<Rightarrow> Queue \<Rightarrow> bool exec" where
  "queue_is_empty G m q = ebind (queue_len G m q) (\<lambda>n. Done (n = 0))"

text \<open>\<open>start.checked_add(size).map_or(true, |v| !mem.address_in_range(v))\<close>\<close>

definition ends_out_of_range :: "('m, 'ge) GuestMemory \<Rightarrow> 'm \<Rightarrow> u64 \<Rightarrow> u64 \<Rightarrow> bool" where
  "ends_out_of_range G m start sz =
     (case checked_add start sz of None \<Rightarrow> True | Some v \<Rightarrow> \<not> address_in_range G m v)"

definition queue_is_valid :: "('m, 'ge) GuestMemory \<Rightarrow> 'm \<Rightarrow> Queue \<Rightarrow> bool exec" where
  "queue_is_valid G m q =
     (let queue_size = ucast (actual_size q) :: u64;
          desc_table_size = 16 * queue_size;
          avail_ring_size = 6 + 2 * queue_size;
          used_ring_size = 6 + 8 * queue_size
      in if \<not> q_ready q then Done False
         else if q_size q > q_max_size q \<or> q_size q = 0 \<or> q_size q AND (q_size q - 1) \<noteq> 0
         then Done False
         else if ends_out_of_range G m (q_desc_table q) desc_table_size then Done False
         else if ends_out_of_range G m (q_avail_ring q) avail_ring_size then Done False
         else if ends_out_of_range G m (q_used_ring q) used_ring_size then Done False
         else if q_desc_table q AND 0xf \<noteq> 0 then Done False
         else if q_avail_ring q AND 0x1 \<noteq> 0 then Done False
         else if q_used_ring q AND 0x3 \<noteq> 0 then Done False
         else ebind (queue_len G m q) (\<lambda>n. Done (\<not> n > q_max_size q)))"

text \<open>The remainder of Rust: the divisor zero panics.\<close>

definition rem_u16 :: "u16 \<Rightarrow> u16 \<Rightarrow> u16 exec" where
  "rem_u16 a b = (if b = 0 then Panic else Done (a mod b))"

definition do_pop_unchecked ::
  "('m, 'ge) GuestMemory \<Rightarrow> 'm \<Rightarrow> Queue \<Rightarrow> (Queue \<times> DescriptorChain option) exec" where
  "do_pop_unchecked G m q =
     ebind (rem_u16 (q_next_avail q) (actual_size q)) (\<lambda>slot.
       let index_offset = 4 + 2 * slot
       in ebind (unwrap_res (read_u16 G m (q_avail_ring q + ucast index_offset))) (\<lambda>desc_index.
            case checked_new G m (q_desc_table q) (actual_size q) desc_index of
              None \<Rightarrow> Done (q, None)
            | Some dc \<Rightarrow> Done (q\<lparr>q_next_avail := q_next_avail q + 1\<rparr>, Some dc)))"

definition queue_pop ::
  "('m, 'ge) GuestMemory \<Rightarrow> 'm \<Rightarrow> Queue \<Rightarrow> (Queue \<times> DescriptorChain option) exec" where
  "queue_pop G m q =
     ebind (queue_len G m q) (\<lambda>len.
       if len > actual_size q then Panic
       else if len = 0 then Done (q, None)
       else do_pop_unchecked G m q)"

definition undo_pop :: "Queue \<Rightarrow> Queue" where
  "undo_pop q = q\<lparr>q_next_avail := q_next_avail q - 1\<rparr>"

definition add_used ::
  "('m, 'ge) GuestMemory \<Rightarrow> 'm \<Rightarrow> Queue \<Rightarrow> u16 \<Rightarrow> u32 \<Rightarrow>
   (Queue \<times> 'm \<times> ('ge QueueError + unit)) exec" where
  "add_used G m q desc_index len =
     (if desc_index \<ge> actual_size q then Done (q, m, Err (DescIndexOutOfBounds desc_index))
      else ebind (rem_u16 (q_next_used q) (actual_size q)) (\<lambda>slot.
        let next_used = ucast slot :: u64;
            used_elem = q_used_ring q + (4 + next_used * 8)
        in case write_u32 G m (ucast desc_index) used_elem of
             (m, Inl e) \<Rightarrow> Done (q, m, Err (UsedRing e))
           | (m, Inr _) \<Rightarrow>
               (case write_u32 G m len (used_elem + 4) of
                  (m, Inl e) \<Rightarrow> Done (q, m, Err (UsedRing e))
                | (m, Inr _) \<Rightarrow>
                    let q = q\<lparr>q_num_added := q_num_added q + 1, q_next_used := q_next_used q + 1\<rparr>
                    in case write_u16 G m (q_next_used q) (q_used_ring q + 2) of
                         (m, Inl e) \<Rightarrow> Done (q, m, Err (UsedRing e))
                       | (m, Inr _) \<Rightarrow> Done (q, m, Ok ()))))"

definition used_event :: "('m, 'ge) GuestMemory \<Rightarrow> 'm \<Rightarrow> Queue \<Rightarrow> u16 exec" where
  "used_event G m q = unwrap_res (read_u16 G m (q_avail_ring q + ucast (4 + 2 * actual_size q)))"

definition set_avail_event :: "('m, 'ge) GuestMemory \<Rightarrow> 'm \<Rightarrow> Queue \<Rightarrow> u16 \<Rightarrow> 'm exec" where
  "set_avail_event G m q val =
     (case write_u16 G m val (q_used_ring q + ucast (4 + 8 * actual_size q)) of
        (_, Inl _) \<Rightarrow> Panic
      | (m, Inr _) \<Rightarrow> Done m)"

text \<open>
  The driver runs while the device does: \<open>env\<close> is what it does to memory between the write of
  \<open>avail_event\<close> and the second read of the available index, which the fence orders.
\<close>

definition try_enable_notification ::
  "('m, 'ge) GuestMemory \<Rightarrow> ('m \<Rightarrow> 'm) \<Rightarrow> 'm \<Rightarrow> Queue \<Rightarrow> ('m \<times> bool) exec" where
  "try_enable_notification G env m q =
     (if \<not> q_uses_notif_suppression q then Done (m, True)
      else ebind (queue_len G m q) (\<lambda>len.
        if len \<noteq> 0
        then if len > actual_size q then Panic else Done (m, False)
        else ebind (set_avail_event G m q (q_next_avail q)) (\<lambda>m.
               let m = env m
               in ebind (avail_idx G m q) (\<lambda>i. Done (m, q_next_avail q = i)))))"

definition pop_or_enable_notification ::
  "('m, 'ge) GuestMemory \<Rightarrow> ('m \<Rightarrow> 'm) \<Rightarrow> 'm \<Rightarrow> Queue \<Rightarrow>
   (Queue \<times> 'm \<times> DescriptorChain option) exec" where
  "pop_or_enable_notification G env m q =
     (if \<not> q_uses_notif_suppression q
      then ebind (queue_pop G m q) (\<lambda>(q, r). Done (q, m, r))
      else ebind (try_enable_notification G env m q) (\<lambda>(m, enabled).
             if enabled then Done (q, m, None)
             else ebind (do_pop_unchecked G m q) (\<lambda>(q, r). Done (q, m, r))))"

definition enable_notif_suppression :: "Queue \<Rightarrow> Queue" where
  "enable_notif_suppression q = q\<lparr>q_uses_notif_suppression := True\<rparr>"

definition prepare_kick :: "('m, 'ge) GuestMemory \<Rightarrow> 'm \<Rightarrow> Queue \<Rightarrow> (Queue \<times> bool) exec" where
  "prepare_kick G m q =
     (if \<not> q_uses_notif_suppression q then Done (q, True)
      else let new = q_next_used q;
               old = q_next_used q - q_num_added q
           in ebind (used_event G m q) (\<lambda>used_event.
                Done (q\<lparr>q_num_added := 0\<rparr>, new - used_event - 1 < new - old)))"

section \<open>Walking a chain\<close>

text \<open>
  The devices walk a chain by \<open>next_descriptor\<close> until there is no next one. The time to live
  bounds the walk, also over a cyclic chain.
\<close>

lemma checked_new_Some:
  assumes "checked_new G m t n i = Some c"
  shows "dc_ttl c = n" "dc_queue_size c = n" "dc_index c = i" "i < n" "dc_desc_table c = t"
  using assms
  by (auto simp: checked_new_def Let_def bind_eq_Some_conv case_sum_Some split: if_split_asm)

lemma next_descriptor_Some:
  assumes "next_descriptor G m c = Some c'"
  shows "has_next c" "dc_ttl c' = dc_ttl c - 1" "dc_index c' = dc_next c"
    "dc_index c' < dc_queue_size c" "dc_queue_size c' = dc_queue_size c"
    "dc_desc_table c' = dc_desc_table c"
proof -
  obtain d where d: "checked_new G m (dc_desc_table c) (dc_queue_size c) (dc_next c) = Some d"
    and c': "c' = d\<lparr>dc_ttl := dc_ttl c - 1\<rparr>" and "has_next c"
    using assms by (auto simp: next_descriptor_def split: if_split_asm)
  then show "has_next c" "dc_ttl c' = dc_ttl c - 1" "dc_index c' = dc_next c"
    "dc_index c' < dc_queue_size c" "dc_queue_size c' = dc_queue_size c"
    "dc_desc_table c' = dc_desc_table c"
    using checked_new_Some [OF d] by simp_all
qed

lemma ttl_decreases: "has_next c \<Longrightarrow> unat (dc_ttl c - 1) < unat (dc_ttl c)"
  by (simp add: has_next_def word_less_nat_alt unat_sub_le word_le_nat_alt)

function walk :: "('m, 'ge) GuestMemory \<Rightarrow> 'm \<Rightarrow> DescriptorChain \<Rightarrow> DescriptorChain list" where
  "walk G m c = c # (case next_descriptor G m c of None \<Rightarrow> [] | Some c' \<Rightarrow> walk G m c')"
  by pat_completeness auto
termination
  by (relation "measure (\<lambda>(G, m, c). unat (dc_ttl c))")
    (auto dest: next_descriptor_Some(1,2) intro: ttl_decreases simp: next_descriptor_Some)

declare walk.simps [simp del]

lemma walk_bounded:
  "length (walk G m c) \<le> max 1 (unat (dc_ttl c))
   \<and> (\<forall>d \<in> set (tl (walk G m c)). dc_index d < dc_queue_size c)"
proof (induction G m c rule: walk.induct)
  case (1 G m c)
  show ?case
  proof (cases "next_descriptor G m c")
    case None
    then show ?thesis by (simp add: walk.simps [of G m c])
  next
    case (Some c')
    note n = next_descriptor_Some [OF Some]
    have IH: "length (walk G m c') \<le> max 1 (unat (dc_ttl c'))"
      "\<forall>d \<in> set (tl (walk G m c')). dc_index d < dc_queue_size c"
      using 1 [OF Some] n(5) by simp_all
    have w: "walk G m c = c # walk G m c'" by (simp add: walk.simps [of G m c] Some)
    have "walk G m c' = c' # tl (walk G m c')" by (simp add: walk.simps [of G m c'])
    then have "\<forall>d \<in> set (walk G m c'). dc_index d < dc_queue_size c"
      using IH(2) n(4) by (metis set_ConsD)
    moreover have "unat (dc_ttl c') + 1 = unat (dc_ttl c)" "1 < unat (dc_ttl c)"
      using n(1,2) by (simp_all add: has_next_def word_less_nat_alt unat_sub_le word_le_nat_alt)
    ultimately show ?thesis using w IH(1) by simp
  qed
qed

section \<open>What the rings hold\<close>

text \<open>The number of entries of a queue, and the memory its three areas take.\<close>

abbreviation entries :: "Queue \<Rightarrow> nat" where
  "entries q \<equiv> unat (actual_size q)"

definition queue_mapped :: "('m, 'ge) GuestMemory \<Rightarrow> 'm \<Rightarrow> Queue \<Rightarrow> bool" where
  "queue_mapped G m q \<longleftrightarrow>
     mapped G m (q_desc_table q) (16 * entries q)
     \<and> mapped G m (q_avail_ring q) (6 + 2 * entries q)
     \<and> mapped G m (q_used_ring q) (6 + 8 * entries q)"

text \<open>Sizes for which the 16-bit offsets into the rings do not wrap around.\<close>

definition queue_sized :: "Queue \<Rightarrow> bool" where
  "queue_sized q \<longleftrightarrow> 0 < entries q \<and> entries q \<le> 8191"

definition avail_addr :: "Queue \<Rightarrow> nat \<Rightarrow> u64" where
  "avail_addr q i = q_avail_ring q + of_nat (4 + 2 * i)"

definition used_addr :: "Queue \<Rightarrow> nat \<Rightarrow> u64" where
  "used_addr q i = q_used_ring q + of_nat (4 + 8 * i)"

text \<open>
  The heads the driver made available and the device has not popped, in order, when the memory
  has the bytes \<open>mb\<close>.
\<close>

definition avail_heads :: "('m \<Rightarrow> u64 \<Rightarrow> u8) \<Rightarrow> 'm \<Rightarrow> Queue \<Rightarrow> u16 list" where
  "avail_heads mb m q =
     map (\<lambda>i. peek mb m 2 (avail_addr q (unat (q_next_avail q + of_nat i) mod entries q)))
       [0..<unat (peek mb m 2 (q_avail_ring q + 2) - q_next_avail q :: u16)]"

text \<open>
  The entries of the used ring a driver that has consumed up to \<open>seen\<close> finds, when the device
  announces the index \<open>idx\<close>.
\<close>

definition used_entry :: "('m \<Rightarrow> u64 \<Rightarrow> u8) \<Rightarrow> 'm \<Rightarrow> Queue \<Rightarrow> nat \<Rightarrow> u32 \<times> u32" where
  "used_entry mb m q i = (peek mb m 4 (used_addr q i), peek mb m 4 (used_addr q i + 4))"

definition used_entries :: "('m \<Rightarrow> u64 \<Rightarrow> u8) \<Rightarrow> 'm \<Rightarrow> Queue \<Rightarrow> u16 \<Rightarrow> (u32 \<times> u32) list" where
  "used_entries mb m q seen =
     map (\<lambda>i. used_entry mb m q (unat (seen + of_nat i) mod entries q))
       [0..<unat (peek mb m 2 (q_used_ring q + 2) - seen :: u16)]"

lemma rem_slot:
  "0 < entries q \<Longrightarrow> rem_u16 x (actual_size q) = Done (x mod actual_size q)"
  by (auto simp: rem_u16_def)

lemma unat_slot: "unat (x mod actual_size q) = unat x mod entries q"
  by (rule unat_mod)

lemma ucast_u16_u64: "(ucast (x :: u16) :: u64) = of_nat (unat x)"
  by (simp add: word_unat_eq_iff unat_ucast_up unat_of_nat)

lemma ucast_u16_eq: "unat (w :: u16) = k \<Longrightarrow> (ucast w :: u64) = of_nat k"
  by (simp only: ucast_u16_u64)

lemma ucast_offset:
  assumes "queue_sized q" and "i < entries q"
  shows "(ucast (4 + 2 * of_nat i :: u16) :: u64) = of_nat (4 + 2 * i)"
proof -
  have "unat (4 + 2 * of_nat i :: u16) = 4 + 2 * i"
    using assms by (simp add: queue_sized_def unat_word_ariths unat_of_nat)
  then show ?thesis by (simp only: ucast_u16_u64)
qed

lemma unat_add_of_nat_mod:
  "n dvd 2 ^ 16 \<Longrightarrow> unat (x + of_nat i :: u16) mod n = (unat x + i) mod n"
  by (simp add: unat_word_ariths unat_of_nat take_bit_eq_mod mod_simps mod_mod_cancel)

lemma mod_neq: "i < j \<Longrightarrow> j < n \<Longrightarrow> (a + i) mod n \<noteq> (a + j) mod (n :: nat)"
  using mod_eq_dvd_iff_nat [of "a + i" "a + j" n] by (auto dest!: dvd_imp_le)

context guest_memory
begin

lemma avail_idx_Done:
  assumes "queue_mapped G m q"
  shows "avail_idx G m q = Done (peek mem_byte m 2 (q_avail_ring q + 2))"
proof -
  have "mapped G m (q_avail_ring q + of_nat 2) 2"
    using assms by (intro mapped_part [of G m _ "6 + 2 * entries q"]) (simp_all add: queue_mapped_def)
  then show ?thesis by (simp add: avail_idx_def read_obj_Ok)
qed

lemma avail_slot_Done:
  assumes "queue_mapped G m q" and "queue_sized q"
  shows "unwrap_res (read_u16 G m (q_avail_ring q + ucast (4 + 2 * (x mod actual_size q))))
         = Done (peek mem_byte m 2 (avail_addr q (unat x mod entries q)))"
proof -
  let ?i = "unat x mod entries q"
  have i: "?i < entries q" using assms(2) by (simp add: queue_sized_def)
  have "x mod actual_size q = of_nat ?i" by (metis of_nat_unat ucast_id unat_slot)
  then have "q_avail_ring q + ucast (4 + 2 * (x mod actual_size q)) = avail_addr q ?i"
    by (simp only: ucast_offset [OF assms(2) i] avail_addr_def)
  moreover have "mapped G m (avail_addr q ?i) 2"
    unfolding avail_addr_def
    using assms(1) i
    by (intro mapped_part [of G m _ "6 + 2 * entries q"]) (simp_all add: queue_mapped_def)
  ultimately show ?thesis by (simp add: read_obj_Ok)
qed

lemma do_pop_unchecked_Done:
  assumes "queue_mapped G m q" and "queue_sized q"
  shows "do_pop_unchecked G m q =
    (let h = peek mem_byte m 2 (avail_addr q (unat (q_next_avail q) mod entries q));
         dc = checked_new G m (q_desc_table q) (actual_size q) h
     in Done (if dc = None then q else q\<lparr>q_next_avail := q_next_avail q + 1\<rparr>, dc))"
  using assms(2) rem_slot [of q] avail_slot_Done [OF assms]
  by (simp add: do_pop_unchecked_def queue_sized_def Let_def split: option.split)

lemma queue_len_Done:
  "queue_mapped G m q \<Longrightarrow>
   queue_len G m q = Done (peek mem_byte m 2 (q_avail_ring q + 2) - q_next_avail q)"
  by (simp add: queue_len_def avail_idx_Done)

lemma length_avail_heads:
  "length (avail_heads mem_byte m q)
   = unat (peek mem_byte m 2 (q_avail_ring q + 2) - q_next_avail q :: u16)"
  by (simp add: avail_heads_def)

lemma avail_heads_Cons:
  assumes "avail_heads mem_byte m q = h # t"
  shows "h = peek mem_byte m 2 (avail_addr q (unat (q_next_avail q) mod entries q))"
    "avail_heads mem_byte m (q\<lparr>q_next_avail := q_next_avail q + 1\<rparr>) = t"
proof -
  let ?d = "peek mem_byte m 2 (q_avail_ring q + 2) - q_next_avail q :: u16"
  let ?f = "\<lambda>x. peek mem_byte m 2 (avail_addr q (unat x mod entries q)) :: u16"
  have heads: "avail_heads mem_byte m q = map (\<lambda>i. ?f (q_next_avail q + of_nat i)) [0..<unat ?d]"
    by (simp add: avail_heads_def)
  have pos: "0 < unat ?d" using assms heads by (cases "unat ?d") auto
  then have up: "[0..<unat ?d] = 0 # map Suc [0..<unat ?d - 1]"
    by (metis Suc_diff_1 map_Suc_upt upt_conv_Cons)
  show "h = ?f (q_next_avail q)" using assms heads up by simp
  have "unat (?d - 1) = unat ?d - 1"
    using pos by (simp add: unat_sub_le word_le_nat_alt)
  moreover have "?d - 1 = peek mem_byte m 2 (q_avail_ring q + 2) - (q_next_avail q + 1)"
    by (simp add: algebra_simps)
  ultimately have "unat (peek mem_byte m 2 (q_avail_ring q + 2) - (q_next_avail q + 1) :: u16) = unat ?d - 1"
    by metis
  then have "avail_heads mem_byte m (q\<lparr>q_next_avail := q_next_avail q + 1\<rparr>)
      = map (\<lambda>i. ?f (q_next_avail q + 1 + of_nat i)) [0..<unat ?d - 1]"
    by (simp add: avail_heads_def avail_addr_def actual_size_def)
  also have "\<dots> = map (\<lambda>i. ?f (q_next_avail q + of_nat i)) (map Suc [0..<unat ?d - 1])"
    by (simp add: add.assoc)
  also have "\<dots> = t" using assms heads up by simp
  finally show "avail_heads mem_byte m (q\<lparr>q_next_avail := q_next_avail q + 1\<rparr>) = t" .
qed

text \<open>Popping takes the first head; a head that is no valid descriptor stays where it is.\<close>

lemma queue_pop_refines:
  assumes "queue_mapped G m q" and "queue_sized q"
  shows "queue_pop G m q =
    (if length (avail_heads mem_byte m q) > entries q then Panic
     else case avail_heads mem_byte m q of
            [] \<Rightarrow> Done (q, None)
          | h # t \<Rightarrow>
              (case checked_new G m (q_desc_table q) (actual_size q) h of
                 None \<Rightarrow> Done (q, None)
               | Some dc \<Rightarrow> Done (q\<lparr>q_next_avail := q_next_avail q + 1\<rparr>, Some dc)))"
proof -
  let ?d = "peek mem_byte m 2 (q_avail_ring q + 2) - q_next_avail q :: u16"
  have gt: "?d > actual_size q \<longleftrightarrow> length (avail_heads mem_byte m q) > entries q"
    by (simp add: length_avail_heads word_less_nat_alt)
  have z: "?d = 0 \<longleftrightarrow> avail_heads mem_byte m q = []"
    using length_avail_heads [of m q] by (auto simp: word_unat_eq_iff)
  show ?thesis
  proof (cases "avail_heads mem_byte m q")
    case Nil
    then show ?thesis
      unfolding queue_pop_def queue_len_Done [OF assms(1)] ebind.simps gt z by simp
  next
    case (Cons h t)
    then show ?thesis
      unfolding queue_pop_def queue_len_Done [OF assms(1)] ebind.simps
        do_pop_unchecked_Done [OF assms] gt z Let_def avail_heads_Cons(1) [OF Cons, symmetric]
      by (simp split: option.split)
  qed
qed

text \<open>The used ring.\<close>

lemma used_area:
  assumes "queue_mapped G m q" and "i < entries q" and "k + j \<le> 8"
  shows "unat (used_addr q i + of_nat k) + j \<le> 2 ^ 64"
    "mapped G m (used_addr q i + of_nat k) j"
    "0 < j \<Longrightarrow> unat (used_addr q i + of_nat k) = unat (q_used_ring q) + (4 + 8 * i + k)"
proof -
  have used: "mapped G m (q_used_ring q) (6 + 8 * entries q)"
    using assms(1) by (simp add: queue_mapped_def)
  have a: "used_addr q i + of_nat k = q_used_ring q + of_nat (4 + 8 * i + k)"
    by (simp add: used_addr_def)
  show "mapped G m (used_addr q i + of_nat k) j"
    unfolding a using used assms(2,3) by (intro mapped_part) auto
  then show "unat (used_addr q i + of_nat k) + j \<le> 2 ^ 64" by (simp add: mapped_def)
  show "unat (used_addr q i + of_nat k) = unat (q_used_ring q) + (4 + 8 * i + k)" if "0 < j"
    unfolding a using used assms(2,3) that by (intro unat_offset) (auto simp: mapped_def)
qed

lemma used_idx_area:
  assumes "queue_mapped G m q"
  shows "mapped G m (q_used_ring q + 2) 2" "unat (q_used_ring q + 2) = unat (q_used_ring q) + 2"
proof -
  have used: "mapped G m (q_used_ring q) (6 + 8 * entries q)"
    using assms by (simp add: queue_mapped_def)
  show "mapped G m (q_used_ring q + 2) 2"
    using mapped_part [OF used, of 2 2] by simp
  show "unat (q_used_ring q + 2) = unat (q_used_ring q) + 2"
    using unat_offset [of "q_used_ring q" "6 + 8 * entries q" 2] used by (simp add: mapped_def)
qed

text \<open>The two fields of an entry are at the offsets 0 and 4.\<close>

lemma used_field_pos:
  assumes "queue_mapped G m q" and "i < entries q" and "k = 0 \<or> k = 4"
  shows "unat (used_addr q i + of_nat k) = unat (q_used_ring q) + (4 + 8 * i + k)"
    "unat (used_addr q i + of_nat k) + 4 \<le> 2 ^ 64"
  using used_area(3) [OF assms(1,2), of k 4] used_area(1) [OF assms(1,2), of k 4] assms(3) by auto

lemma used_fields_disjoint:
  assumes "queue_mapped G m q" and "i < entries q" "k = 0 \<or> k = 4"
    and "j < entries q" "l = 0 \<or> l = 4" and "i \<noteq> j \<or> k \<noteq> l"
  shows "disjoint_areas (used_addr q i + of_nat k) 4 (used_addr q j + of_nat l) 4"
  unfolding disjoint_areas_def used_field_pos(1) [OF assms(1-3)] used_field_pos(1) [OF assms(1,4,5)]
  using assms(3,5,6) by (cases i j rule: linorder_cases) auto

lemma add_used_Done:
  assumes ok: "queue_mapped G m q" "queue_sized q" and d: "desc_index < actual_size q"
  defines "slot \<equiv> unat (q_next_used q) mod entries q"
  defines "q' \<equiv> q\<lparr>q_num_added := q_num_added q + 1, q_next_used := q_next_used q + 1\<rparr>"
  shows "\<exists>m'. add_used G m q desc_index len = Done (q', m', Ok ())
    \<and> used_entry mem_byte m' q slot = (ucast desc_index, len)
    \<and> peek mem_byte m' 2 (q_used_ring q + 2) = q_next_used q + 1
    \<and> (\<forall>i < entries q. i \<noteq> slot \<longrightarrow> used_entry mem_byte m' q i = used_entry mem_byte m q i)
    \<and> (\<forall>b k. mapped G m' b k = mapped G m b k)"
proof -
  let ?a = "used_addr q slot"
  have slot: "slot < entries q" using ok(2) by (simp add: slot_def queue_sized_def)
  have elem: "q_used_ring q + (4 + ucast (q_next_used q mod actual_size q) * 8) = ?a"
    by (simp add: used_addr_def slot_def ucast_u16_u64 unat_slot mult.commute)
  note area = used_area [OF ok(1)]
  obtain m1 where m1: "write_u32 G m (ucast desc_index) ?a = (m1, Ok ())"
    "peek mem_byte m1 4 ?a = (ucast desc_index :: u32)"
    using write_obj_Ok [of 4 m ?a "ucast desc_index :: u32"] area(2) [OF slot, of 0 4] by auto
  note f1 = write_obj_mapped [OF m1(1)]
  obtain m2 where m2: "write_u32 G m1 len (?a + 4) = (m2, Ok ())" "peek mem_byte m2 4 (?a + 4) = len"
    using write_obj_Ok [of 4 m1 "?a + 4" len] area(2) [OF slot, of 4 4] f1 by auto
  note f2 = write_obj_mapped [OF m2(1)]
  obtain m3 where m3: "write_u16 G m2 (q_next_used q + 1) (q_used_ring q + 2) = (m3, Ok ())"
    "peek mem_byte m3 2 (q_used_ring q + 2) = q_next_used q + 1"
    using write_obj_Ok [of 2 m2 "q_used_ring q + 2" "q_next_used q + 1"]
      used_idx_area(1) [OF ok(1)] f1 f2 by auto
  have run: "add_used G m q desc_index len = Done (q', m3, Ok ())"
  proof -
    have "\<not> actual_size q \<le> desc_index" "0 < entries q"
      using d ok(2) by (simp_all add: queue_sized_def)
    then show ?thesis
      unfolding add_used_def rem_slot [OF \<open>0 < entries q\<close>] ebind.simps Let_def elem
      using m1(1) m2(1) m3(1) by (simp add: q'_def)
  qed
  have keep3: "peek mem_byte m3 4 (used_addr q i + of_nat k) = (peek mem_byte m2 4 (used_addr q i + of_nat k) :: u32)"
    if "i < entries q" "k = 0 \<or> k = 4" for i k
    using write_obj_frame [OF m3(1), of "used_addr q i + of_nat k" 4] used_field_pos [OF ok(1) that]
      used_idx_area(2) [OF ok(1)]
    by (simp add: disjoint_areas_def)
  have keep2: "peek mem_byte m2 4 (used_addr q i + of_nat k) = (peek mem_byte m1 4 (used_addr q i + of_nat k) :: u32)"
    if "i < entries q" "k = 0 \<or> k = 4" "slot \<noteq> i \<or> 4 \<noteq> k" for i k
    using write_obj_frame [OF m2(1), of "used_addr q i + of_nat k" 4] used_field_pos(2) [OF ok(1) that(1,2)]
      used_fields_disjoint [OF ok(1) slot _ that(1,2), of 4] that(3) by simp
  have keep1: "peek mem_byte m1 4 (used_addr q i + of_nat k) = (peek mem_byte m 4 (used_addr q i + of_nat k) :: u32)"
    if "i < entries q" "k = 0 \<or> k = 4" "slot \<noteq> i \<or> 0 \<noteq> k" for i k
    using write_obj_frame [OF m1(1), of "used_addr q i + of_nat k" 4] used_field_pos(2) [OF ok(1) that(1,2)]
      used_fields_disjoint [OF ok(1) slot _ that(1,2), of 0] that(3) by simp
  have "used_entry mem_byte m3 q slot = (ucast desc_index, len)"
    using keep3 [OF slot, of 0] keep3 [OF slot, of 4] keep2 [OF slot, of 0] m1(2) m2(2)
    by (simp add: used_entry_def)
  moreover have "used_entry mem_byte m3 q i = used_entry mem_byte m q i" if "i < entries q" "i \<noteq> slot" for i
    using that keep3 [of i 0] keep3 [of i 4] keep2 [of i 0] keep2 [of i 4] keep1 [of i 0] keep1 [of i 4]
    by (simp add: used_entry_def)
  moreover have "mapped G m3 b k = mapped G m b k" for b k
    by (simp only: f1 f2 write_obj_mapped [OF m3(1)])
  ultimately show ?thesis using run m3(2) by blast
qed

lemma add_used_publishes:
  assumes ok: "queue_mapped G m q" "queue_sized q" and pow: "entries q dvd 2 ^ 16"
    and d: "desc_index < actual_size q"
    and idx: "peek mem_byte m 2 (q_used_ring q + 2) = q_next_used q"
    and room: "length (used_entries mem_byte m q seen) < entries q"
  shows "\<exists>q' m'. add_used G m q desc_index len = Done (q', m', Ok ())
     \<and> queue_mapped G m' q' \<and> peek mem_byte m' 2 (q_used_ring q' + 2) = q_next_used q'
     \<and> used_entries mem_byte m' q' seen = used_entries mem_byte m q seen @ [(ucast desc_index, len)]"
proof -
  let ?n = "unat (q_next_used q - seen)"
  have n: "?n < entries q" using room by (simp add: used_entries_def idx)
  obtain m' where m': "add_used G m q desc_index len
      = Done (q\<lparr>q_num_added := q_num_added q + 1, q_next_used := q_next_used q + 1\<rparr>, m', Ok ())"
    and new: "used_entry mem_byte m' q (unat (q_next_used q) mod entries q) = (ucast desc_index, len)"
    and idx': "peek mem_byte m' 2 (q_used_ring q + 2) = q_next_used q + 1"
    and keep: "\<And>i. i < entries q \<Longrightarrow> i \<noteq> unat (q_next_used q) mod entries q \<Longrightarrow>
                 used_entry mem_byte m' q i = used_entry mem_byte m q i"
    and map': "\<And>b k. mapped G m' b k = mapped G m b k"
    using add_used_Done [OF ok d, of len] by blast
  let ?q = "q\<lparr>q_num_added := q_num_added q + 1, q_next_used := q_next_used q + 1\<rparr>"
  have slot: "unat (seen + of_nat i) mod entries q = (unat seen + i) mod entries q" for i
    by (rule unat_add_of_nat_mod [OF pow])
  have cur: "unat (q_next_used q) mod entries q = (unat seen + ?n) mod entries q"
    using slot [of ?n] by simp
  have old: "used_entry mem_byte m' q (unat (seen + of_nat i) mod entries q)
      = used_entry mem_byte m q (unat (seen + of_nat i) mod entries q)" if "i < ?n" for i
    using mod_neq [OF that n, of "unat seen"] n that
    by (intro keep) (simp_all add: slot cur)
  have "q_next_used q + 1 - seen = (q_next_used q - seen) + 1" by simp
  then have "unat (q_next_used q + 1 - seen) = ?n + 1"
    using n unat_bound [of "actual_size q"] by (simp only:) (subst unat_add_small; simp)
  then have "used_entries mem_byte m' ?q seen
      = map (\<lambda>i. used_entry mem_byte m' q (unat (seen + of_nat i) mod entries q)) [0..<?n]
        @ [used_entry mem_byte m' q (unat (seen + of_nat ?n) mod entries q)]"
    by (simp add: used_entries_def idx' used_entry_def used_addr_def actual_size_def)
  also have "\<dots> = used_entries mem_byte m q seen @ [(ucast desc_index, len)]"
    using old new by (simp add: used_entries_def idx)
  finally show ?thesis
    using m' idx' ok(1) map' by (auto simp: queue_mapped_def actual_size_def)
qed

text \<open>Notifications.\<close>

lemma used_event_Done:
  assumes "queue_mapped G m q" and "queue_sized q"
  shows "used_event G m q = Done (peek mem_byte m 2 (avail_addr q (entries q)))"
proof -
  have "(ucast (4 + 2 * actual_size q) :: u64) = of_nat (4 + 2 * entries q)"
    using assms(2) by (intro ucast_u16_eq) (simp add: queue_sized_def unat_word_ariths)
  moreover have "mapped G m (avail_addr q (entries q)) 2"
    unfolding avail_addr_def
    using assms(1) by (intro mapped_part [of G m _ "6 + 2 * entries q"]) (simp_all add: queue_mapped_def)
  ultimately show ?thesis
    by (simp only: used_event_def avail_addr_def) (simp add: read_obj_Ok)
qed

lemma set_avail_event_Done:
  assumes "queue_mapped G m q" and "queue_sized q"
  obtains m' where "set_avail_event G m q val = Done m'"
    and "peek mem_byte m' 2 (used_addr q (entries q)) = val"
    and "\<And>b k. mapped G m' b k = mapped G m b k"
proof -
  have a: "q_used_ring q + ucast (4 + 8 * actual_size q) = used_addr q (entries q)"
    using assms(2) unfolding used_addr_def
    by (intro arg_cong [of _ _ "\<lambda>x. q_used_ring q + x"] ucast_u16_eq)
      (simp add: queue_sized_def unat_word_ariths)
  have "mapped G m (used_addr q (entries q)) 2"
    unfolding used_addr_def
    using assms(1) by (intro mapped_part [of G m _ "6 + 8 * entries q"]) (simp_all add: queue_mapped_def)
  then obtain m' where m': "write_u16 G m val (used_addr q (entries q)) = (m', Ok ())"
    "peek mem_byte m' 2 (used_addr q (entries q)) = val"
    using write_obj_Ok [of 2 m _ val] by auto
  show thesis
    using that [of m'] m' write_obj_mapped [OF m'(1)] by (simp add: set_avail_event_def a)
qed

end

text \<open>
  \<open>vring_need_event\<close> of the virtio specification: whether the index \<open>event\<close> was passed by moving
  from \<open>old\<close> to \<open>new\<close>, modulo \<open>2 ^ 16\<close>.
\<close>

definition vring_need_event :: "u16 \<Rightarrow> u16 \<Rightarrow> u16 \<Rightarrow> bool" where
  "vring_need_event event new old \<longleftrightarrow> new - event - 1 < new - old"

lemma word_sub_one_less_iff: "n - x - 1 < n \<longleftrightarrow> x < (n :: u16)"
  using unat_bound [of x] unat_bound [of n]
  by (auto simp: word_less_nat_alt unat_sub_if')

lemma vring_need_event_iff:
  "vring_need_event event new old \<longleftrightarrow> (\<exists>k < unat (new - old). event = old + of_nat k)"
proof -
  have "new - event - 1 = (new - old) - (event - old) - 1" by simp
  then have "vring_need_event event new old \<longleftrightarrow> event - old < new - old"
    by (simp only: vring_need_event_def word_sub_one_less_iff)
  also have "\<dots> \<longleftrightarrow> (\<exists>k < unat (new - old). event = old + of_nat k)"
  proof
    assume "event - old < new - old"
    then show "\<exists>k < unat (new - old). event = old + of_nat k"
      by (intro exI [of _ "unat (event - old)"]) (simp add: word_less_nat_alt)
  next
    assume "\<exists>k < unat (new - old). event = old + of_nat k"
    then obtain k where k: "k < unat (new - old)" "event - old = of_nat k" by auto
    then have "unat (of_nat k :: u16) = k"
      using unat_bound [of "new - old"] by (simp add: unat_of_nat)
    then show "event - old < new - old" using k by (simp add: word_less_nat_alt)
  qed
  finally show ?thesis .
qed

section \<open>Valid queues\<close>

lemma nat_and_pred_power: "0 < n \<Longrightarrow> n AND (n - 1) = 0 \<Longrightarrow> \<exists>k. n = (2 :: nat) ^ k"
proof (induction n rule: less_induct)
  case (less n)
  show ?case
  proof (cases "even n")
    case True
    then obtain j where n: "n = 2 * j" by blast
    then have j: "0 < j" "j < n" "(n - 1) div 2 = j - 1" using less.prems(1) by auto
    have "2 * (j AND (j - 1)) = n AND (n - 1)"
      using j by (subst and_rec [of n]) (simp add: n)
    then obtain k where "j = 2 ^ k" using less.IH [OF j(2,1)] less.prems(2) by auto
    then show ?thesis using n by (metis power_Suc)
  next
    case False
    then obtain j where n: "n = 2 * j + 1" by (rule oddE)
    then have "n AND (n - 1) = 2 * j" by (subst and_rec) simp
    then have "n = 2 ^ 0" using less.prems(2) n by simp
    then show ?thesis by blast
  qed
qed

lemma power_of_two_iff: "x \<noteq> (0 :: u16) \<and> x AND (x - 1) = 0 \<longleftrightarrow> (\<exists>k. unat x = 2 ^ k)"
proof
  assume x: "x \<noteq> 0 \<and> x AND (x - 1) = 0"
  then have "unat x AND (unat x - 1) = 0" by (metis unat_minus_one unsigned_and_eq unsigned_0)
  moreover have "0 < unat x" using x by (simp add: unat_gt_0)
  ultimately show "\<exists>k. unat x = 2 ^ k" using nat_and_pred_power by blast
next
  assume "\<exists>k. unat x = 2 ^ k"
  then obtain k where k: "unat x = 2 ^ k" ..
  have "x = of_nat (unat x)" by simp
  then have "x = 2 ^ k" by (simp only: k of_nat_power of_nat_numeral)
  then have "x AND (x - 1) = take_bit k (2 ^ k)" by (simp add: take_bit_eq_mask flip: mask_eq_exp_minus_1)
  then have "x AND (x - 1) = 0" by (simp add: take_bit_eq_mod)
  moreover have "x \<noteq> 0" using k by auto
  ultimately show "x \<noteq> 0 \<and> x AND (x - 1) = 0" by simp
qed

lemma power_of_two_dvd:
  assumes "x AND (x - 1) = 0" and "x \<noteq> (0 :: u16)"
  shows "unat x dvd 2 ^ 16"
proof -
  obtain k where k: "unat x = 2 ^ k" using assms power_of_two_iff by blast
  have "(2 :: nat) ^ k < 2 ^ 16" using unat_bound [of x] unfolding k [symmetric] by simp
  then have "k < 16" by (rule power_less_imp_less_exp [rotated]) simp
  then show ?thesis unfolding k by (intro le_imp_power_dvd) simp
qed

lemma word_aligned:
  "(a :: u64) AND 0x1 = 0 \<longleftrightarrow> 2 dvd unat a" "a AND 0x3 = 0 \<longleftrightarrow> 4 dvd unat a" "a AND 0xf = 0 \<longleftrightarrow> 16 dvd unat a"
proof -
  have "a AND mask k = 0 \<longleftrightarrow> 2 ^ k dvd unat a" for k
  proof -
    have "a AND mask k = 0 \<longleftrightarrow> take_bit k (unat a) = 0"
      by (simp add: word_unat_eq_iff unsigned_take_bit_eq flip: take_bit_eq_mask)
    then show ?thesis by (simp add: take_bit_eq_mod dvd_eq_mod_eq_0)
  qed
  from this [of 1] this [of 2] this [of 4] show "a AND 0x1 = 0 \<longleftrightarrow> 2 dvd unat a"
    "a AND 0x3 = 0 \<longleftrightarrow> 4 dvd unat a" "a AND 0xf = 0 \<longleftrightarrow> 16 dvd unat a"
    by (simp_all add: mask_eq_exp_minus_1)
qed

text \<open>
  The areas of a queue that passes \<open>is_valid\<close> end in memory. They lie in memory when they also
  begin there and no hole of the memory is smaller than a queue.
\<close>

definition gapless :: "('m, 'ge) GuestMemory \<Rightarrow> 'm \<Rightarrow> bool" where
  "gapless G m \<longleftrightarrow>
     (\<forall>a n. n \<le> 2 ^ 20 \<and> unat a + n < 2 ^ 64 \<and> address_in_range G m a
        \<and> address_in_range G m (a + of_nat n) \<longrightarrow> mapped G m a n)"

definition areas_start_in_range :: "('m, 'ge) GuestMemory \<Rightarrow> 'm \<Rightarrow> Queue \<Rightarrow> bool" where
  "areas_start_in_range G m q \<longleftrightarrow>
     address_in_range G m (q_desc_table q) \<and> address_in_range G m (q_avail_ring q)
     \<and> address_in_range G m (q_used_ring q)"

lemma in_range_mapped:
  assumes "gapless G m" and "address_in_range G m a" and "\<not> ends_out_of_range G m a sz"
    and "unat sz \<le> 2 ^ 20"
  shows "mapped G m a (unat sz)"
proof -
  have "unat a + unat sz < 2 ^ 64 \<and> address_in_range G m (a + of_nat (unat sz))"
    using assms(3) by (auto simp: ends_out_of_range_def checked_add_def split: if_split_asm)
  then show ?thesis using assms(1,2,4) unfolding gapless_def by blast
qed

lemma queue_is_valid_True:
  assumes "queue_is_valid G m q = Done True"
  shows "q_size q \<le> q_max_size q" "q_size q \<noteq> 0" "q_size q AND (q_size q - 1) = 0"
    "\<not> ends_out_of_range G m (q_desc_table q) (16 * ucast (actual_size q))"
    "\<not> ends_out_of_range G m (q_avail_ring q) (6 + 2 * ucast (actual_size q))"
    "\<not> ends_out_of_range G m (q_used_ring q) (6 + 8 * ucast (actual_size q))"
  using assms by (simp_all add: queue_is_valid_def Let_def split: if_split_asm)

lemma queue_valid_areas:
  assumes v: "queue_is_valid G m q = Done True"
    and "areas_start_in_range G m q" and g: "gapless G m" and "unat (q_max_size q) \<le> 8191"
  shows "queue_mapped G m q" "queue_sized q" "entries q dvd 2 ^ 16"
proof -
  note t = queue_is_valid_True [OF v]
  have a: "actual_size q = q_size q" using t(1) by (simp add: actual_size_def min_def)
  show "entries q dvd 2 ^ 16" using power_of_two_dvd [OF t(3,2)] by (simp add: a)
  show "queue_sized q"
    using t(1,2) assms(4) by (simp add: queue_sized_def a word_le_nat_alt unat_gt_0)
  have u: "unat (ucast (actual_size q) :: u64) = entries q" by (simp add: unat_ucast_up)
  have n: "entries q < 65536" using unat_bound [of "actual_size q"] by simp
  have "unat (16 * ucast (actual_size q) :: u64) = 16 * entries q"
    "unat (6 + 2 * ucast (actual_size q) :: u64) = 6 + 2 * entries q"
    "unat (6 + 8 * ucast (actual_size q) :: u64) = 6 + 8 * entries q"
    using n by (simp_all add: unat_word_ariths u)
  then show "queue_mapped G m q"
    using in_range_mapped [OF g _ t(4)] in_range_mapped [OF g _ t(5)] in_range_mapped [OF g _ t(6)]
      assms(2) n
    by (simp add: queue_mapped_def areas_start_in_range_def)
qed

text \<open>
  What \<open>is_valid\<close> asks of the setup of a queue, in plain arithmetic: the size is a power of two, and
  each area is aligned and has the address after its last byte in memory.
\<close>

definition area_ends :: "('m, 'ge) GuestMemory \<Rightarrow> 'm \<Rightarrow> u64 \<Rightarrow> nat \<Rightarrow> bool" where
  "area_ends G m a n \<longleftrightarrow> unat a + n < 2 ^ 64 \<and> address_in_range G m (a + of_nat n)"

definition queue_placed :: "('m, 'ge) GuestMemory \<Rightarrow> 'm \<Rightarrow> Queue \<Rightarrow> bool" where
  "queue_placed G m q \<longleftrightarrow>
     q_ready q \<and> (\<exists>k. unat (q_size q) = 2 ^ k) \<and> q_size q \<le> q_max_size q
     \<and> area_ends G m (q_desc_table q) (16 * unat (q_size q)) \<and> 16 dvd unat (q_desc_table q)
     \<and> area_ends G m (q_avail_ring q) (6 + 2 * unat (q_size q)) \<and> 2 dvd unat (q_avail_ring q)
     \<and> area_ends G m (q_used_ring q) (6 + 8 * unat (q_size q)) \<and> 4 dvd unat (q_used_ring q)"

lemma area_ends_iff: "ends_out_of_range G m a sz \<longleftrightarrow> \<not> area_ends G m a (unat sz)"
  by (auto simp: ends_out_of_range_def area_ends_def checked_add_def)

lemma queue_is_valid_placed:
  "queue_is_valid G m q =
     (if queue_placed G m q then ebind (queue_len G m q) (\<lambda>n. Done (\<not> n > q_max_size q)) else Done False)"
proof (cases "q_size q \<le> q_max_size q")
  case False
  then show ?thesis by (auto simp: queue_is_valid_def queue_placed_def Let_def)
next
  case True
  then have a: "actual_size q = q_size q" by (simp add: actual_size_def min_def)
  have u: "unat (ucast (q_size q) :: u64) = unat (q_size q)" by (simp add: unat_ucast_up)
  have n: "unat (q_size q) < 65536" using unat_bound [of "q_size q"] by simp
  have sz: "unat (16 * ucast (q_size q) :: u64) = 16 * unat (q_size q)"
    "unat (6 + 2 * ucast (q_size q) :: u64) = 6 + 2 * unat (q_size q)"
    "unat (6 + 8 * ucast (q_size q) :: u64) = 6 + 8 * unat (q_size q)"
    using n by (simp_all add: unat_word_ariths u)
  show ?thesis
    using True power_of_two_iff [of "q_size q"]
    by (auto simp: queue_is_valid_def queue_placed_def Let_def a area_ends_iff sz word_aligned)
qed

section \<open>Properties\<close>

text \<open>
  (C4) A queue that passes \<open>is_valid\<close> can be used without a panic: when its areas begin in memory and
  the memory has no tiny holes, all three areas lie in memory, the size is a power of two, and
  popping is taking the first of the heads the driver made available: an empty ring gives nothing,
  a head that is no valid descriptor is left, a good head is consumed (and can be put back); only
  more heads than entries panic.
\<close>

theorem queue_pop_fifo:
  assumes "guest_memory G mb" and "queue_is_valid G m q = Done True"
    and "areas_start_in_range G m q" and "gapless G m" and "unat (q_max_size q) \<le> 8191"
  shows "queue_mapped G m q
    \<and> (if length (avail_heads mb m q) > entries q then queue_pop G m q = Panic
       else case avail_heads mb m q of
              [] \<Rightarrow> queue_pop G m q = Done (q, None)
            | h # t \<Rightarrow>
                (let c = checked_new G m (q_desc_table q) (actual_size q) h
                 in \<exists>q'. queue_pop G m q = Done (q', c)
                      \<and> (if c = None then q' = q
                         else avail_heads mb m q' = t \<and> undo_pop q' = q)))"
proof -
  note ok = queue_valid_areas [OF assms(2-5)]
  note pop = guest_memory.queue_pop_refines [OF assms(1) ok(1,2)]
  show ?thesis
  proof (cases "avail_heads mb m q")
    case Nil
    then show ?thesis using ok(1) by (simp add: pop)
  next
    case (Cons h t)
    note rest = guest_memory.avail_heads_Cons(2) [OF assms(1) Cons]
    show ?thesis
      using ok(1) rest by (auto simp: pop Cons Let_def undo_pop_def split: option.split)
  qed
qed

text \<open>A page of memory with a queue of two entries and one available head.\<close>

definition sample_mem :: byte_map where
  "sample_mem = (\<lambda>a. if a < 4096 then Some (if a = 258 then 1 else 0) else None)"

definition sample_queue :: Queue where
  "sample_queue = (queue_new 256)\<lparr>q_size := 2, q_ready := True, q_avail_ring := 256, q_used_ring := 512\<rparr>"

lemma sample_mem_mapped: "unat a + n \<le> 4096 \<Longrightarrow> mapped byte_memory sample_mem a n"
proof -
  assume n: "unat a + n \<le> 4096"
  have "a + of_nat i < 4096" if "i < n" for i
    using n that unat_offset [of a n i] by (simp add: word_less_nat_alt)
  then show ?thesis using n by (simp add: mapped_def sample_mem_def)
qed

lemma sample_gapless: "gapless byte_memory sample_mem"
proof -
  have "mapped byte_memory sample_mem a n"
    if n: "n \<le> 2 ^ 20" "unat a + n < 2 ^ 64" and e: "address_in_range byte_memory sample_mem (a + of_nat n)"
    for a n
  proof -
    have "unat (a + of_nat n) = unat a + n"
      using n by (intro trans [OF unat_add_small]) (simp_all add: unat_of_nat)
    moreover have "unat (a + of_nat n) < 4096"
      using e by (simp add: sample_mem_def word_less_nat_alt split: if_split_asm)
    ultimately show ?thesis by (intro sample_mem_mapped) simp
  qed
  then show ?thesis by (simp add: gapless_def)
qed

lemma sample_actual_size: "actual_size sample_queue = 2"
  by (simp add: actual_size_def sample_queue_def queue_new_def)

lemma sample_peek: "peek (\<lambda>m a. case m a of None \<Rightarrow> 0 | Some b \<Rightarrow> b) sample_mem 2 258 = (1 :: u16)"
  by (simp add: peek_def upt_rec sample_mem_def)

lemma sample_len: "queue_len byte_memory sample_mem sample_queue = Done 1"
proof -
  have "mapped byte_memory sample_mem 258 2" by (rule sample_mem_mapped) simp
  then have "read_u16 byte_memory sample_mem 258
      = Ok (peek (\<lambda>m a. case m a of None \<Rightarrow> 0 | Some b \<Rightarrow> b) sample_mem 2 258)"
    by (intro bm.read_obj_Ok) simp_all
  then have "read_u16 byte_memory sample_mem 258 = Ok 1" by (simp only: sample_peek)
  then show ?thesis by (simp add: queue_len_def avail_idx_def sample_queue_def queue_new_def)
qed

lemma sample_valid: "queue_is_valid byte_memory sample_mem sample_queue = Done True"
  using sample_len
  by (simp add: queue_is_valid_def sample_actual_size ends_out_of_range_def checked_add_def
      Let_def sample_mem_def)
    (simp add: sample_queue_def queue_new_def)

lemma sample_descriptor: "\<exists>c. checked_new byte_memory sample_mem 0 2 0 = Some c"
proof -
  have "bm_mapped sample_mem 0 16"
    unfolding bm_mapped_iff by (rule sample_mem_mapped) simp
  moreover have "map (\<lambda>i. the (sample_mem (0 + of_nat i))) [0..<16] = map (\<lambda>_. 0) [0..<16]"
  proof (rule map_cong [OF refl])
    fix i assume "i \<in> set [0..<16]"
    then have "unat (of_nat i :: u64) = i" "i < 16" by (simp_all add: unat_of_nat)
    then have "(of_nat i :: u64) < 4096" "(of_nat i :: u64) \<noteq> 258"
      by (auto simp: word_less_nat_alt word_unat_eq_iff)
    then show "the (sample_mem (0 + of_nat i)) = 0" by (simp add: sample_mem_def)
  qed
  moreover have "map (\<lambda>_. 0 :: u8) [0..<16] = replicate 16 0" by (simp add: map_replicate_const)
  ultimately have r: "gm_read byte_memory sample_mem 0 16 = Ok (replicate 16 0)" by simp
  have "dc_is_valid (c\<lparr>dc_flags := 0\<rparr>)" for c :: DescriptorChain
    by (simp add: dc_is_valid_def has_next_def)
  moreover have "d_flags (Descriptor_from_bytes (replicate 16 0)) = 0"
    by (simp add: Descriptor_from_bytes_def slice_def numeral_2_eq_2)
  ultimately show ?thesis
    using r by (simp add: checked_new_def sample_mem_def dc_is_valid_def has_next_def Let_def)
qed

theorem queue_pop_fifo_witness:
  "\<exists>q' c. queue_pop byte_memory sample_mem sample_queue = Done (q', Some c) \<and> dc_index c = 0"
proof -
  have starts: "areas_start_in_range byte_memory sample_mem sample_queue"
    "unat (q_max_size sample_queue) \<le> 8191"
    by (simp_all add: areas_start_in_range_def sample_mem_def sample_queue_def queue_new_def)
  have heads: "avail_heads (\<lambda>m a. case m a of None \<Rightarrow> 0 | Some b \<Rightarrow> b) sample_mem sample_queue = [0]"
    by (simp add: avail_heads_def sample_peek avail_addr_def sample_queue_def queue_new_def)
      (simp add: peek_def upt_rec sample_mem_def)
  obtain c where "checked_new byte_memory sample_mem 0 2 0 = Some c"
    using sample_descriptor by blast
  moreover from this have "dc_index c = 0" by (rule checked_new_Some)
  moreover have "q_desc_table sample_queue = 0" by (simp add: sample_queue_def queue_new_def)
  ultimately show ?thesis
    using queue_pop_fifo [OF bm.guest_memory_axioms sample_valid starts(1) sample_gapless starts(2)]
    by (simp add: heads sample_actual_size) blast
qed

text \<open>
  (C10) Walking a popped chain ends: whatever the descriptors in memory say, also when they form a
  cycle, the walk from a chain that \<open>checked_new\<close> gave visits at most as many descriptors as the
  queue has entries, and every index it visits is an entry of the queue.
\<close>

theorem descriptor_walk_bounded:
  assumes "checked_new G m desc_table queue_size index = Some c"
  shows "length (walk G m c) \<le> unat queue_size
    \<and> (\<forall>d \<in> set (walk G m c). dc_index d < queue_size)"
proof -
  note c = checked_new_Some [OF assms]
  have "walk G m c = c # tl (walk G m c)" by (simp add: walk.simps [of G m c])
  then have "set (walk G m c) = insert c (set (tl (walk G m c)))" by (metis list.simps(15))
  moreover have "0 < unat queue_size" using c(4) by (simp add: word_less_nat_alt)
  ultimately show ?thesis
    using walk_bounded [of G m c] c by auto
qed

theorem descriptor_walk_bounded_witness:
  "\<exists>c. checked_new byte_memory sample_mem 0 2 0 = Some c
     \<and> length (walk byte_memory sample_mem c) \<le> 2"
proof -
  obtain c where c: "checked_new byte_memory sample_mem 0 2 0 = Some c"
    using sample_descriptor by blast
  show ?thesis using descriptor_walk_bounded [OF c] c by auto
qed

text \<open>
  (C11) Adding a used buffer publishes it: when the driver has left room in the used ring, the call
  succeeds, and the entries the driver finds between the index it has seen and the announced index
  are those it had before followed by the new one, also when the 16-bit index wraps around.
\<close>

theorem add_used_appends:
  assumes "guest_memory G mb" and "queue_mapped G m q" and "queue_sized q"
    and "entries q dvd 2 ^ 16" and "desc_index < actual_size q"
    and "peek mb m 2 (q_used_ring q + 2) = q_next_used q"
    and "length (used_entries mb m q seen) < entries q"
  shows "\<exists>q' m'. add_used G m q desc_index len = Done (q', m', Ok ())
     \<and> queue_mapped G m' q' \<and> peek mb m' 2 (q_used_ring q' + 2) = q_next_used q'
     \<and> used_entries mb m' q' seen = used_entries mb m q seen @ [(ucast desc_index, len)]"
  using assms by (rule guest_memory.add_used_publishes)

lemma sample_ok: "queue_mapped byte_memory sample_mem sample_queue" "queue_sized sample_queue"
  "entries sample_queue dvd 2 ^ 16"
  using queue_valid_areas [OF sample_valid _ sample_gapless]
  by (simp_all add: areas_start_in_range_def sample_mem_def sample_queue_def queue_new_def)

lemma sample_used_idx:
  "peek (\<lambda>m a. case m a of None \<Rightarrow> 0 | Some b \<Rightarrow> b) sample_mem 2 514 = (0 :: u16)"
  by (simp add: peek_def upt_rec sample_mem_def)

theorem add_used_appends_witness:
  "\<exists>q' m'. add_used byte_memory sample_mem sample_queue 1 64 = Done (q', m', Ok ())
     \<and> used_entries (\<lambda>m a. case m a of None \<Rightarrow> 0 | Some b \<Rightarrow> b) m' q' 0 = [(1, 64)]"
proof -
  have none: "used_entries (\<lambda>m a. case m a of None \<Rightarrow> 0 | Some b \<Rightarrow> b) sample_mem sample_queue 0 = []"
    by (simp add: used_entries_def sample_used_idx sample_queue_def queue_new_def)
  show ?thesis
    using add_used_appends [OF bm.guest_memory_axioms sample_ok, of 1 0 64]
    by (auto simp: sample_actual_size none) (auto simp: sample_used_idx sample_queue_def queue_new_def)
qed

text \<open>
  (C12) The kick decision is the one of the virtio specification: with notification suppression the
  driver is interrupted exactly when the event index it asked for is among the indices of the
  buffers added since the last decision, modulo \<open>2 ^ 16\<close>; the counter of added buffers is reset.
\<close>

theorem prepare_kick_iff:
  assumes "guest_memory G mb" and "queue_mapped G m q" and "queue_sized q"
    and "q_uses_notif_suppression q"
  shows "prepare_kick G m q = Done (q\<lparr>q_num_added := 0\<rparr>,
     \<exists>k < unat (q_num_added q).
       peek mb m 2 (avail_addr q (entries q)) = q_next_used q - q_num_added q + of_nat k)"
  using assms(4) guest_memory.used_event_Done [OF assms(1-3)]
    vring_need_event_iff [of "peek mb m 2 (avail_addr q (entries q))" "q_next_used q" "q_next_used q - q_num_added q"]
  by (simp add: prepare_kick_def vring_need_event_def)

theorem prepare_kick_iff_witness:
  "prepare_kick byte_memory sample_mem (sample_queue\<lparr>q_uses_notif_suppression := True,
       q_next_used := 1, q_num_added := 1\<rparr>)
   = Done (sample_queue\<lparr>q_uses_notif_suppression := True, q_next_used := 1, q_num_added := 0\<rparr>, True)"
proof -
  let ?q = "sample_queue\<lparr>q_uses_notif_suppression := True, q_next_used := 1, q_num_added := 1\<rparr>"
  have "queue_mapped byte_memory sample_mem ?q" "queue_sized ?q"
    using sample_ok(1,2) by (simp_all add: queue_mapped_def queue_sized_def actual_size_def)
  moreover have "peek (\<lambda>m a. case m a of None \<Rightarrow> 0 | Some b \<Rightarrow> b) sample_mem 2 264 = (0 :: u16)"
    by (simp add: peek_def upt_rec sample_mem_def)
  ultimately show ?thesis
    using prepare_kick_iff [OF bm.guest_memory_axioms, of sample_mem ?q]
    by (simp add: avail_addr_def sample_queue_def queue_new_def actual_size_def)
qed

text \<open>
  (C13) No notification is lost: when the device re-enables notifications and is told that it may
  sleep, then, whatever the driver did between the write of the event index and the second look at
  the available index, every later addition to the available ring makes the driver notify. When it
  is told not to sleep there is a head to pop.
\<close>

theorem notification_not_lost:
  assumes "guest_memory G mb" and "queue_mapped G m q" and "queue_sized q"
    and "q_uses_notif_suppression q"
    and "length (avail_heads mb m q) \<le> entries q"
    and "\<And>m' b k. mapped G (env m') b k = mapped G m' b k"
    and "\<And>m'. (peek mb (env m') 2 (used_addr q (entries q)) :: u16) = peek mb m' 2 (used_addr q (entries q))"
  shows "\<exists>m' sleep. try_enable_notification G env m q = Done (m', sleep)
    \<and> (if sleep
       then avail_heads mb m' q = []
            \<and> (\<forall>n. 0 < n \<and> n < 65536 \<longrightarrow>
                 vring_need_event (peek mb m' 2 (used_addr q (entries q)))
                   (peek mb m' 2 (q_avail_ring q + 2) + of_nat n) (peek mb m' 2 (q_avail_ring q + 2)))
       else avail_heads mb m' q \<noteq> [])"
proof -
  note len = guest_memory.queue_len_Done [OF assms(1)] and heads = guest_memory.length_avail_heads [OF assms(1)]
  show ?thesis
  proof (cases "avail_heads mb m q = []")
    case False
    then have "peek mb m 2 (q_avail_ring q + 2) - q_next_avail q \<noteq> 0"
      using heads [of m q] by auto
    then have "try_enable_notification G env m q = Done (m, False)"
      using assms(4,5) heads [of m q]
      by (simp add: try_enable_notification_def len [OF assms(2)] word_less_nat_alt)
    then show ?thesis using False by auto
  next
    case True
    then have z: "peek mb m 2 (q_avail_ring q + 2) - q_next_avail q = 0"
      using heads [of m q] by (simp add: word_unat_eq_iff)
    obtain m1 where m1: "set_avail_event G m q (q_next_avail q) = Done m1"
      "peek mb m1 2 (used_addr q (entries q)) = q_next_avail q"
      "\<And>b k. mapped G m1 b k = mapped G m b k"
      using guest_memory.set_avail_event_Done [OF assms(1-3)] by blast
    let ?m = "env m1"
    have ok: "queue_mapped G ?m q" using assms(2,6) m1(3) by (simp add: queue_mapped_def)
    let ?i = "peek mb ?m 2 (q_avail_ring q + 2) :: u16"
    have run: "try_enable_notification G env m q = Done (?m, q_next_avail q = ?i)"
      using assms(4) m1(1) z
      by (simp add: try_enable_notification_def len [OF assms(2)] guest_memory.avail_idx_Done [OF assms(1) ok] Let_def)
    have ev: "peek mb ?m 2 (used_addr q (entries q)) = q_next_avail q" using assms(7) m1(2) by simp
    have need: "\<forall>n. 0 < n \<and> n < 65536 \<longrightarrow>
        vring_need_event (q_next_avail q) (q_next_avail q + of_nat n) (q_next_avail q)"
      unfolding vring_need_event_iff by (auto simp: unat_of_nat intro!: exI [of _ 0])
    have empty: "avail_heads mb ?m q = [] \<longleftrightarrow> q_next_avail q = ?i"
    proof -
      have "length (avail_heads mb ?m q) = 0 \<longleftrightarrow> ?i - q_next_avail q = 0"
        unfolding heads by (simp add: word_unat_eq_iff)
      then show ?thesis by (auto simp: right_minus_eq)
    qed
    show ?thesis
    proof (cases "q_next_avail q = ?i")
      case True
      then show ?thesis
        using run ev need empty by (intro exI [of _ ?m] exI [of _ True]) simp
    next
      case False
      then show ?thesis using run empty by auto
    qed
  qed
qed

theorem notification_not_lost_witness:
  "\<exists>m' sleep. try_enable_notification byte_memory (\<lambda>m. m) sample_mem
       (sample_queue\<lparr>q_uses_notif_suppression := True, q_next_avail := 1\<rparr>) = Done (m', sleep)"
proof -
  let ?q = "sample_queue\<lparr>q_uses_notif_suppression := True, q_next_avail := 1\<rparr>"
  have "queue_mapped byte_memory sample_mem ?q" "queue_sized ?q"
    using sample_ok(1,2) by (simp_all add: queue_mapped_def queue_sized_def actual_size_def)
  moreover have "avail_heads (\<lambda>m a. case m a of None \<Rightarrow> 0 | Some b \<Rightarrow> b) sample_mem ?q = []"
    by (simp add: avail_heads_def sample_peek sample_queue_def queue_new_def)
  ultimately show ?thesis
    using notification_not_lost [OF bm.guest_memory_axioms, of sample_mem ?q "\<lambda>m. m"] by auto
qed

text \<open>
  (C34) What the validity check of a queue answers. A queue whose setup breaks one of the rules is
  refused: it must be ready, its size a power of two up to the maximum, and its three areas aligned
  and with their ends in memory. Any other queue is accepted exactly when no more heads are available
  than the maximal size, provided that the available index can be read; when it cannot, because the
  available ring begins outside of the memory it ends in, the check panics instead of refusing.
\<close>

theorem queue_is_valid_panics:
  assumes "guest_memory G mb"
  shows "queue_is_valid G m q =
    (if \<not> queue_placed G m q then Done False
     else if mapped G m (q_avail_ring q + 2) 2
          then Done (peek mb m 2 (q_avail_ring q + 2) - q_next_avail q \<le> q_max_size q)
          else Panic)"
  using guest_memory.read_obj_Ok [OF assms, of 2 m "q_avail_ring q + 2", where ?'a = 16]
    guest_memory.read_obj_Err [OF assms, of 2 m "q_avail_ring q + 2", where ?'a = 16]
  by (auto simp: queue_is_valid_placed queue_len_def avail_idx_def not_less)

text \<open>A memory that starts at \<open>2 ^ 31\<close>, and an available ring that starts below it and ends inside.\<close>

theorem queue_is_valid_panics_witness:
  "queue_is_valid byte_memory (\<lambda>a. if 0x80000000 \<le> a then Some 0 else None)
     \<lparr>q_max_size = 256, q_size = 256, q_ready = True, q_desc_table = 0x80001000,
      q_avail_ring = 0x7ffffff0, q_used_ring = 0x80003000, q_next_avail = 0, q_next_used = 0,
      q_uses_notif_suppression = False, q_num_added = 0\<rparr> = Panic"
proof -
  let ?m = "\<lambda>a. if 0x80000000 \<le> a then Some 0 else None" and ?q = "\<lparr>q_max_size = 256, q_size = 256, q_ready = True,
    q_desc_table = 0x80001000, q_avail_ring = 0x7ffffff0, q_used_ring = 0x80003000, q_next_avail = 0, q_next_used = 0,
    q_uses_notif_suppression = False, q_num_added = 0\<rparr>"
  have "\<exists>k. (256 :: nat) = 2 ^ k" by (rule exI [of _ 8]) simp
  then have "queue_placed byte_memory ?m ?q" by (simp add: queue_placed_def area_ends_def)
  moreover have "\<not> mapped byte_memory ?m (q_avail_ring ?q + 2) 2" by (auto simp: mapped_def intro!: exI [of _ 0])
  ultimately show ?thesis
    using queue_is_valid_panics [OF bm.guest_memory_axioms, of ?m ?q] by simp
qed

end
