(* ===== verification/VirtioDevice.thy ===== *)
theory VirtioDevice
  imports VirtQueue
begin

text \<open>
  The trait \<open>VirtioDevice\<close> (\<open>devices/src/virtio/device.rs\<close>): the operations a device gives to a
  transport as a record of functions, the provided methods, the interrupt trigger, and the
  contract \<open>virtio_device\<close> that the transport relies on and every device discharges.
\<close>

unbundle bit_operations_syntax

section \<open>Device state and interrupts\<close>

text \<open>
  There is one guest memory in a microVM: the handle in \<open>Activated\<close> is left out, its contents are
  an argument of the operations that access it.
\<close>

datatype DeviceState = Inactive | Activated

definition state_is_activated :: "DeviceState \<Rightarrow> bool" where
  "state_is_activated s = (case s of Inactive \<Rightarrow> False | Activated \<Rightarrow> True)"

datatype 'io ActivateError = EpollCtl 'io | BadActivate

text \<open>
  \<open>EventFd::write\<close> belongs to the kernel: \<open>evw\<close> below is a parameter that takes the state of an
  event and the value added to it.
\<close>

type_synonym ('e, 'io) evt_write = "'e \<Rightarrow> u64 \<Rightarrow> 'e \<times> ('io + unit)"

definition VIRTIO_MMIO_INT_VRING :: u32 where "VIRTIO_MMIO_INT_VRING = 0x01"
definition VIRTIO_MMIO_INT_CONFIG :: u32 where "VIRTIO_MMIO_INT_CONFIG = 0x02"

datatype IrqType = Config | Vring

record 'e IrqTrigger =
  irq_status :: u64
  irq_evt :: 'e

definition irq_trigger_new :: "'e \<Rightarrow> 'e IrqTrigger" where
  "irq_trigger_new evt = \<lparr>irq_status = 0, irq_evt = evt\<rparr>"

definition trigger_irq ::
  "('e, 'io) evt_write \<Rightarrow> 'e IrqTrigger \<Rightarrow> IrqType \<Rightarrow> 'e IrqTrigger \<times> ('io + unit)" where
  "trigger_irq evw t irq_type =
     (let irq = (case irq_type of Config \<Rightarrow> VIRTIO_MMIO_INT_CONFIG | Vring \<Rightarrow> VIRTIO_MMIO_INT_VRING);
          t = t\<lparr>irq_status := irq_status t OR ucast irq\<rparr>
      in case evw (irq_evt t) 1 of
           (e, Inl err) \<Rightarrow> (t\<lparr>irq_evt := e\<rparr>, Err err)
         | (e, Inr _) \<Rightarrow> (t\<lparr>irq_evt := e\<rparr>, Ok ()))"

section \<open>The trait\<close>

text \<open>
  \<open>queues_mut\<close> writes back the slice of queues; \<open>set_interrupt_status\<close> stores to the shared atomic
  that \<open>interrupt_status\<close> hands out. \<open>read_config\<close> returns the buffer it was given as it leaves it.
\<close>

record ('d, 'io) VirtioDevice =
  avail_features :: "'d \<Rightarrow> u64"
  acked_features :: "'d \<Rightarrow> u64"
  set_acked_features :: "'d \<Rightarrow> u64 \<Rightarrow> 'd"
  device_type :: "'d \<Rightarrow> u32"
  queues :: "'d \<Rightarrow> Queue list"
  queues_mut :: "'d \<Rightarrow> Queue list \<Rightarrow> 'd"
  interrupt_status :: "'d \<Rightarrow> u64"
  set_interrupt_status :: "'d \<Rightarrow> u64 \<Rightarrow> 'd"
  read_config :: "'d \<Rightarrow> u64 \<Rightarrow> u8 list \<Rightarrow> u8 list exec"
  write_config :: "'d \<Rightarrow> u64 \<Rightarrow> u8 list \<Rightarrow> 'd exec"
  activate :: "'d \<Rightarrow> 'd \<times> ('io ActivateError + unit)"
  is_activated :: "'d \<Rightarrow> bool"
  device_reset :: "'d \<Rightarrow> 'd \<times> unit option"

definition has_feature :: "('d, 'io) VirtioDevice \<Rightarrow> 'd \<Rightarrow> u64 \<Rightarrow> bool" where
  "has_feature D d feature \<longleftrightarrow> acked_features D d AND push_bit (unat feature mod 64) 1 \<noteq> 0"

definition avail_features_by_page :: "('d, 'io) VirtioDevice \<Rightarrow> 'd \<Rightarrow> u32 \<Rightarrow> u32" where
  "avail_features_by_page D d page =
     (if page = 0 then ucast (avail_features D d)
      else if page = 1 then ucast (drop_bit 32 (avail_features D d))
      else 0)"

definition ack_features_by_page :: "('d, 'io) VirtioDevice \<Rightarrow> 'd \<Rightarrow> u32 \<Rightarrow> u32 \<Rightarrow> 'd" where
  "ack_features_by_page D d page value =
     (let v = (if page = 0 then ucast value else if page = 1 then push_bit 32 (ucast value) else 0);
          unrequested_features = v AND NOT (avail_features D d);
          v = (if unrequested_features \<noteq> 0 then v AND NOT unrequested_features else v)
      in set_acked_features D d (acked_features D d OR v))"

text \<open>\<open>VirtioDevice::reset\<close> as the trait provides it; no device overrides it.\<close>

definition default_reset :: "'d \<Rightarrow> 'd \<times> unit option" where
  "default_reset d = (d, None)"

section \<open>Configuration space\<close>

text \<open>
  The block, net and balloon devices access their configuration space, a vector of bytes, in the same
  way. \<open>write_all_slice\<close> is \<open>data.write_all(src).unwrap()\<close> on a byte slice, which fails when \<open>src\<close>
  does not fit; the bound of a write is computed in wrapping arithmetic.
\<close>

definition slice_range :: "'a list \<Rightarrow> nat \<Rightarrow> nat \<Rightarrow> 'a list exec" where
  "slice_range xs i j = (if i \<le> j \<and> j \<le> length xs then Done (take (j - i) (drop i xs)) else Panic)"

definition write_all_slice :: "u8 list \<Rightarrow> u8 list \<Rightarrow> u8 list exec" where
  "write_all_slice data src = (if length src \<le> length data then Done (src @ drop (length src) data) else Panic)"

definition config_read :: "u8 list \<Rightarrow> u64 \<Rightarrow> u8 list \<Rightarrow> u8 list exec" where
  "config_read config_space offset data =
     (let config_len = of_nat (length config_space) :: u64
      in if offset \<ge> config_len then Done data
         else case checked_add offset (of_nat (length data)) of
                None \<Rightarrow> Done data
              | Some end_ \<Rightarrow>
                  ebind (slice_range config_space (unat offset) (unat (min end_ config_len)))
                    (write_all_slice data))"

definition config_write :: "u8 list \<Rightarrow> u64 \<Rightarrow> u8 list \<Rightarrow> u8 list exec" where
  "config_write config_space offset data =
     (let data_len = of_nat (length data) :: u64;
          config_len = of_nat (length config_space) :: u64
      in if offset + data_len > config_len then Done config_space
         else copy_from_slice config_space (unat offset) (unat (offset + data_len)) data)"

text \<open>
  Without wrap-around neither access panics: a read fills as much of the buffer as the space has
  bytes for, a write is performed when it fits and ignored otherwise.
\<close>

lemma config_read_Done:
  assumes "unat off + length data < 2 ^ 64" and "length cfg < 2 ^ 64"
  shows "config_read cfg off data =
    Done (let s = take (length data) (drop (unat off) cfg) in s @ drop (length s) data)"
proof (cases "unat off < length cfg")
  case True
  let ?n = "of_nat (length data) :: u64" and ?c = "of_nat (length cfg) :: u64"
  have u: "unat ?n = length data" "unat ?c = length cfg" using assms by (simp_all add: unat_of_nat)
  have e: "unat (off + ?n) = unat off + length data" using assms(1) u(1) by (simp add: unat_add_small)
  have "checked_add off ?n = Some (off + ?n)" using assms(1) u(1) by (simp add: checked_add_def)
  moreover have "unat (min (off + ?n) ?c) = min (unat off + length data) (length cfg)"
    using e u by (simp add: min_def word_le_nat_alt)
  moreover have "\<not> ?c \<le> off" using True u by (simp add: word_le_nat_alt)
  ultimately show ?thesis
    using True by (auto simp: config_read_def slice_range_def write_all_slice_def Let_def min_def)
next
  case False
  then have "(of_nat (length cfg) :: u64) \<le> off"
    using assms(2) by (simp add: word_le_nat_alt unat_of_nat)
  then show ?thesis using False by (simp add: config_read_def)
qed

lemma config_write_Done:
  assumes "unat off + length data < 2 ^ 64" and "length cfg < 2 ^ 64"
  shows "config_write cfg off data =
    Done (if unat off + length data \<le> length cfg then splice cfg (unat off) data else cfg)"
proof -
  have "unat (off + of_nat (length data)) = unat off + length data"
    using assms(1) by (subst unat_add_small) (simp_all add: unat_of_nat)
  then show ?thesis
    using assms by (simp add: config_write_def copy_from_slice_def Let_def word_less_nat_alt unat_of_nat)
qed

section \<open>The contract\<close>

text \<open>What the driver sets up of a queue: a device only changes the other fields.\<close>

definition same_setup :: "Queue \<Rightarrow> Queue \<Rightarrow> bool" where
  "same_setup q q' \<longleftrightarrow> q_max_size q' = q_max_size q \<and> q_size q' = q_size q \<and> q_ready q' = q_ready q
     \<and> q_desc_table q' = q_desc_table q \<and> q_avail_ring q' = q_avail_ring q \<and> q_used_ring q' = q_used_ring q"

lemma same_setup_refl [simp]: "same_setup q q"
  by (simp add: same_setup_def)

lemma same_setup_trans [trans]: "same_setup p q \<Longrightarrow> same_setup q r \<Longrightarrow> same_setup p r"
  by (simp add: same_setup_def)

lemma same_setups_refl [simp]: "list_all2 same_setup qs qs"
  by (simp add: list_all2_refl)

lemma same_setups_trans:
  "list_all2 same_setup ps qs \<Longrightarrow> list_all2 same_setup qs rs \<Longrightarrow> list_all2 same_setup ps rs"
  by (rule list_all2_trans [OF same_setup_trans])

lemma same_setup_notif [simp]: "same_setup q (enable_notif_suppression q)"
  by (simp add: same_setup_def enable_notif_suppression_def)

text \<open>The part of a device the transport sees: features, acknowledged features, queues, activation.\<close>

definition device_view :: "('d, 'io) VirtioDevice \<Rightarrow> 'd \<Rightarrow> u64 \<times> u64 \<times> Queue list \<times> bool" where
  "device_view D d = (avail_features D d, acked_features D d, queues D d, is_activated D d)"

locale virtio_device =
  fixes D :: "('d, 'io) VirtioDevice"
  assumes set_acked: "device_view D (set_acked_features D d f) =
      (avail_features D d, f, queues D d, is_activated D d)"
    and queues_mut: "length qs = length (queues D d) \<Longrightarrow>
      device_view D (queues_mut D d qs) = (avail_features D d, acked_features D d, qs, is_activated D d)"
    and irq_view: "device_view D (set_interrupt_status D d s) = device_view D d"
    and irq_get: "interrupt_status D (set_interrupt_status D d s) = s"
    and config_view: "write_config D d off bs = Done d' \<Longrightarrow> device_view D d' = device_view D d"
    and activate_view: "activate D d = (d', r) \<Longrightarrow>
      avail_features D d' = avail_features D d \<and> acked_features D d' = acked_features D d
      \<and> list_all2 same_setup (queues D d) (queues D d')"
    and activate_Ok: "activate D d = (d', Ok ()) \<Longrightarrow> is_activated D d'"
    and activate_Err: "activate D d = (d', Err e) \<Longrightarrow> is_activated D d' \<Longrightarrow> is_activated D d"
    and no_reset: "device_reset D d = (d, None)"
begin

lemma ack_subset:
  assumes "acked_features D d AND NOT (avail_features D d) = 0"
  shows "acked_features D (ack_features_by_page D d page v) AND NOT (avail_features D d) = 0"
proof -
  have a: "(a OR v AND (NOT v OR b)) AND NOT b = a AND NOT (b :: u64)" for a v b
    by (rule bit_eqI) (auto simp: bit_simps)
  have b: "v AND NOT b = 0 \<Longrightarrow> (a OR v) AND NOT b = a AND NOT (b :: u64)" for a v b
    by (simp add: bit.conj_disj_distrib2)
  show ?thesis
    using set_acked assms by (simp add: ack_features_by_page_def Let_def device_view_def a b)
qed

lemma ack_view:
  "avail_features D (ack_features_by_page D d page v) = avail_features D d"
  "queues D (ack_features_by_page D d page v) = queues D d"
  "is_activated D (ack_features_by_page D d page v) = is_activated D d"
  using set_acked by (simp_all add: ack_features_by_page_def Let_def device_view_def)

end

end
