(* ===== verification/MmioTransport.thy ===== *)
theory MmioTransport
  imports VirtioDevice
begin

text \<open>
  The virtio transport (\<open>devices/src/virtio/mmio.rs\<close>): the register file a driver sets a device up
  with, the device status machine, and what holds of the device however the driver, the device and
  the guest's writes to memory interleave.
\<close>

section \<open>The transport\<close>

definition INIT :: u32 where "INIT = 0"
definition ACKNOWLEDGE :: u32 where "ACKNOWLEDGE = 1"
definition DRIVER :: u32 where "DRIVER = 2"
definition FAILED :: u32 where "FAILED = 128"
definition FEATURES_OK :: u32 where "FEATURES_OK = 8"
definition DRIVER_OK :: u32 where "DRIVER_OK = 4"

lemma FAILED_nonzero: "FAILED \<noteq> 0"
  by (simp add: FAILED_def)

lemmas status_defs = INIT_def ACKNOWLEDGE_def DRIVER_def FAILED_def FEATURES_OK_def DRIVER_OK_def

definition VENDOR_ID :: u32 where "VENDOR_ID = 0"
definition MMIO_MAGIC_VALUE :: u32 where "MMIO_MAGIC_VALUE = 0x74726976"
definition MMIO_VERSION :: u32 where "MMIO_VERSION = 2"

record 'd MmioTransport =
  device :: 'd
  features_select :: u32
  acked_features_select :: u32
  queue_select :: u32
  device_status :: u32
  config_generation :: u32

definition mmio_new :: "'d \<Rightarrow> 'd MmioTransport" where
  "mmio_new d =
     \<lparr>device = d, features_select = 0, acked_features_select = 0, queue_select = 0,
      device_status = INIT, config_generation = 0\<rparr>"

definition check_device_status :: "'d MmioTransport \<Rightarrow> u32 \<Rightarrow> u32 \<Rightarrow> bool" where
  "check_device_status t st clr \<longleftrightarrow> device_status t AND (st OR clr) = st"

text \<open>\<open>iter().all\<close> stops at the first queue that is not valid.\<close>

fun all_valid :: "('m, 'ge) GuestMemory \<Rightarrow> 'm \<Rightarrow> Queue list \<Rightarrow> bool exec" where
  "all_valid G m [] = Done True"
| "all_valid G m (q # qs) = ebind (queue_is_valid G m q) (\<lambda>b. if b then all_valid G m qs else Done False)"

definition are_queues_valid ::
  "('m, 'ge) GuestMemory \<Rightarrow> 'm \<Rightarrow> ('d, 'io) VirtioDevice \<Rightarrow> 'd MmioTransport \<Rightarrow> bool exec" where
  "are_queues_valid G m D t = all_valid G m (queues D (device t))"

definition with_queue ::
  "('d, 'io) VirtioDevice \<Rightarrow> 'd MmioTransport \<Rightarrow> 'u \<Rightarrow> (Queue \<Rightarrow> 'u) \<Rightarrow> 'u" where
  "with_queue D t d f =
     (let qs = queues D (device t); i = unat (queue_select t)
      in if i < length qs then f (qs ! i) else d)"

definition with_queue_mut ::
  "('d, 'io) VirtioDevice \<Rightarrow> 'd MmioTransport \<Rightarrow> (Queue \<Rightarrow> Queue) \<Rightarrow> 'd MmioTransport \<times> bool" where
  "with_queue_mut D t f =
     (let qs = queues D (device t); i = unat (queue_select t)
      in if i < length qs
         then (t\<lparr>device := queues_mut D (device t) (qs[i := f (qs ! i)])\<rparr>, True)
         else (t, False))"

definition update_queue_field ::
  "('d, 'io) VirtioDevice \<Rightarrow> 'd MmioTransport \<Rightarrow> (Queue \<Rightarrow> Queue) \<Rightarrow> 'd MmioTransport" where
  "update_queue_field D t f =
     (if check_device_status t FEATURES_OK (DRIVER_OK OR FAILED)
      then fst (with_queue_mut D t f) else t)"

definition mmio_reset :: "('d, 'io) VirtioDevice \<Rightarrow> 'd MmioTransport \<Rightarrow> 'd MmioTransport" where
  "mmio_reset D t =
     (let t = t\<lparr>features_select := 0, acked_features_select := 0, queue_select := 0\<rparr>;
          t = t\<lparr>device := set_interrupt_status D (device t) 0, device_status := INIT\<rparr>
      in t\<lparr>device := queues_mut D (device t)
                        (map (\<lambda>q. queue_new (q_max_size q)) (queues D (device t)))\<rparr>)"

definition set_device_status ::
  "('m, 'ge) GuestMemory \<Rightarrow> 'm \<Rightarrow> ('d, 'io) VirtioDevice \<Rightarrow> 'd MmioTransport \<Rightarrow> u32 \<Rightarrow>
   'd MmioTransport exec" where
  "set_device_status G m D t status =
     (let changed = NOT (device_status t) AND status
      in if changed = ACKNOWLEDGE \<and> device_status t = INIT then Done (t\<lparr>device_status := status\<rparr>)
         else if changed = DRIVER \<and> device_status t = ACKNOWLEDGE then Done (t\<lparr>device_status := status\<rparr>)
         else if changed = FEATURES_OK \<and> device_status t = ACKNOWLEDGE OR DRIVER
         then Done (t\<lparr>device_status := status\<rparr>)
         else if changed = DRIVER_OK \<and> device_status t = ACKNOWLEDGE OR DRIVER OR FEATURES_OK
         then let t = t\<lparr>device_status := status\<rparr>
              in if is_activated D (device t) then Done t
                 else ebind (are_queues_valid G m D t) (\<lambda>valid.
                   if \<not> valid then Done t
                   else case activate D (device t) of
                          (d, Inl _) \<Rightarrow> Panic
                        | (d, Inr _) \<Rightarrow> Done (t\<lparr>device := d\<rparr>))
         else if status AND FAILED \<noteq> 0 then Done (t\<lparr>device_status := device_status t OR FAILED\<rparr>)
         else if status = 0
         then let t = (if is_activated D (device t)
                       then case device_reset D (device t) of
                              (d, Some _) \<Rightarrow> t\<lparr>device := d\<rparr>
                            | (d, None) \<Rightarrow> t\<lparr>device := d, device_status := device_status t OR FAILED\<rparr>
                       else t)
              in if device_status t AND FAILED = 0 then Done (mmio_reset D t) else Done t
         else Done t)"

definition mmio_register :: "('d, 'io) VirtioDevice \<Rightarrow> 'd MmioTransport \<Rightarrow> u64 \<Rightarrow> u32 option" where
  "mmio_register D t offset =
     (if offset = 0x0 then Some MMIO_MAGIC_VALUE
      else if offset = 0x04 then Some MMIO_VERSION
      else if offset = 0x08 then Some (device_type D (device t))
      else if offset = 0x0c then Some VENDOR_ID
      else if offset = 0x10
      then let features = avail_features_by_page D (device t) (features_select t)
           in Some (if features_select t = 1 then features OR 0x1 else features)
      else if offset = 0x34 then Some (with_queue D t 0 (\<lambda>q. ucast (q_max_size q)))
      else if offset = 0x44 then Some (with_queue D t 0 (\<lambda>q. if q_ready q then 1 else 0))
      else if offset = 0x60 then Some (ucast (interrupt_status D (device t)))
      else if offset = 0x70 then Some (device_status t)
      else if offset = 0xfc then Some (config_generation t)
      else None)"

definition mmio_read ::
  "('d, 'io) VirtioDevice \<Rightarrow> 'd MmioTransport \<Rightarrow> u64 \<Rightarrow> u8 list \<Rightarrow> u8 list exec" where
  "mmio_read D t offset data =
     (if offset \<le> 0xff \<and> length data = 4
      then case mmio_register D t offset of None \<Rightarrow> Done data | Some v \<Rightarrow> Done (le_bytes 4 v)
      else if 0x100 \<le> offset \<and> offset \<le> 0xfff then read_config D (device t) (offset - 0x100) data
      else Done data)"

definition hi :: "u64 \<Rightarrow> u32 \<Rightarrow> u64" where
  "hi v x = (v AND 0xffffffff) OR push_bit 32 (ucast x)"

definition lo :: "u64 \<Rightarrow> u32 \<Rightarrow> u64" where
  "lo v x = (v AND NOT 0xffffffff) OR ucast x"

definition mmio_write_register ::
  "('m, 'ge) GuestMemory \<Rightarrow> 'm \<Rightarrow> ('d, 'io) VirtioDevice \<Rightarrow> 'd MmioTransport \<Rightarrow> u64 \<Rightarrow> u32 \<Rightarrow>
   'd MmioTransport exec" where
  "mmio_write_register G m D t offset v =
     (if offset = 0x14 then Done (t\<lparr>features_select := v\<rparr>)
      else if offset = 0x20
      then if check_device_status t DRIVER (FEATURES_OK OR FAILED)
           then Done (t\<lparr>device := ack_features_by_page D (device t) (acked_features_select t) v\<rparr>)
           else Done t
      else if offset = 0x24 then Done (t\<lparr>acked_features_select := v\<rparr>)
      else if offset = 0x30 then Done (t\<lparr>queue_select := v\<rparr>)
      else if offset = 0x38 then Done (update_queue_field D t (\<lambda>q. q\<lparr>q_size := ucast v\<rparr>))
      else if offset = 0x44 then Done (update_queue_field D t (\<lambda>q. q\<lparr>q_ready := (v = 1)\<rparr>))
      else if offset = 0x64
      then if check_device_status t DRIVER_OK 0
           then Done (t\<lparr>device := set_interrupt_status D (device t)
                                    (interrupt_status D (device t) AND NOT (ucast v))\<rparr>)
           else Done t
      else if offset = 0x70 then set_device_status G m D t v
      else if offset = 0x80 then Done (update_queue_field D t (\<lambda>q. q\<lparr>q_desc_table := lo (q_desc_table q) v\<rparr>))
      else if offset = 0x84 then Done (update_queue_field D t (\<lambda>q. q\<lparr>q_desc_table := hi (q_desc_table q) v\<rparr>))
      else if offset = 0x90 then Done (update_queue_field D t (\<lambda>q. q\<lparr>q_avail_ring := lo (q_avail_ring q) v\<rparr>))
      else if offset = 0x94 then Done (update_queue_field D t (\<lambda>q. q\<lparr>q_avail_ring := hi (q_avail_ring q) v\<rparr>))
      else if offset = 0xa0 then Done (update_queue_field D t (\<lambda>q. q\<lparr>q_used_ring := lo (q_used_ring q) v\<rparr>))
      else if offset = 0xa4 then Done (update_queue_field D t (\<lambda>q. q\<lparr>q_used_ring := hi (q_used_ring q) v\<rparr>))
      else Done t)"

definition mmio_write ::
  "('m, 'ge) GuestMemory \<Rightarrow> 'm \<Rightarrow> ('d, 'io) VirtioDevice \<Rightarrow> 'd MmioTransport \<Rightarrow> u64 \<Rightarrow> u8 list \<Rightarrow>
   'd MmioTransport exec" where
  "mmio_write G m D t offset data =
     (if offset \<le> 0xff \<and> length data = 4
      then mmio_write_register G m D t offset (le_word data)
      else if 0x100 \<le> offset \<and> offset \<le> 0xfff
      then if check_device_status t DRIVER FAILED
           then ebind (write_config D (device t) (offset - 0x100) data) (\<lambda>d. Done (t\<lparr>device := d\<rparr>))
           else Done t
      else Done t)"

section \<open>Steps\<close>

text \<open>The part of the validity check that does not read memory.\<close>

definition setup_valid :: "('m, 'ge) GuestMemory \<Rightarrow> 'm \<Rightarrow> Queue \<Rightarrow> bool" where
  "setup_valid G m q \<longleftrightarrow> q_ready q \<and> q_size q \<le> q_max_size q \<and> q_size q \<noteq> 0 \<and> q_size q AND (q_size q - 1) = 0
     \<and> \<not> ends_out_of_range G m (q_desc_table q) (16 * ucast (actual_size q))
     \<and> \<not> ends_out_of_range G m (q_avail_ring q) (6 + 2 * ucast (actual_size q))
     \<and> \<not> ends_out_of_range G m (q_used_ring q) (6 + 8 * ucast (actual_size q))
     \<and> q_desc_table q AND 0xf = 0 \<and> q_avail_ring q AND 0x1 = 0 \<and> q_used_ring q AND 0x3 = 0"

text \<open>
  A driver writes registers, anyone writes guest memory, and the device works: it neither changes
  its features nor what the driver has set up of its queues.
\<close>

inductive mmio_step ::
  "('m, 'ge) GuestMemory \<Rightarrow> ('d, 'io) VirtioDevice \<Rightarrow> 'm \<times> 'd MmioTransport \<Rightarrow> 'm \<times> 'd MmioTransport \<Rightarrow> bool"
  for G D where
  reg_write: "mmio_write G m D t offset data = Done t' \<Longrightarrow> mmio_step G D (m, t) (m, t')"
| mem_write: "\<forall>a. address_in_range G m' a = address_in_range G m a \<Longrightarrow> mmio_step G D (m, t) (m', t)"
| dev_work: "avail_features D d' = avail_features D (device t) \<Longrightarrow>
    acked_features D d' = acked_features D (device t) \<Longrightarrow>
    is_activated D d' = is_activated D (device t) \<Longrightarrow>
    list_all2 same_setup (queues D (device t)) (queues D d') \<Longrightarrow>
    mmio_step G D (m, t) (m, t\<lparr>device := d'\<rparr>)"

lemma setup_valid_cong:
  assumes "same_setup q q'" and "\<forall>a. address_in_range G m' a = address_in_range G m a"
  shows "setup_valid G m' q' = setup_valid G m q"
  using assms
  by (auto simp: setup_valid_def same_setup_def actual_size_def ends_out_of_range_def split: option.split)

lemma queue_is_valid_setup: "queue_is_valid G m q = Done True \<Longrightarrow> setup_valid G m q"
  unfolding setup_valid_def by (simp add: queue_is_valid_def Let_def split: if_split_asm)

lemma all_valid_setup: "all_valid G m qs = Done True \<Longrightarrow> \<forall>q \<in> set qs. setup_valid G m q"
  by (induction qs) (auto simp: exec_simps queue_is_valid_setup split: if_split_asm)

lemma setups_valid_cong:
  assumes "list_all2 same_setup qs qs'" and "\<forall>a. address_in_range G m' a = address_in_range G m a"
    and "\<forall>q \<in> set qs. setup_valid G m q"
  shows "\<forall>q \<in> set qs'. setup_valid G m' q"
  using assms(1,3) setup_valid_cong [OF _ assms(2)]
  by (induction qs qs' rule: list_all2_induct) auto

text \<open>Queues can no longer be set up once the driver is done or has failed.\<close>

definition sealed :: "'d MmioTransport \<Rightarrow> bool" where
  "sealed t \<longleftrightarrow> device_status t AND (DRIVER_OK OR FAILED) \<noteq> 0"

lemma sealed_bits: "sealed t \<longleftrightarrow> bit (device_status t) 2 \<or> bit (device_status t) 7"
  using and_exp_eq_0_iff_not_bit [of "device_status t" 2] and_exp_eq_0_iff_not_bit [of "device_status t" 7]
  by (simp only: sealed_def status_defs bit.conj_disj_distrib or_eq_0_iff) simp

definition acked_offered :: "('d, 'io) VirtioDevice \<Rightarrow> 'd \<Rightarrow> bool" where
  "acked_offered D d \<longleftrightarrow> acked_features D d AND NOT (avail_features D d) = 0"

definition mmio_inv :: "('m, 'ge) GuestMemory \<Rightarrow> ('d, 'io) VirtioDevice \<Rightarrow> 'm \<times> 'd MmioTransport \<Rightarrow> bool" where
  "mmio_inv G D = (\<lambda>(m, t). acked_offered D (device t)
     \<and> (is_activated D (device t) \<longrightarrow> sealed t \<and> (\<forall>q \<in> set (queues D (device t)). setup_valid G m q)))"

text \<open>What a register write may do to the device.\<close>

definition write_effect :: "('m, 'ge) GuestMemory \<Rightarrow> 'm \<Rightarrow> ('d, 'io) VirtioDevice \<Rightarrow>
    'd MmioTransport \<Rightarrow> 'd MmioTransport \<Rightarrow> bool" where
  "write_effect G m D t t' \<longleftrightarrow>
     avail_features D (device t') = avail_features D (device t)
     \<and> (acked_offered D (device t) \<longrightarrow> acked_offered D (device t'))
     \<and> (is_activated D (device t) \<and> sealed t \<longrightarrow>
          is_activated D (device t') \<and> sealed t' \<and> queues D (device t') = queues D (device t))
     \<and> (is_activated D (device t') \<and> \<not> is_activated D (device t) \<longrightarrow>
          sealed t' \<and> (\<forall>q \<in> set (queues D (device t')). setup_valid G m q))"

lemma sealed_excludes:
  assumes "sealed t"
  shows "\<not> check_device_status t FEATURES_OK (DRIVER_OK OR FAILED)"
    "device_status t \<noteq> INIT" "device_status t \<noteq> ACKNOWLEDGE" "device_status t \<noteq> ACKNOWLEDGE OR DRIVER"
    "device_status t \<noteq> ACKNOWLEDGE OR DRIVER OR FEATURES_OK"
proof -
  have "s AND 132 = 0" if "s AND 140 = 8" for s :: u32
  proof -
    have "s AND 132 = (s AND 140) AND 132" by (simp add: and.assoc)
    then show ?thesis by (simp add: that)
  qed
  then show "\<not> check_device_status t FEATURES_OK (DRIVER_OK OR FAILED)"
    using assms by (auto simp: sealed_def check_device_status_def status_defs)
qed (use assms in \<open>auto simp: sealed_def status_defs\<close>)

section \<open>Every write has an allowed effect\<close>

context virtio_device
begin

lemma update_queue_field_effect: "write_effect G m D t (update_queue_field D t f)"
proof (cases "sealed t")
  case True
  then show ?thesis by (simp add: update_queue_field_def sealed_excludes write_effect_def)
next
  case False
  have "avail_features D (device (update_queue_field D t f)) = avail_features D (device t)
    \<and> acked_features D (device (update_queue_field D t f)) = acked_features D (device t)
    \<and> is_activated D (device (update_queue_field D t f)) = is_activated D (device t)"
    using queues_mut
    by (simp add: update_queue_field_def with_queue_mut_def Let_def device_view_def)
  then show ?thesis using False by (simp add: write_effect_def acked_offered_def)
qed

lemma reset_effect: "\<not> is_activated D (device t) \<Longrightarrow> write_effect G m D t (mmio_reset D t)"
  using queues_mut irq_view
  by (simp add: write_effect_def mmio_reset_def Let_def device_view_def acked_offered_def)

lemma status_effect:
  "device t' = device t \<Longrightarrow> (sealed t \<Longrightarrow> sealed t') \<Longrightarrow> write_effect G m D t t'"
  by (simp add: write_effect_def)

lemma activate_effect:
  assumes "activate D (device t) = (d, Ok ())" and "all_valid G m (queues D (device t)) = Done True"
    and "\<not> is_activated D (device t)" and "sealed t'" and "device t' = d"
  shows "write_effect G m D t t'"
proof -
  have "list_all2 same_setup (queues D (device t)) (queues D d)"
    using activate_view [OF assms(1)] by simp
  then have "\<forall>q \<in> set (queues D d). setup_valid G m q"
    using setups_valid_cong [OF _ _ all_valid_setup [OF assms(2)]] by blast
  then show ?thesis
    using activate_view [OF assms(1)] assms(3-5) by (simp add: write_effect_def acked_offered_def)
qed

lemma set_device_status_effect:
  assumes "set_device_status G m D t status = Done t'"
  shows "write_effect G m D t t'"
proof -
  have ok: "sealed (t\<lparr>device_status := status\<rparr>)" if "NOT (device_status t) AND status = DRIVER_OK"
  proof -
    have "bit (NOT (device_status t) AND status) 2" unfolding that by (simp add: DRIVER_OK_def)
    then show ?thesis by (simp add: sealed_bits bit_simps)
  qed
  have failed: "sealed (t\<lparr>device_status := device_status t OR FAILED\<rparr>)" for t :: "'d MmioTransport"
    by (simp add: sealed_bits bit_simps status_defs)
  have unsealed: "\<not> sealed t"
    if "device_status t \<in> {INIT, ACKNOWLEDGE, ACKNOWLEDGE OR DRIVER, ACKNOWLEDGE OR DRIVER OR FEATURES_OK}"
    using that sealed_excludes by blast
  note eq = assms [unfolded set_device_status_def Let_def are_queues_valid_def]
  show ?thesis
  proof (cases "NOT (device_status t) AND status = DRIVER_OK \<and> device_status t = ACKNOWLEDGE OR DRIVER OR FEATURES_OK")
    case True
    then have "t' = t\<lparr>device_status := status\<rparr> \<or> \<not> is_activated D (device t)
      \<and> all_valid G m (queues D (device t)) = Done True
      \<and> (\<exists>d. activate D (device t) = (d, Ok ()) \<and> t' = t\<lparr>device_status := status, device := d\<rparr>)"
      using eq by (auto simp: status_defs exec_simps split: if_split_asm prod.split_asm sum.split_asm)
    then show ?thesis
      using ok True by (auto intro: status_effect activate_effect simp: sealed_def)
  next
    case False
    then have "t' = t\<lparr>device_status := status\<rparr> \<and> \<not> sealed t \<or> t' = t\<lparr>device_status := device_status t OR FAILED\<rparr>
      \<or> t' = t \<or> t' = mmio_reset D t \<and> \<not> is_activated D (device t)"
      using eq unsealed by (auto simp: no_reset FAILED_nonzero split: if_split_asm)
    then show ?thesis
      using failed by (auto intro: status_effect reset_effect)
  qed
qed

lemma ack_effect:
  "write_effect G m D t (t\<lparr>device := ack_features_by_page D (device t) page v\<rparr>)"
  using ack_subset [of "device t"] by (simp add: write_effect_def ack_view acked_offered_def sealed_def)

lemma irq_effect: "write_effect G m D t (t\<lparr>device := set_interrupt_status D (device t) s\<rparr>)"
  using irq_view [of "device t" s]
  by (simp add: write_effect_def device_view_def acked_offered_def sealed_def)

lemma write_register_effect:
  assumes "mmio_write_register G m D t offset v = Done t'"
  shows "write_effect G m D t t'"
proof (cases "offset = 0x70")
  case True
  then show ?thesis using assms set_device_status_effect by (simp add: mmio_write_register_def)
next
  case False
  have same: "write_effect G m D t t" "write_effect G m D t (t\<lparr>features_select := v\<rparr>)"
    "write_effect G m D t (t\<lparr>acked_features_select := v\<rparr>)" "write_effect G m D t (t\<lparr>queue_select := v\<rparr>)"
    by (rule status_effect; simp add: sealed_def)+
  show ?thesis
    using False assms same ack_effect irq_effect update_queue_field_effect
    by (auto simp: mmio_write_register_def split: if_split_asm)
qed

lemma write_effect_mmio:
  assumes "mmio_write G m D t offset data = Done t'"
  shows "write_effect G m D t t'"
proof -
  have "write_effect G m D t (t\<lparr>device := d\<rparr>)" if "write_config D (device t) off bs = Done d" for d off bs
    using config_view [OF that] by (simp add: write_effect_def device_view_def acked_offered_def sealed_def)
  moreover have "write_effect G m D t t" by (simp add: write_effect_def)
  ultimately show ?thesis
    using assms write_register_effect by (auto simp: mmio_write_def exec_simps split: if_split_asm)
qed

lemma step_inv: "mmio_step G D s s' \<Longrightarrow> mmio_inv G D s \<Longrightarrow> mmio_inv G D s'"
proof (induction rule: mmio_step.induct)
  case (reg_write m t offset data t')
  then show ?case using write_effect_mmio [OF reg_write(1)] by (auto simp: mmio_inv_def write_effect_def)
next
  case (mem_write m' m t)
  then show ?case using setup_valid_cong [OF same_setup_refl, of G m' m] by (simp add: mmio_inv_def)
next
  case (dev_work d' t m)
  then show ?case
    using setups_valid_cong [OF dev_work(4), of G m m] by (simp add: mmio_inv_def acked_offered_def sealed_def)
qed

lemma steps_inv: "(mmio_step G D)\<^sup>*\<^sup>* s s' \<Longrightarrow> mmio_inv G D s \<Longrightarrow> mmio_inv G D s'"
  by (induction rule: rtranclp_induct) (auto intro: step_inv)

lemma step_frozen:
  assumes "mmio_step G D s s'" and "is_activated D (device (snd s))" and "sealed (snd s)"
  shows "is_activated D (device (snd s')) \<and> sealed (snd s')
    \<and> list_all2 same_setup (queues D (device (snd s))) (queues D (device (snd s')))"
  using assms
proof (induction rule: mmio_step.induct)
  case (reg_write m t offset data t')
  then show ?case using write_effect_mmio [OF reg_write(1)] by (simp add: write_effect_def)
qed (simp_all add: sealed_def)

lemma steps_frozen:
  assumes "(mmio_step G D)\<^sup>*\<^sup>* s s'" and "is_activated D (device (snd s))" and "sealed (snd s)"
  shows "is_activated D (device (snd s')) \<and> sealed (snd s')
    \<and> list_all2 same_setup (queues D (device (snd s))) (queues D (device (snd s')))"
  using assms
proof (induction rule: rtranclp_induct)
  case (step s' s'')
  then show ?case using step_frozen [OF step(2)] same_setups_trans by blast
qed simp

end

section \<open>Initialisation by the driver\<close>

text \<open>
  The writes of a driver that follows section 3.1 of the virtio specification: acknowledge, choose
  features, set up the queues one after the other, start.
\<close>

record QueueSetup =
  su_size :: u16
  su_desc :: u64
  su_avail :: u64
  su_used :: u64

definition configured :: "Queue \<Rightarrow> QueueSetup \<Rightarrow> Queue" where
  "configured q s = q\<lparr>q_size := su_size s, q_desc_table := su_desc s, q_avail_ring := su_avail s,
     q_used_ring := su_used s, q_ready := True\<rparr>"

definition queue_writes :: "nat \<Rightarrow> QueueSetup \<Rightarrow> (u64 \<times> u32) list" where
  "queue_writes i s =
     [(0x30, of_nat i), (0x38, ucast (su_size s)),
      (0x80, ucast (su_desc s)), (0x84, ucast (drop_bit 32 (su_desc s))),
      (0x90, ucast (su_avail s)), (0x94, ucast (drop_bit 32 (su_avail s))),
      (0xa0, ucast (su_used s)), (0xa4, ucast (drop_bit 32 (su_used s))), (0x44, 1)]"

fun setup_writes :: "nat \<Rightarrow> QueueSetup list \<Rightarrow> (u64 \<times> u32) list" where
  "setup_writes k [] = []"
| "setup_writes k (s # ss) = queue_writes k s @ setup_writes (Suc k) ss"

definition feature_writes :: "u64 \<Rightarrow> (u64 \<times> u32) list" where
  "feature_writes features =
     [(0x70, 1), (0x70, 3), (0x24, 0), (0x20, ucast features), (0x24, 1),
      (0x20, ucast (drop_bit 32 features)), (0x70, 11)]"

definition driver_init :: "u64 \<Rightarrow> QueueSetup list \<Rightarrow> (u64 \<times> u32) list" where
  "driver_init features ss = feature_writes features @ setup_writes 0 ss @ [(0x70, 15)]"

fun run_writes ::
  "('m, 'ge) GuestMemory \<Rightarrow> 'm \<Rightarrow> ('d, 'io) VirtioDevice \<Rightarrow> (u64 \<times> u32) list \<Rightarrow> 'd MmioTransport \<Rightarrow>
   'd MmioTransport exec" where
  "run_writes G m D [] t = Done t"
| "run_writes G m D ((off, v) # ws) t = ebind (mmio_write G m D t off (le_bytes 4 v)) (run_writes G m D ws)"

lemma run_writes_append:
  "run_writes G m D (ws @ ws') t = ebind (run_writes G m D ws t) (run_writes G m D ws')"
proof (induction ws arbitrary: t)
  case (Cons w ws)
  then show ?case
    by (cases w, cases "mmio_write G m D t (fst w) (le_bytes 4 (snd w))") simp_all
qed simp

lemma write_reg [simp]:
  "off \<le> 0xff \<Longrightarrow> mmio_write G m D t off (le_bytes 4 v) = mmio_write_register G m D t off v"
  by (simp add: mmio_write_def byte_simps)

lemma ucast_u16_u32: "ucast (ucast (x :: u16) :: u32) = x"
  by (rule bit_word_eqI) (simp add: bit_simps)

lemma lo_hi: "hi (lo v (ucast a)) (ucast (drop_bit 32 a)) = a"
proof (rule bit_word_eqI)
  fix n assume "n < LENGTH(64)"
  then show "bit (hi (lo v (ucast a)) (ucast (drop_bit 32 a))) n = bit a n"
    using bit_mask_iff [of 32 n, where ?'a = u64]
    by (auto simp: hi_def lo_def bit_simps mask_eq_exp_minus_1)
qed

lemma init_status_steps:
  "device_status t = 0 \<Longrightarrow> set_device_status G m D t 1 = Done (t\<lparr>device_status := 1\<rparr>)"
  "device_status t = 1 \<Longrightarrow> set_device_status G m D t 3 = Done (t\<lparr>device_status := 3\<rparr>)"
  "device_status t = 3 \<Longrightarrow> set_device_status G m D t 11 = Done (t\<lparr>device_status := 11\<rparr>)"
  by (simp_all add: set_device_status_def status_defs)

lemma register_steps:
  "mmio_write_register G m D t 0x70 v = set_device_status G m D t v"
  "mmio_write_register G m D t 0x24 v = Done (t\<lparr>acked_features_select := v\<rparr>)"
  "device_status t = 3 \<Longrightarrow> mmio_write_register G m D t 0x20 v =
     Done (t\<lparr>device := ack_features_by_page D (device t) (acked_features_select t) v\<rparr>)"
  by (simp_all add: mmio_write_register_def check_device_status_def status_defs)

text \<open>A sequence of writes is a sequence of steps.\<close>

lemma run_writes_steps: "run_writes G m D ws t = Done t' \<Longrightarrow> (mmio_step G D)\<^sup>*\<^sup>* (m, t) (m, t')"
proof (induction ws arbitrary: t)
  case (Cons w ws)
  then show ?case
    by (cases w) (auto simp: exec_simps intro: converse_rtranclp_into_rtranclp mmio_step.reg_write)
qed simp

context virtio_device
begin

lemma update_view:
  fixes f
  assumes "device_view D (device t) = (av, ac, qs, on)" and "device_status t = 11"
    and "unat (queue_select t) < length qs"
  defines "t' \<equiv> update_queue_field D t f"
  shows "device_view D (device t') =
      (av, ac, qs[unat (queue_select t) := f (qs ! unat (queue_select t))], on)
    \<and> device_status t' = 11 \<and> queue_select t' = queue_select t"
  using assms(1-3) queues_mut [of "qs[unat (queue_select t) := f (qs ! unat (queue_select t))]" "device t"]
  by (simp add: t'_def update_queue_field_def check_device_status_def status_defs with_queue_mut_def
      Let_def device_view_def)

lemma updates_view:
  fixes fs
  assumes "device_view D (device t) = (av, ac, qs, on)" and "device_status t = 11"
    and "unat (queue_select t) < length qs"
  defines "t' \<equiv> fold (\<lambda>f t. update_queue_field D t f) fs t"
  shows "device_view D (device t') =
      (av, ac, qs[unat (queue_select t) := fold (\<lambda>f. f) fs (qs ! unat (queue_select t))], on)
    \<and> device_status t' = 11"
  using assms(1-3) unfolding t'_def
proof (induction fs arbitrary: t qs)
  case (Cons f fs)
  note v = update_view [OF Cons.prems, of f]
  show ?case using Cons.IH [OF conjunct1 [OF v]] v Cons.prems(3) by simp
qed simp

lemma run_queue_writes:
  assumes "device_view D (device t) = (av, ac, qs, on)" and "device_status t = 11"
    and "i < length qs" and "length qs < 2 ^ 32"
  shows "\<exists>t'. run_writes G m D (queue_writes i s) t = Done t' \<and> device_status t' = 11
    \<and> device_view D (device t') = (av, ac, qs[i := configured (qs ! i) s], on)"
proof -
  let ?t = "t\<lparr>queue_select := of_nat i\<rparr>"
  let ?fs = "[\<lambda>q. q\<lparr>q_size := ucast (ucast (su_size s) :: u32)\<rparr>,
    \<lambda>q. q\<lparr>q_desc_table := lo (q_desc_table q) (ucast (su_desc s))\<rparr>,
    \<lambda>q. q\<lparr>q_desc_table := hi (q_desc_table q) (ucast (drop_bit 32 (su_desc s)))\<rparr>,
    \<lambda>q. q\<lparr>q_avail_ring := lo (q_avail_ring q) (ucast (su_avail s))\<rparr>,
    \<lambda>q. q\<lparr>q_avail_ring := hi (q_avail_ring q) (ucast (drop_bit 32 (su_avail s)))\<rparr>,
    \<lambda>q. q\<lparr>q_used_ring := lo (q_used_ring q) (ucast (su_used s))\<rparr>,
    \<lambda>q. q\<lparr>q_used_ring := hi (q_used_ring q) (ucast (drop_bit 32 (su_used s)))\<rparr>,
    \<lambda>q. q\<lparr>q_ready := ((1 :: u32) = 1)\<rparr>]"
  have "run_writes G m D (queue_writes i s) t = Done (fold (\<lambda>f t. update_queue_field D t f) ?fs ?t)"
    by (simp add: queue_writes_def mmio_write_register_def)
  moreover have "fold (\<lambda>f. f) ?fs (qs ! i) = configured (qs ! i) s"
    by (simp add: configured_def lo_hi ucast_u16_u32)
  moreover have "unat (of_nat i :: u32) = i" using assms(3,4) by (simp add: unat_of_nat)
  ultimately show ?thesis
    using updates_view [of ?t av ac qs on ?fs] assms by simp
qed

lemma run_setup_writes:
  assumes "device_view D (device t) = (av, ac, qs, on)" and "device_status t = 11"
    and "k + length ss = length qs" and "length qs < 2 ^ 32"
  shows "\<exists>t'. run_writes G m D (setup_writes k ss) t = Done t' \<and> device_status t' = 11
    \<and> device_view D (device t') = (av, ac, take k qs @ map2 configured (drop k qs) ss, on)"
  using assms
proof (induction ss arbitrary: k t qs)
  case (Cons s ss)
  let ?qs = "qs[k := configured (qs ! k) s]"
  have "k < length qs" using Cons.prems(3) by simp
  from run_queue_writes [OF Cons.prems(1,2) this Cons.prems(4), of G m s]
  obtain t1 where t1: "run_writes G m D (queue_writes k s) t = Done t1" "device_status t1 = 11"
    "device_view D (device t1) = (av, ac, ?qs, on)"
    by blast
  have "take (Suc k) ?qs = take k qs @ [configured (qs ! k) s]" "drop (Suc k) ?qs = drop (Suc k) qs"
    "drop k qs = qs ! k # drop (Suc k) qs"
    using Cons.prems(3) by (simp_all add: take_Suc_conv_app_nth Cons_nth_drop_Suc)
  then show ?case
    using Cons.IH [OF t1(3,2), of "Suc k"] Cons.prems(3,4) t1(1) by (simp add: run_writes_append)
qed simp

lemma ack_acked:
  "acked_features D (ack_features_by_page D d page v) = acked_features D d OR
     ((if page = 0 then ucast v else if page = 1 then push_bit 32 (ucast v) else 0) AND avail_features D d)"
proof -
  define w :: u64 where "w = (if page = 0 then ucast v else if page = 1 then push_bit 32 (ucast v) else 0)"
  define b where "b = avail_features D d"
  have "w AND NOT (w AND NOT b) = w AND b" "w = (w AND b) OR (w AND NOT b)"
    by (rule bit_eqI, auto simp: bit_simps)+
  then have "(if w AND NOT b \<noteq> 0 then w AND NOT (w AND NOT b) else w) = w AND b"
    by (metis or.right_neutral)
  then have "ack_features_by_page D d page v = set_acked_features D d (acked_features D d OR (w AND b))"
    by (simp only: ack_features_by_page_def Let_def w_def [symmetric] b_def [symmetric])
  then show ?thesis using set_acked by (simp add: device_view_def w_def b_def)
qed

lemma run_feature_writes:
  assumes "\<not> is_activated D d"
  shows "\<exists>t. run_writes G m D (feature_writes features) (mmio_new d) = Done t \<and> device_status t = 11
    \<and> device_view D (device t) =
        (avail_features D d, acked_features D d OR (features AND avail_features D d), queues D d, False)"
proof -
  have "(ucast (ucast f :: u32) AND b) OR (push_bit 32 (ucast (ucast (drop_bit 32 f) :: u32)) AND b) = f AND b"
    for f b :: u64
    by (rule bit_word_eqI) (auto simp: bit_simps)
  moreover have "run_writes G m D (feature_writes features) (mmio_new d) =
    Done \<lparr>device = ack_features_by_page D (ack_features_by_page D d 0 (ucast features)) 1 (ucast (drop_bit 32 features)),
      features_select = 0, acked_features_select = 1, queue_select = 0, device_status = 11, config_generation = 0\<rparr>"
    by (simp add: feature_writes_def mmio_new_def INIT_def register_steps init_status_steps)
  ultimately show ?thesis
    using assms by (simp add: device_view_def ack_view ack_acked or.assoc)
qed

lemma init_activates:
  assumes "\<not> is_activated D d" and "length ss = length (queues D d)" and "length (queues D d) < 2 ^ 32"
    and valid: "all_valid G m (map2 configured (queues D d) ss) = Done True"
    and act: "\<And>d'. device_view D d' = (avail_features D d, acked_features D d OR (features AND avail_features D d),
        map2 configured (queues D d) ss, False) \<Longrightarrow> \<exists>d''. activate D d' = (d'', Ok ())"
  shows "\<exists>t. run_writes G m D (driver_init features ss) (mmio_new d) = Done t
    \<and> is_activated D (device t) \<and> device_status t = 15
    \<and> list_all2 same_setup (map2 configured (queues D d) ss) (queues D (device t))
    \<and> acked_features D (device t) = acked_features D d OR (features AND avail_features D d)"
proof -
  obtain t where t: "run_writes G m D (feature_writes features) (mmio_new d) = Done t" "device_status t = 11"
    "device_view D (device t) =
       (avail_features D d, acked_features D d OR (features AND avail_features D d), queues D d, False)"
    using run_feature_writes [OF assms(1), of G m features] by blast
  obtain t' where t': "run_writes G m D (setup_writes 0 ss) t = Done t'" "device_status t' = 11"
    "device_view D (device t') = (avail_features D d, acked_features D d OR (features AND avail_features D d),
       map2 configured (queues D d) ss, False)"
    using run_setup_writes [OF t(3,2), of 0 ss G m] assms(2,3) by auto
  obtain d'' where d'': "activate D (device t') = (d'', Ok ())" using act [OF t'(3)] by blast
  have "mmio_write G m D t' 0x70 (le_bytes 4 (15 :: u32)) = Done (t'\<lparr>device_status := 15, device := d''\<rparr>)"
    using t'(2,3) valid d''
    by (simp add: mmio_write_register_def set_device_status_def status_defs are_queues_valid_def device_view_def)
  then show ?thesis
    using t(1) t'(1,3) activate_view [OF d''] activate_Ok [OF d'']
    by (simp add: driver_init_def run_writes_append device_view_def)
qed

end

section \<open>Properties\<close>

text \<open>
  (C5) However register writes, writes to guest memory and the work of the device interleave, starting
  from a fresh transport: the acknowledged features are among the offered ones, and a device that is
  activated has only queues whose setup passed the validity check.
\<close>

theorem mmio_activated_valid:
  assumes "virtio_device D" and "\<not> is_activated D d" and "acked_features D d = 0"
    and "(mmio_step G D)\<^sup>*\<^sup>* (m0, mmio_new d) (m, t)"
  shows "acked_features D (device t) AND NOT (avail_features D (device t)) = 0
    \<and> (is_activated D (device t) \<longrightarrow> (\<forall>q \<in> set (queues D (device t)). setup_valid G m q))"
proof -
  have "mmio_inv G D (m0, mmio_new d)"
    using assms(2,3) by (simp add: mmio_inv_def mmio_new_def acked_offered_def)
  then show ?thesis
    using virtio_device.steps_inv [OF assms(1,4)] by (simp add: mmio_inv_def acked_offered_def)
qed

text \<open>
  (C6) Activation is for good: from a state reached by the driver in which the device is activated, no
  sequence of register writes, a reset or failure included, deactivates it or changes the size,
  readiness or addresses of its queues.
\<close>

theorem mmio_activated_frozen:
  assumes "virtio_device D" and "\<not> is_activated D d" and "acked_features D d = 0"
    and "(mmio_step G D)\<^sup>*\<^sup>* (m0, mmio_new d) (m, t)" and "is_activated D (device t)"
    and "(mmio_step G D)\<^sup>*\<^sup>* (m, t) (m', t')"
  shows "is_activated D (device t') \<and> list_all2 same_setup (queues D (device t)) (queues D (device t'))"
proof -
  have "mmio_inv G D (m0, mmio_new d)"
    using assms(2,3) by (simp add: mmio_inv_def mmio_new_def acked_offered_def)
  then have "sealed t"
    using virtio_device.steps_inv [OF assms(1,4)] assms(5) by (simp add: mmio_inv_def)
  then show ?thesis
    using virtio_device.steps_frozen [OF assms(1,6)] assms(5) by simp
qed

text \<open>
  (C14) A driver that initialises a fresh device in the order of the virtio specification, with queue
  setups that are valid, ends with the device activated, its queues set up as asked and the
  requested features that the device offers acknowledged.
\<close>

theorem mmio_init_activates:
  assumes "virtio_device D" and "\<not> is_activated D d" and "length ss = length (queues D d)"
    and "length (queues D d) < 2 ^ 32" and "all_valid G m (map2 configured (queues D d) ss) = Done True"
    and "\<forall>d'. device_view D d' = (avail_features D d, acked_features D d OR (features AND avail_features D d),
        map2 configured (queues D d) ss, False) \<longrightarrow> (\<exists>d''. activate D d' = (d'', Ok ()))"
  shows "\<exists>t. run_writes G m D (driver_init features ss) (mmio_new d) = Done t
    \<and> is_activated D (device t) \<and> device_status t = 15
    \<and> list_all2 same_setup (map2 configured (queues D d) ss) (queues D (device t))
    \<and> acked_features D (device t) = acked_features D d OR (features AND avail_features D d)"
  using virtio_device.init_activates [OF assms(1-5)] assms(6) by blast

end
