(* ===== verification/QueueFrame.thy ===== *)
theory QueueFrame
  imports VirtQueue
begin

text \<open>
  What a device relies on while it serves a queue: the state of a queue whose driver follows the
  protocol, and that popping, adding used buffers and writing elsewhere in memory keep it.
\<close>

section \<open>Memory outside the rings\<close>

text \<open>The used ring, which the device writes, overlaps neither the available ring nor the table.\<close>

definition rings_apart :: "Queue \<Rightarrow> bool" where
  "rings_apart q \<longleftrightarrow>
     disjoint_areas (q_used_ring q) (6 + 8 * entries q) (q_avail_ring q) (6 + 2 * entries q)
     \<and> disjoint_areas (q_used_ring q) (6 + 8 * entries q) (q_desc_table q) (16 * entries q)"

definition same_ranges :: "('m, 'ge) GuestMemory \<Rightarrow> 'm \<Rightarrow> 'm \<Rightarrow> bool" where
  "same_ranges G m m' \<longleftrightarrow> (\<forall>x. address_in_range G m' x = address_in_range G m x)"

definition same_bytes :: "('m \<Rightarrow> u64 \<Rightarrow> u8) \<Rightarrow> 'm \<Rightarrow> 'm \<Rightarrow> u64 \<Rightarrow> nat \<Rightarrow> bool" where
  "same_bytes mb m m' a n \<longleftrightarrow> (\<forall>x. within a n x \<longrightarrow> mb m' x = mb m x)"

lemma same_ranges_refl [simp]: "same_ranges G m m"
  by (simp add: same_ranges_def)

lemma same_ranges_trans [trans]: "same_ranges G m m' \<Longrightarrow> same_ranges G m' m'' \<Longrightarrow> same_ranges G m m''"
  by (simp add: same_ranges_def)

lemma mapped_same: "same_ranges G m m' \<Longrightarrow> mapped G m' a n = mapped G m a n"
  by (simp add: same_ranges_def mapped_def)

lemma queue_mapped_same: "same_ranges G m m' \<Longrightarrow> queue_mapped G m' q = queue_mapped G m q"
  by (simp add: queue_mapped_def mapped_same)

lemma within_part:
  assumes "within (a + of_nat i) k x" and "i + k \<le> n" and "unat a + n \<le> 2 ^ 64"
  shows "within a n x"
proof -
  have "0 < k" using assms(1) by (simp add: within_def)
  then have "unat (a + of_nat i) = unat a + i" using assms(2,3) by (intro unat_offset) auto
  then show ?thesis using assms(1,2) by (simp add: within_def)
qed

lemma same_bytes_part:
  "same_bytes mb m m' a n \<Longrightarrow> i + k \<le> n \<Longrightarrow> unat a + n \<le> 2 ^ 64 \<Longrightarrow> same_bytes mb m m' (a + of_nat i) k"
  using within_part unfolding same_bytes_def by blast

lemma peek_same:
  assumes "same_bytes mb m m' a n" and "i + k \<le> n" and "unat a + n \<le> 2 ^ 64"
  shows "peek mb m' k (a + of_nat i) = (peek mb m k (a + of_nat i) :: 'w::len word)"
proof -
  have "mb m' (a + of_nat i + of_nat j) = mb m (a + of_nat i + of_nat j)" if "j < k" for j
    using within_offset [of a n "i + j"] assms that by (simp add: same_bytes_def add.assoc)
  then have "map (\<lambda>j. mb m' (a + of_nat i + of_nat j)) [0..<k] = map (\<lambda>j. mb m (a + of_nat i + of_nat j)) [0..<k]"
    by simp
  then show ?thesis by (simp only: peek_def)
qed

lemma avail_heads_same:
  assumes "same_bytes mb m m' (q_avail_ring q) (6 + 2 * entries q)"
    and "unat (q_avail_ring q) + (6 + 2 * entries q) \<le> 2 ^ 64" and "queue_sized q"
  shows "avail_heads mb m' q = avail_heads mb m q"
proof -
  have "peek mb m' 2 (avail_addr q (j mod entries q)) = (peek mb m 2 (avail_addr q (j mod entries q)) :: u16)" for j
  proof -
    have "j mod entries q < entries q" using assms(3) by (simp add: queue_sized_def)
    then show ?thesis unfolding avail_addr_def using assms by (intro peek_same) auto
  qed
  moreover have "peek mb m' 2 (q_avail_ring q + 2) = (peek mb m 2 (q_avail_ring q + 2) :: u16)"
    using peek_same [OF assms(1) _ assms(2), of 2 2] by simp
  ultimately show ?thesis by (simp add: avail_heads_def)
qed

context guest_memory
begin

lemma write_frame_bytes:
  assumes "gm_write G m a bs = (m', r)" and "disjoint_areas a (length bs) b n"
  shows "same_bytes mem_byte m m' b n" "same_ranges G m m'"
  using write_frame [OF assms(1)] assms(2)
  by (auto simp: same_bytes_def same_ranges_def within_def disjoint_areas_def)

lemma read_same:
  assumes "mapped G m a n" and "same_ranges G m m'" and "same_bytes mem_byte m m' a n" and "0 < n"
  shows "gm_read G m' a n = gm_read G m a n"
proof -
  have "mem_byte m' (a + of_nat i) = mem_byte m (a + of_nat i)" if "i < n" for i
    using within_offset [OF _ that, of a] assms(1,3) by (simp add: same_bytes_def mapped_def)
  moreover have "mapped G m' a n" using assms(1,2) by (simp add: mapped_same)
  ultimately show ?thesis using assms(1,4) by (simp add: read_Ok)
qed

lemma checked_new_same:
  assumes "mapped G m t (16 * unat n)" and "same_ranges G m m'"
    and "same_bytes mem_byte m m' t (16 * unat n)"
  shows "checked_new G m' t n i = checked_new G m t n i"
proof (cases "i < n")
  case True
  then have i: "16 * unat i + 16 \<le> 16 * unat n" by (simp add: word_less_nat_alt)
  have off: "checked_offset G m' a k = checked_offset G m a k" for a k
    using assms(2) by (simp add: checked_offset same_ranges_def)
  have "mapped G m (t + of_nat (unat i * 16)) 16" using mapped_part [OF assms(1), of "unat i * 16" 16] i by simp
  moreover have "same_bytes mem_byte m m' (t + of_nat (unat i * 16)) 16"
    using same_bytes_part [OF assms(3), of "unat i * 16" 16] i assms(1) by (simp add: mapped_def)
  ultimately have rd: "gm_read G m' (t + of_nat (unat i * 16)) 16 = gm_read G m (t + of_nat (unat i * 16)) 16"
    using read_same assms(2) by simp
  show ?thesis
  proof (cases "checked_offset G m t (unat i * 16)")
    case None
    then show ?thesis using off by (simp add: checked_new_def)
  next
    case (Some a)
    then have "a = t + of_nat (unat i * 16)" by (auto simp: checked_offset split: if_split_asm)
    then show ?thesis using Some off rd by (simp add: checked_new_def)
  qed
qed (simp add: checked_new_def not_less)

text \<open>Adding a used buffer only writes the used ring.\<close>

lemma add_used_frame:
  assumes ok: "queue_mapped G m q" "queue_sized q" and run: "add_used G m q d len = Done (q', m', r)"
    and apart: "disjoint_areas (q_used_ring q) (6 + 8 * entries q) b n"
  shows "same_bytes mem_byte m m' b n" "same_ranges G m m'"
proof -
  let ?slot = "unat (q_next_used q) mod entries q"
  let ?a = "used_addr q ?slot"
  have slot: "?slot < entries q" using ok(2) by (simp add: queue_sized_def)
  have elem: "q_used_ring q + (4 + ucast (q_next_used q mod actual_size q) * 8) = ?a"
    by (simp add: used_addr_def ucast_u16_u64 unat_slot mult.commute)
  have pos: "unat ?a = unat (q_used_ring q) + (4 + 8 * ?slot)"
    "unat (?a + 4) = unat (q_used_ring q) + (4 + 8 * ?slot + 4)"
    using used_field_pos(1) [OF ok(1) slot, of 0] used_field_pos(1) [OF ok(1) slot, of 4] by simp_all
  have in_used: "disjoint_areas ?a 4 b n" "disjoint_areas (?a + 4) 4 b n" "disjoint_areas (q_used_ring q + 2) 2 b n"
    using apart pos used_idx_area(2) [OF ok(1)] slot by (auto simp: disjoint_areas_def)
  obtain m1 r1 where w1: "write_u32 G m (ucast d) ?a = (m1, r1)" by fastforce
  obtain m2 r2 where w2: "write_u32 G m1 len (?a + 4) = (m2, r2)" by fastforce
  obtain m3 r3 where w3: "write_u16 G m2 (q_next_used q + 1) (q_used_ring q + 2) = (m3, r3)" by fastforce
  have f1: "same_bytes mem_byte m m1 b n" "same_ranges G m m1"
    using write_frame_bytes [OF w1 [unfolded write_obj_def], of b n] in_used(1) by simp_all
  have f2: "same_bytes mem_byte m1 m2 b n" "same_ranges G m1 m2"
    using write_frame_bytes [OF w2 [unfolded write_obj_def], of b n] in_used(2) by simp_all
  have f3: "same_bytes mem_byte m2 m3 b n" "same_ranges G m2 m3"
    using write_frame_bytes [OF w3 [unfolded write_obj_def], of b n] in_used(3) by simp_all
  have "0 < entries q" using ok(2) by (simp add: queue_sized_def)
  then have "m' \<in> {m, m1, m2, m3}"
    using run unfolding add_used_def rem_slot [OF \<open>0 < entries q\<close>] ebind.simps Let_def elem
    by (auto simp: w1 w2 w3 split: if_split_asm sum.split_asm)
  then have "same_bytes mem_byte m m' b n \<and> same_ranges G m m'"
    using f1 f2 f3 by (auto simp: same_bytes_def same_ranges_def)
  then show "same_bytes mem_byte m m' b n" "same_ranges G m m'" by simp_all
qed

end

section \<open>A queue in service\<close>

text \<open>
  The state of a queue between two accesses: its areas are in memory and apart, the announced used
  index is the device's, and with the heads that are available and \<open>k\<close> heads the device has popped
  and not yet returned, the buffers of a driver that has consumed the used ring up to \<open>seen\<close> fit in
  the queue.
\<close>

definition queue_ok ::
  "('m, 'ge) GuestMemory \<Rightarrow> ('m \<Rightarrow> u64 \<Rightarrow> u8) \<Rightarrow> u16 \<Rightarrow> nat \<Rightarrow> 'm \<Rightarrow> Queue \<Rightarrow> bool" where
  "queue_ok G mb seen k m q \<longleftrightarrow>
     queue_mapped G m q \<and> queue_sized q \<and> entries q dvd 2 ^ 16 \<and> rings_apart q
     \<and> peek mb m 2 (q_used_ring q + 2) = q_next_used q
     \<and> length (used_entries mb m q seen) + length (avail_heads mb m q) + k \<le> entries q"

text \<open>The rings and the table of a queue hold the same bytes.\<close>

definition rings_same ::
  "('m, 'ge) GuestMemory \<Rightarrow> ('m \<Rightarrow> u64 \<Rightarrow> u8) \<Rightarrow> Queue \<Rightarrow> 'm \<Rightarrow> 'm \<Rightarrow> bool" where
  "rings_same G mb q m m' \<longleftrightarrow>
     same_ranges G m m' \<and> same_bytes mb m m' (q_desc_table q) (16 * entries q)
     \<and> same_bytes mb m m' (q_avail_ring q) (6 + 2 * entries q)
     \<and> same_bytes mb m m' (q_used_ring q) (6 + 8 * entries q)"

lemma queue_mapped_bounds:
  assumes "queue_mapped G m q"
  shows "unat (q_desc_table q) + 16 * entries q \<le> 2 ^ 64"
    "unat (q_avail_ring q) + (6 + 2 * entries q) \<le> 2 ^ 64"
    "unat (q_used_ring q) + (6 + 8 * entries q) \<le> 2 ^ 64"
  using assms by (simp_all add: queue_mapped_def mapped_def)

lemma used_entries_same:
  assumes "same_bytes mb m m' (q_used_ring q) (6 + 8 * entries q)"
    and "unat (q_used_ring q) + (6 + 8 * entries q) \<le> 2 ^ 64" and "queue_sized q"
  shows "used_entries mb m' q seen = used_entries mb m q seen"
    "peek mb m' 2 (q_used_ring q + 2) = (peek mb m 2 (q_used_ring q + 2) :: u16)"
proof -
  show idx: "peek mb m' 2 (q_used_ring q + 2) = (peek mb m 2 (q_used_ring q + 2) :: u16)"
    using peek_same [OF assms(1) _ assms(2), of 2 2] by simp
  have "used_entry mb m' q (j mod entries q) = used_entry mb m q (j mod entries q)" for j
  proof -
    have j: "j mod entries q < entries q" using assms(3) by (simp add: queue_sized_def)
    have "used_addr q (j mod entries q) + 4 = q_used_ring q + of_nat (8 + 8 * (j mod entries q))"
      by (simp add: used_addr_def)
    moreover have "peek mb m' 4 (q_used_ring q + of_nat (8 + 8 * (j mod entries q)))
      = (peek mb m 4 (q_used_ring q + of_nat (8 + 8 * (j mod entries q))) :: u32)"
      using j by (intro peek_same [OF assms(1) _ assms(2)]) simp
    moreover have "peek mb m' 4 (used_addr q (j mod entries q)) = (peek mb m 4 (used_addr q (j mod entries q)) :: u32)"
      unfolding used_addr_def using j by (intro peek_same [OF assms(1) _ assms(2)]) simp
    ultimately show ?thesis by (simp only: used_entry_def)
  qed
  with idx show "used_entries mb m' q seen = used_entries mb m q seen" by (simp add: used_entries_def)
qed

lemma queue_ok_same:
  assumes "queue_ok G mb seen k m q" and "rings_same G mb q m m'"
  shows "queue_ok G mb seen k m' q" "avail_heads mb m' q = avail_heads mb m q"
    "used_entries mb m' q seen = used_entries mb m q seen"
proof -
  have q: "queue_mapped G m q" "queue_sized q" using assms(1) by (simp_all add: queue_ok_def)
  have b: "same_bytes mb m m' (q_avail_ring q) (6 + 2 * entries q)"
    "same_bytes mb m m' (q_used_ring q) (6 + 8 * entries q)"
    using assms(2) by (simp_all add: rings_same_def)
  show h: "avail_heads mb m' q = avail_heads mb m q"
    by (rule avail_heads_same [OF b(1) queue_mapped_bounds(2) [OF q(1)] q(2)])
  note u = used_entries_same [OF b(2) queue_mapped_bounds(3) [OF q(1)] q(2)]
  show "used_entries mb m' q seen = used_entries mb m q seen" by (rule u(1))
  show "queue_ok G mb seen k m' q"
    using assms h u queue_mapped_same [of G m m' q] by (simp add: queue_ok_def rings_same_def)
qed

context guest_memory
begin

text \<open>Popping the first head, and returning it, keep the queue in service.\<close>

lemma service_pop:
  assumes ok: "queue_ok G mem_byte seen k m q"
  shows "queue_pop G m q =
    (case avail_heads mem_byte m q of
       [] \<Rightarrow> Done (q, None)
     | h # t \<Rightarrow>
         (case checked_new G m (q_desc_table q) (actual_size q) h of
            None \<Rightarrow> Done (q, None)
          | Some dc \<Rightarrow> Done (q\<lparr>q_next_avail := q_next_avail q + 1\<rparr>, Some dc)))"
  using queue_pop_refines [of m q] ok by (auto simp: queue_ok_def)

lemma service_popped:
  assumes ok: "queue_ok G mem_byte seen k m q" and heads: "avail_heads mem_byte m q = h # t"
  defines "q' \<equiv> q\<lparr>q_next_avail := q_next_avail q + 1\<rparr>"
  shows "queue_ok G mem_byte seen (Suc k) m q'" "avail_heads mem_byte m q' = t"
    "used_entries mem_byte m q' seen = used_entries mem_byte m q seen"
proof -
  show t: "avail_heads mem_byte m q' = t" unfolding q'_def by (rule avail_heads_Cons(2) [OF heads])
  show u: "used_entries mem_byte m q' seen = used_entries mem_byte m q seen"
    by (simp add: q'_def used_entries_def used_entry_def used_addr_def actual_size_def)
  show "queue_ok G mem_byte seen (Suc k) m q'"
    using ok heads t u
    by (simp add: queue_ok_def q'_def queue_mapped_def queue_sized_def rings_apart_def actual_size_def)
qed

lemma service_add_used:
  assumes ok: "queue_ok G mem_byte seen (Suc k) m q" and d: "d < actual_size q"
  shows "\<exists>q' m'. add_used G m q d len = Done (q', m', Ok ()) \<and> queue_ok G mem_byte seen k m' q'
    \<and> q' = q\<lparr>q_num_added := q_num_added q + 1, q_next_used := q_next_used q + 1\<rparr>
    \<and> avail_heads mem_byte m' q' = avail_heads mem_byte m q
    \<and> used_entries mem_byte m' q' seen = used_entries mem_byte m q seen @ [(ucast d, len)]
    \<and> same_ranges G m m'
    \<and> (\<forall>b n. disjoint_areas (q_used_ring q) (6 + 8 * entries q) b n \<longrightarrow> same_bytes mem_byte m m' b n)"
proof -
  have q: "queue_mapped G m q" "queue_sized q" "entries q dvd 2 ^ 16" "rings_apart q"
    "peek mem_byte m 2 (q_used_ring q + 2) = q_next_used q"
    "length (used_entries mem_byte m q seen) < entries q"
    using ok by (simp_all add: queue_ok_def)
  obtain q' m' where r: "add_used G m q d len = Done (q', m', Ok ())" "queue_mapped G m' q'"
    "peek mem_byte m' 2 (q_used_ring q' + 2) = q_next_used q'"
    "used_entries mem_byte m' q' seen = used_entries mem_byte m q seen @ [(ucast d, len)]"
    using add_used_publishes [OF q(1-3) d q(5,6), of len] by blast
  have q': "q' = q\<lparr>q_num_added := q_num_added q + 1, q_next_used := q_next_used q + 1\<rparr>"
    using add_used_Done [OF q(1,2) d, of len] r(1) by auto
  note frame = add_used_frame [OF q(1,2) r(1)]
  have "same_bytes mem_byte m m' (q_avail_ring q) (6 + 2 * entries q)"
    using frame(1) q(4) by (simp add: rings_apart_def)
  then have "avail_heads mem_byte m' q = avail_heads mem_byte m q"
    by (rule avail_heads_same [OF _ queue_mapped_bounds(2) [OF q(1)] q(2)])
  moreover have "avail_heads mem_byte m' q' = avail_heads mem_byte m' q"
    by (simp add: q' avail_heads_def avail_addr_def actual_size_def)
  ultimately have h: "avail_heads mem_byte m' q' = avail_heads mem_byte m q" by simp
  have "queue_sized q'" "rings_apart q'" "entries q' = entries q"
    using q(2,4) by (simp_all add: q' queue_sized_def rings_apart_def actual_size_def)
  then have "queue_ok G mem_byte seen k m' q'"
    using ok r(2-4) h by (simp add: queue_ok_def)
  then show ?thesis
    using r(1,4) q' h frame(1) frame(2) [of 0 0] by (auto simp: disjoint_areas_def)
qed

text \<open>Taking one head and returning it.\<close>

lemma serve_head:
  assumes ok: "queue_ok G mem_byte seen k m q" and heads: "avail_heads mem_byte m q = h # t"
    and dc: "checked_new G m (q_desc_table q) (actual_size q) h = Some dc"
  shows "queue_pop G m q = Done (q\<lparr>q_next_avail := q_next_avail q + 1\<rparr>, Some dc)" "dc_index dc = h"
    and "\<exists>q' m'. add_used G m (q\<lparr>q_next_avail := q_next_avail q + 1\<rparr>) h len = Done (q', m', Ok ())
      \<and> queue_ok G mem_byte seen k m' q' \<and> avail_heads mem_byte m' q' = t
      \<and> used_entries mem_byte m' q' seen = used_entries mem_byte m q seen @ [(ucast h, len)]
      \<and> q_desc_table q' = q_desc_table q \<and> q_used_ring q' = q_used_ring q \<and> q_avail_ring q' = q_avail_ring q
      \<and> actual_size q' = actual_size q \<and> same_ranges G m m'
      \<and> (\<forall>b n. disjoint_areas (q_used_ring q) (6 + 8 * entries q) b n \<longrightarrow> same_bytes mem_byte m m' b n)
      \<and> (\<forall>i. checked_new G m' (q_desc_table q) (actual_size q) i = checked_new G m (q_desc_table q) (actual_size q) i)"
proof -
  let ?q = "q\<lparr>q_next_avail := q_next_avail q + 1\<rparr>"
  show "queue_pop G m q = Done (?q, Some dc)" using service_pop [OF ok] heads dc by simp
  show "dc_index dc = h" using checked_new_Some(3) [OF dc] .
  note popped = service_popped [OF ok heads]
  have "h < actual_size ?q" using checked_new_Some(4) [OF dc] by (simp add: actual_size_def)
  then obtain q' m' where r: "add_used G m ?q h len = Done (q', m', Ok ())"
    "queue_ok G mem_byte seen k m' q'"
    "q' = ?q\<lparr>q_num_added := q_num_added ?q + 1, q_next_used := q_next_used ?q + 1\<rparr>"
    "avail_heads mem_byte m' q' = avail_heads mem_byte m ?q"
    "used_entries mem_byte m' q' seen = used_entries mem_byte m ?q seen @ [(ucast h, len)]"
    "same_ranges G m m'"
    "\<And>b n. disjoint_areas (q_used_ring ?q) (6 + 8 * entries ?q) b n \<Longrightarrow> same_bytes mem_byte m m' b n"
    using service_add_used [OF popped(1), of h len] by blast
  have "same_bytes mem_byte m m' (q_desc_table q) (16 * unat (actual_size q))"
    using r(7) ok by (simp add: queue_ok_def rings_apart_def actual_size_def)
  then have "checked_new G m' (q_desc_table q) (actual_size q) i = checked_new G m (q_desc_table q) (actual_size q) i" for i
    using checked_new_same [OF _ r(6)] ok by (simp add: queue_ok_def queue_mapped_def)
  then show "\<exists>q' m'. add_used G m ?q h len = Done (q', m', Ok ())
      \<and> queue_ok G mem_byte seen k m' q' \<and> avail_heads mem_byte m' q' = t
      \<and> used_entries mem_byte m' q' seen = used_entries mem_byte m q seen @ [(ucast h, len)]
      \<and> q_desc_table q' = q_desc_table q \<and> q_used_ring q' = q_used_ring q \<and> q_avail_ring q' = q_avail_ring q
      \<and> actual_size q' = actual_size q \<and> same_ranges G m m'
      \<and> (\<forall>b n. disjoint_areas (q_used_ring q) (6 + 8 * entries q) b n \<longrightarrow> same_bytes mem_byte m m' b n)
      \<and> (\<forall>i. checked_new G m' (q_desc_table q) (actual_size q) i = checked_new G m (q_desc_table q) (actual_size q) i)"
    using r(1-7) popped(2,3) by (auto simp: actual_size_def)
qed

end

section \<open>Memories for examples\<close>

text \<open>Eight pages of memory given by the bytes that are not zero, and a queue of two entries in the first.\<close>

abbreviation bm_byte :: "byte_map \<Rightarrow> u64 \<Rightarrow> u8" where
  "bm_byte \<equiv> \<lambda>m a. case m a of None \<Rightarrow> 0 | Some b \<Rightarrow> b"

definition page_mem :: "(u64 \<times> u8) list \<Rightarrow> byte_map" where
  "page_mem bs = (\<lambda>a. if a < 0x8000 then Some (case map_of bs a of None \<Rightarrow> 0 | Some b \<Rightarrow> b) else None)"

lemma page_mapped: "unat a + n \<le> 4096 \<Longrightarrow> mapped byte_memory (page_mem bs) a n"
proof -
  assume n: "unat a + n \<le> 4096"
  have "a + of_nat i < 0x8000" if "i < n" for i
    using n that unat_offset [of a n i] by (simp add: word_less_nat_alt)
  then show ?thesis using n by (simp add: mapped_def page_mem_def)
qed

lemma page_queue_ok:
  assumes "le_word (map (\<lambda>i. bm_byte (page_mem bs) (258 + of_nat i)) [0..<2]) = (n :: u16)" and "unat n \<le> 2"
    and "le_word (map (\<lambda>i. bm_byte (page_mem bs) (514 + of_nat i)) [0..<2]) = (0 :: u16)"
  shows "queue_ok byte_memory bm_byte 0 0 (page_mem bs) sample_queue"
proof -
  have "queue_mapped byte_memory (page_mem bs) sample_queue"
    unfolding queue_mapped_def sample_actual_size
    by (intro conjI page_mapped) (simp_all add: sample_queue_def queue_new_def)
  moreover have "rings_apart sample_queue"
    by (simp add: rings_apart_def sample_actual_size disjoint_areas_def) (simp add: sample_queue_def queue_new_def)
  moreover have "queue_sized sample_queue" "entries sample_queue dvd 2 ^ 16"
    using sample_ok by simp_all
  ultimately show ?thesis
    using assms
    by (simp add: queue_ok_def used_entries_def avail_heads_def peek_def sample_actual_size)
      (simp add: sample_queue_def queue_new_def)
qed

end
