(* ===== verification/BalloonDevice.thy ===== *)
theory BalloonDevice
  imports MmioTransport QueueFrame
begin

text \<open>
  The virtio balloon (\<open>devices/src/virtio/balloon\<close>): compaction of page frame numbers into ranges,
  the inflate, deflate and statistics queues, resizing, and the device as an instance of the trait.
\<close>

section \<open>Constants, errors and state\<close>

definition QUEUE_SIZE_BALLOON :: u16 where "QUEUE_SIZE_BALLOON = 256"
definition MIB_TO_4K_PAGES :: u32 where "MIB_TO_4K_PAGES = 256"
definition MAX_PAGES_IN_DESC :: nat where "MAX_PAGES_IN_DESC = 256"
definition MAX_PAGE_COMPACT_BUFFER :: nat where "MAX_PAGE_COMPACT_BUFFER = 2048"
definition VIRTIO_BALLOON_PFN_SHIFT :: nat where "VIRTIO_BALLOON_PFN_SHIFT = 12"
definition INFLATE_INDEX :: nat where "INFLATE_INDEX = 0"
definition DEFLATE_INDEX :: nat where "DEFLATE_INDEX = 1"
definition STATS_INDEX :: nat where "STATS_INDEX = 2"
definition VIRTIO_BALLOON_F_STATS_VQ :: nat where "VIRTIO_BALLOON_F_STATS_VQ = 1"
definition VIRTIO_BALLOON_F_DEFLATE_ON_OOM :: nat where "VIRTIO_BALLOON_F_DEFLATE_ON_OOM = 2"
definition VIRTIO_F_VERSION_1 :: nat where "VIRTIO_F_VERSION_1 = 32"
definition TYPE_BALLOON :: u32 where "TYPE_BALLOON = 5"

datatype 'io RemoveRegionError =
  AddressTranslation | MalformedRange | MadviseFail 'io | MmapFail 'io | RegionNotFound

datatype ('ge, 'io) BalloonError =
  BE_EventFd 'io | DeviceNotActive | InterruptError 'io | MalformedDescriptor | MalformedPayload
  | StatisticsStateChange | TooManyPagesRequested | BE_Queue "'ge QueueError" | BE_Timer 'io

definition mib_to_pages :: "u32 \<Rightarrow> ('ge, 'io) BalloonError + u32" where
  "mib_to_pages amount_mib =
     (if unat amount_mib * unat MIB_TO_4K_PAGES < 2 ^ 32 then Ok (amount_mib * MIB_TO_4K_PAGES)
      else Err TooManyPagesRequested)"

definition pages_to_mib :: "u32 \<Rightarrow> u32" where
  "pages_to_mib amount_pages = amount_pages div MIB_TO_4K_PAGES"

record ConfigSpace =
  num_pages :: u32
  actual_pages :: u32

record BalloonStat =
  stat_tag :: u16
  stat_val :: u64

record BalloonConfig =
  bc_amount_mib :: u32
  bc_deflate_on_oom :: bool
  bc_stats_polling_interval_s :: u16

record BalloonStats =
  target_pages :: u32
  bs_actual_pages :: u32
  target_mib :: u32
  actual_mib :: u32
  swap_in :: "u64 option"
  swap_out :: "u64 option"
  major_faults :: "u64 option"
  minor_faults :: "u64 option"
  free_memory :: "u64 option"
  total_memory :: "u64 option"
  available_memory :: "u64 option"
  disk_caches :: "u64 option"
  hugetlb_allocations :: "u64 option"
  hugetlb_failures :: "u64 option"

definition BalloonStats_default :: BalloonStats where
  "BalloonStats_default =
     \<lparr>target_pages = 0, bs_actual_pages = 0, target_mib = 0, actual_mib = 0, swap_in = None,
      swap_out = None, major_faults = None, minor_faults = None, free_memory = None,
      total_memory = None, available_memory = None, disk_caches = None, hugetlb_allocations = None,
      hugetlb_failures = None\<rparr>"

definition update_with_stat ::
  "BalloonStats \<Rightarrow> BalloonStat \<Rightarrow> BalloonStats \<times> (('ge, 'io) BalloonError + unit)" where
  "update_with_stat s stat =
     (let val = Some (stat_val stat); tag = stat_tag stat
      in if tag = 0 then (s\<lparr>swap_in := val\<rparr>, Ok ())
         else if tag = 1 then (s\<lparr>swap_out := val\<rparr>, Ok ())
         else if tag = 2 then (s\<lparr>major_faults := val\<rparr>, Ok ())
         else if tag = 3 then (s\<lparr>minor_faults := val\<rparr>, Ok ())
         else if tag = 4 then (s\<lparr>free_memory := val\<rparr>, Ok ())
         else if tag = 5 then (s\<lparr>total_memory := val\<rparr>, Ok ())
         else if tag = 6 then (s\<lparr>available_memory := val\<rparr>, Ok ())
         else if tag = 7 then (s\<lparr>disk_caches := val\<rparr>, Ok ())
         else if tag = 8 then (s\<lparr>hugetlb_allocations := val\<rparr>, Ok ())
         else if tag = 9 then (s\<lparr>hugetlb_failures := val\<rparr>, Ok ())
         else (s, Err MalformedPayload))"

record ('e, 't) Balloon =
  bl_avail_features :: u64
  bl_acked_features :: u64
  bl_config_space :: ConfigSpace
  bl_activate_evt :: 'e
  bl_queues :: "Queue list"
  bl_queue_evts :: "'e list"
  bl_device_state :: DeviceState
  bl_irq_trigger :: "'e IrqTrigger"
  bl_restored :: bool
  bl_stats_polling_interval_s :: u16
  bl_stats_timer :: 't
  bl_stats_desc_index :: "u16 option"
  bl_latest_stats :: BalloonStats
  bl_pfn_buffer :: "u32 list"

text \<open>
  What the device uses of the host: event and timer descriptors, the regions of guest memory and the
  two calls that give pages back. \<open>find_region\<close> gives the start and the length of a region.
\<close>

record ('e, 'io, 't, 'm, 'ge) BalloonEnv =
  be_evt_write :: "('e, 'io) evt_write"
  be_evt_read :: "'e \<Rightarrow> 'e \<times> ('io + u64)"
  be_timer_read :: "'t \<Rightarrow> 't"
  be_timer_set_periodic :: "'t \<Rightarrow> u64 \<Rightarrow> 't"
  find_region :: "'m \<Rightarrow> u64 \<Rightarrow> (u64 \<times> u64) option"
  get_host_address :: "'m \<Rightarrow> u64 \<Rightarrow> 'ge + u64"
  host_mmap :: "'m \<Rightarrow> u64 \<Rightarrow> u64 \<Rightarrow> 'm \<times> ('io + unit)"
  host_madvise :: "'m \<Rightarrow> u64 \<Rightarrow> u64 \<Rightarrow> 'm \<times> ('io + unit)"

section \<open>Ranges of pages\<close>

function compact_loop :: "u32 list \<Rightarrow> nat \<Rightarrow> nat \<Rightarrow> u32 \<Rightarrow> (u32 \<times> u32) list \<Rightarrow> (u32 \<times> u32) list" where
  "compact_loop v pfn_index previous len result =
     (if pfn_index < length v
      then let page_frame_number = v ! pfn_index
           in if page_frame_number = v ! (pfn_index - 1)
              then compact_loop v (Suc pfn_index) previous len result
              else if page_frame_number = v ! previous + len
              then compact_loop v (Suc pfn_index) previous (len + 1) result
              else compact_loop v (Suc pfn_index) pfn_index 1 (result @ [(v ! previous, len)])
      else result @ [(v ! previous, len)])"
  by pat_completeness auto
termination by (relation "measure (\<lambda>(v, i, _). length v - i)") auto

declare compact_loop.simps [simp del]

text \<open>The slice is sorted in place: it is returned along with the ranges.\<close>

definition compact_page_frame_numbers :: "u32 list \<Rightarrow> u32 list \<times> (u32 \<times> u32) list" where
  "compact_page_frame_numbers v =
     (if v = [] then (v, [])
      else let v = sort v in (v, compact_loop v 1 0 1 []))"

definition remove_range ::
  "('e, 'io, 't, 'm, 'ge) BalloonEnv \<Rightarrow> 'm \<Rightarrow> u64 \<times> u64 \<Rightarrow> bool \<Rightarrow> 'm \<times> ('io RemoveRegionError + unit)" where
  "remove_range E m rng restored =
     (let (guest_address, range_len) = rng
      in case find_region E m guest_address of
           None \<Rightarrow> (m, Err RegionNotFound)
         | Some (start, len) \<Rightarrow>
             if guest_address + range_len > start + len then (m, Err MalformedRange)
             else (case get_host_address E m guest_address of
                     Inl _ \<Rightarrow> (m, Err AddressTranslation)
                   | Inr phys_address \<Rightarrow>
                       (case (if restored then host_mmap E m phys_address range_len else (m, Ok ())) of
                          (m, Inl e) \<Rightarrow> (m, Err (MmapFail e))
                        | (m, Inr _) \<Rightarrow>
                            (case host_madvise E m phys_address range_len of
                               (m, Inl e) \<Rightarrow> (m, Err (MadviseFail e))
                             | (m, Inr _) \<Rightarrow> (m, Ok ())))))"

fun remove_ranges ::
  "('e, 'io, 't, 'm, 'ge) BalloonEnv \<Rightarrow> bool \<Rightarrow> (u32 \<times> u32) list \<Rightarrow> 'm \<Rightarrow> 'm" where
  "remove_ranges E restored [] m = m"
| "remove_ranges E restored ((page_frame_number, range_len) # rs) m =
     (let guest_addr = push_bit VIRTIO_BALLOON_PFN_SHIFT (ucast page_frame_number);
          m = fst (remove_range E m (guest_addr, push_bit VIRTIO_BALLOON_PFN_SHIFT (ucast range_len)) restored)
      in remove_ranges E restored rs m)"

section \<open>The device\<close>

text \<open>
  The results of the fallible constructors of descriptors are arguments: those of the three queue
  events, of the statistics timer, of the interrupt event and of the activation event.
\<close>

definition balloon_new ::
  "'io + 'e \<Rightarrow> 'io + 'e \<Rightarrow> 'io + 'e \<Rightarrow> 'io + 't \<Rightarrow> 'io + 'e \<Rightarrow> 'io + 'e \<Rightarrow> u32 \<Rightarrow> bool \<Rightarrow> u16 \<Rightarrow> bool \<Rightarrow>
   ('ge, 'io) BalloonError + ('e, 't) Balloon" where
  "balloon_new qe0 qe1 qe2 timer irq act amount_mib deflate_on_oom stats_polling_interval_s restored =
     (let avail_features = push_bit VIRTIO_F_VERSION_1 1;
          avail_features = (if deflate_on_oom then avail_features OR push_bit VIRTIO_BALLOON_F_DEFLATE_ON_OOM 1
                            else avail_features);
          avail_features = (if stats_polling_interval_s > 0
                            then avail_features OR push_bit VIRTIO_BALLOON_F_STATS_VQ 1 else avail_features)
      in rbind (map_sum BE_EventFd id qe0) (\<lambda>qe0. rbind (map_sum BE_EventFd id qe1) (\<lambda>qe1.
         rbind (map_sum BE_EventFd id qe2) (\<lambda>qe2.
           let queues = map queue_new [QUEUE_SIZE_BALLOON, QUEUE_SIZE_BALLOON, QUEUE_SIZE_BALLOON];
               queues = (if stats_polling_interval_s = 0
                         then take STATS_INDEX queues @ drop (Suc STATS_INDEX) queues else queues)
           in rbind (map_sum BE_Timer id timer) (\<lambda>stats_timer.
              rbind (mib_to_pages amount_mib) (\<lambda>pages.
              rbind (map_sum BE_EventFd id irq) (\<lambda>irq.
              rbind (map_sum BE_EventFd id act) (\<lambda>act.
                Ok \<lparr>bl_avail_features = avail_features, bl_acked_features = 0,
                    bl_config_space = \<lparr>num_pages = pages, actual_pages = 0\<rparr>, bl_activate_evt = act,
                    bl_queues = queues, bl_queue_evts = [qe0, qe1, qe2], bl_device_state = Inactive,
                    bl_irq_trigger = irq_trigger_new irq, bl_restored = restored,
                    bl_stats_polling_interval_s = stats_polling_interval_s, bl_stats_timer = stats_timer,
                    bl_stats_desc_index = None, bl_latest_stats = BalloonStats_default,
                    bl_pfn_buffer = replicate MAX_PAGE_COMPACT_BUFFER 0\<rparr>))))))))"

text \<open>What the inflate loop does with a descriptor.\<close>

datatype InflateAct = Skip | BufferFull | Malformed | Ack

fun inflate_read ::
  "('m, 'ge) GuestMemory \<Rightarrow> 'm \<Rightarrow> u64 \<Rightarrow> nat list \<Rightarrow> u32 list \<Rightarrow> nat \<Rightarrow> (u32 list \<times> nat \<times> InflateAct) exec" where
  "inflate_read G m head_addr [] buf idx = Done (buf, idx, Ack)"
| "inflate_read G m head_addr (index # is) buf idx =
     (case checked_add head_addr (of_nat index) of
        None \<Rightarrow> Done (buf, idx, Malformed)
      | Some addr \<Rightarrow>
          (case read_u32 G m addr of
             Inl _ \<Rightarrow> Done (buf, idx, Malformed)
           | Inr page_frame_number \<Rightarrow>
               if idx < length buf
               then inflate_read G m head_addr is (buf[idx := page_frame_number]) (Suc idx)
               else Panic))"

definition inflate_head ::
  "('m, 'ge) GuestMemory \<Rightarrow> 'm \<Rightarrow> DescriptorChain \<Rightarrow> u32 list \<Rightarrow> nat \<Rightarrow> (u32 list \<times> nat \<times> InflateAct) exec" where
  "inflate_head G m head buf idx =
     (let len = unat (dc_len head);
          max_len = MAX_PAGES_IN_DESC * 4
      in if \<not> is_write_only head \<and> len mod 4 = 0
         then if len > max_len then Done (buf, idx, Skip)
              else if MAX_PAGE_COMPACT_BUFFER - idx < len div 4 then Done (buf, idx, BufferFull)
              else inflate_read G m (dc_addr head) (map ((*) 4) [0..<len div 4]) buf idx
         else Done (buf, idx, Ack))"

partial_function (option) inflate_inner ::
  "('m, 'ge) GuestMemory \<Rightarrow> 'm \<Rightarrow> Queue \<Rightarrow> u32 list \<Rightarrow> nat \<Rightarrow> bool \<Rightarrow> bool \<Rightarrow>
   (Queue \<times> 'm \<times> u32 list \<times> nat \<times> bool \<times> bool \<times> (('ge, 'io) BalloonError + unit)) exec option" where
  "inflate_inner G m q buf idx needs_interrupt valid_descs_found =
     (case queue_pop G m q of
        Panic \<Rightarrow> Some Panic
      | Done (q, None) \<Rightarrow> Some (Done (q, m, buf, idx, needs_interrupt, valid_descs_found, Ok ()))
      | Done (q, Some head) \<Rightarrow>
          (case inflate_head G m head buf idx of
             Panic \<Rightarrow> Some Panic
           | Done (buf, idx, Skip) \<Rightarrow> inflate_inner G m q buf idx needs_interrupt True
           | Done (buf, idx, BufferFull) \<Rightarrow>
               Some (Done (undo_pop q, m, buf, idx, needs_interrupt, True, Ok ()))
           | Done (buf, idx, Malformed) \<Rightarrow>
               Some (Done (q, m, buf, idx, needs_interrupt, True, Err MalformedDescriptor))
           | Done (buf, idx, Ack) \<Rightarrow>
               (case add_used G m q (dc_index head) 0 of
                  Panic \<Rightarrow> Some Panic
                | Done (q, m, Inl e) \<Rightarrow> Some (Done (q, m, buf, idx, needs_interrupt, True, Err (BE_Queue e)))
                | Done (q, m, Inr _) \<Rightarrow> inflate_inner G m q buf idx True True)))"

partial_function (option) inflate_outer ::
  "('e, 'io, 't, 'm, 'ge) BalloonEnv \<Rightarrow> ('m, 'ge) GuestMemory \<Rightarrow> bool \<Rightarrow> 'm \<Rightarrow> Queue \<Rightarrow> u32 list \<Rightarrow> bool \<Rightarrow>
   (Queue \<times> 'm \<times> u32 list \<times> (('ge, 'io) BalloonError + bool)) exec option" where
  "inflate_outer E G restored m q buf needs_interrupt =
     (case inflate_inner G m q buf 0 needs_interrupt False of
        None \<Rightarrow> None
      | Some Panic \<Rightarrow> Some Panic
      | Some (Done (q, m, buf, idx, needs_interrupt, valid_descs_found, Inl e)) \<Rightarrow> Some (Done (q, m, buf, Err e))
      | Some (Done (q, m, buf, idx, needs_interrupt, valid_descs_found, Inr _)) \<Rightarrow>
          (let (v, page_ranges) = compact_page_frame_numbers (take idx buf);
               buf = v @ drop idx buf;
               m = remove_ranges E restored page_ranges m
           in if valid_descs_found then inflate_outer E G restored m q buf needs_interrupt
              else Some (Done (q, m, buf, Ok needs_interrupt))))"

definition signal_used_queue ::
  "('e, 'io, 't, 'm, 'ge) BalloonEnv \<Rightarrow> ('e, 't) Balloon \<Rightarrow> ('e, 't) Balloon \<times> (('ge, 'io) BalloonError + unit)" where
  "signal_used_queue E b =
     (let (t, r) = trigger_irq (be_evt_write E) (bl_irq_trigger b) Vring
      in (b\<lparr>bl_irq_trigger := t\<rparr>, map_sum InterruptError id r))"

text \<open>
  A handler that returns gives the device, the memory and its result; \<open>None\<close> is a handler that does
  not return.
\<close>

type_synonym ('e, 't, 'm, 'ge, 'io) handler_result =
  "(('e, 't) Balloon \<times> 'm \<times> (('ge, 'io) BalloonError + unit)) exec option"

definition process_inflate ::
  "('e, 'io, 't, 'm, 'ge) BalloonEnv \<Rightarrow> ('m, 'ge) GuestMemory \<Rightarrow> 'm \<Rightarrow> ('e, 't) Balloon \<Rightarrow>
   ('e, 't, 'm, 'ge, 'io) handler_result" where
  "process_inflate E G m b =
     (if \<not> state_is_activated (bl_device_state b) \<or> length (bl_queues b) \<le> INFLATE_INDEX then Some Panic
      else case inflate_outer E G (bl_restored b) m (bl_queues b ! INFLATE_INDEX) (bl_pfn_buffer b) False of
             None \<Rightarrow> None
           | Some Panic \<Rightarrow> Some Panic
           | Some (Done (q, m, buf, r)) \<Rightarrow>
               (let b = b\<lparr>bl_queues := (bl_queues b)[INFLATE_INDEX := q], bl_pfn_buffer := buf\<rparr>
                in case r of
                     Inl e \<Rightarrow> Some (Done (b, m, Err e))
                   | Inr needs_interrupt \<Rightarrow>
                       if needs_interrupt
                       then let (b, r) = signal_used_queue E b in Some (Done (b, m, r))
                       else Some (Done (b, m, Ok ()))))"

partial_function (option) deflate_loop ::
  "('m, 'ge) GuestMemory \<Rightarrow> 'm \<Rightarrow> Queue \<Rightarrow> bool \<Rightarrow>
   (Queue \<times> 'm \<times> (('ge, 'io) BalloonError + bool)) exec option" where
  "deflate_loop G m q needs_interrupt =
     (case queue_pop G m q of
        Panic \<Rightarrow> Some Panic
      | Done (q, None) \<Rightarrow> Some (Done (q, m, Ok needs_interrupt))
      | Done (q, Some head) \<Rightarrow>
          (case add_used G m q (dc_index head) 0 of
             Panic \<Rightarrow> Some Panic
           | Done (q, m, Inl e) \<Rightarrow> Some (Done (q, m, Err (BE_Queue e)))
           | Done (q, m, Inr _) \<Rightarrow> deflate_loop G m q True))"

definition process_deflate_queue ::
  "('e, 'io, 't, 'm, 'ge) BalloonEnv \<Rightarrow> ('m, 'ge) GuestMemory \<Rightarrow> 'm \<Rightarrow> ('e, 't) Balloon \<Rightarrow>
   ('e, 't, 'm, 'ge, 'io) handler_result" where
  "process_deflate_queue E G m b =
     (if \<not> state_is_activated (bl_device_state b) \<or> length (bl_queues b) \<le> DEFLATE_INDEX then Some Panic
      else case deflate_loop G m (bl_queues b ! DEFLATE_INDEX) False of
             None \<Rightarrow> None
           | Some Panic \<Rightarrow> Some Panic
           | Some (Done (q, m, r)) \<Rightarrow>
               (let b = b\<lparr>bl_queues := (bl_queues b)[DEFLATE_INDEX := q]\<rparr>
                in case r of
                     Inl e \<Rightarrow> Some (Done (b, m, Err e))
                   | Inr needs_interrupt \<Rightarrow>
                       if needs_interrupt
                       then let (b, r) = signal_used_queue E b in Some (Done (b, m, r))
                       else Some (Done (b, m, Ok ()))))"

definition BalloonStat_from_bytes :: "u8 list \<Rightarrow> BalloonStat" where
  "BalloonStat_from_bytes bs = \<lparr>stat_tag = le_word (take 2 bs), stat_val = le_word (drop 2 bs)\<rparr>"

fun read_stats ::
  "('m, 'ge) GuestMemory \<Rightarrow> 'm \<Rightarrow> u64 \<Rightarrow> nat list \<Rightarrow> BalloonStats \<Rightarrow>
   BalloonStats \<times> (('ge, 'io) BalloonError + unit)" where
  "read_stats G m head_addr [] s = (s, Ok ())"
| "read_stats G m head_addr (index # is) s =
     (case checked_add head_addr (of_nat index) of
        None \<Rightarrow> (s, Err MalformedDescriptor)
      | Some addr \<Rightarrow>
          (case gm_read G m addr 10 of
             Inl _ \<Rightarrow> (s, Err MalformedDescriptor)
           | Inr bs \<Rightarrow>
               (case update_with_stat s (BalloonStat_from_bytes bs) of
                  (s, Inl (_ :: ('ge, 'io) BalloonError)) \<Rightarrow> (s, Err MalformedPayload)
                | (s, Inr _) \<Rightarrow> read_stats G m head_addr is s)))"

partial_function (option) stats_loop ::
  "('m, 'ge) GuestMemory \<Rightarrow> 'm \<Rightarrow> Queue \<Rightarrow> u16 option \<Rightarrow> BalloonStats \<Rightarrow>
   (Queue \<times> 'm \<times> u16 option \<times> BalloonStats \<times> (('ge, 'io) BalloonError + unit)) exec option" where
  "stats_loop G m q stats_desc_index latest_stats =
     (case queue_pop G m q of
        Panic \<Rightarrow> Some Panic
      | Done (q, None) \<Rightarrow> Some (Done (q, m, stats_desc_index, latest_stats, Ok ()))
      | Done (q, Some head) \<Rightarrow>
          (case (case stats_desc_index of
                   Some prev_stats_desc \<Rightarrow> add_used G m q prev_stats_desc 0
                 | None \<Rightarrow> Done (q, m, Ok ())) of
             Panic \<Rightarrow> Some Panic
           | Done (q, m, Inl e) \<Rightarrow> Some (Done (q, m, stats_desc_index, latest_stats, Err (BE_Queue e)))
           | Done (q, m, Inr _) \<Rightarrow>
               (case read_stats G m (dc_addr head) (map ((*) 10) [0..<(unat (dc_len head) + 9) div 10]) latest_stats of
                  (latest_stats, Inl e) \<Rightarrow> Some (Done (q, m, stats_desc_index, latest_stats, Err e))
                | (latest_stats, Inr _) \<Rightarrow> stats_loop G m q (Some (dc_index head)) latest_stats)))"

definition process_stats_queue ::
  "('m, 'ge) GuestMemory \<Rightarrow> 'm \<Rightarrow> ('e, 't) Balloon \<Rightarrow> ('e, 't, 'm, 'ge, 'io) handler_result" where
  "process_stats_queue G m b =
     (if \<not> state_is_activated (bl_device_state b) \<or> length (bl_queues b) \<le> STATS_INDEX then Some Panic
      else case stats_loop G m (bl_queues b ! STATS_INDEX) (bl_stats_desc_index b) (bl_latest_stats b) of
             None \<Rightarrow> None
           | Some Panic \<Rightarrow> Some Panic
           | Some (Done (q, m, i, s, r)) \<Rightarrow>
               Some (Done (b\<lparr>bl_queues := (bl_queues b)[STATS_INDEX := q], bl_stats_desc_index := i,
                             bl_latest_stats := s\<rparr>, m, r)))"

definition process_virtio_queues ::
  "('e, 'io, 't, 'm, 'ge) BalloonEnv \<Rightarrow> ('m, 'ge) GuestMemory \<Rightarrow> 'm \<Rightarrow> ('e, 't) Balloon \<Rightarrow>
   (('e, 't) Balloon \<times> 'm) exec option" where
  "process_virtio_queues E G m b =
     (case process_inflate E G m b of
        None \<Rightarrow> None
      | Some Panic \<Rightarrow> Some Panic
      | Some (Done (b, m, _)) \<Rightarrow>
          (case process_deflate_queue E G m b of
             None \<Rightarrow> None
           | Some Panic \<Rightarrow> Some Panic
           | Some (Done (b, m, _)) \<Rightarrow> Some (Done (b, m))))"

definition trigger_stats_update ::
  "('e, 'io, 't, 'm, 'ge) BalloonEnv \<Rightarrow> ('m, 'ge) GuestMemory \<Rightarrow> 'm \<Rightarrow> ('e, 't) Balloon \<Rightarrow>
   (('e, 't) Balloon \<times> 'm \<times> (('ge, 'io) BalloonError + unit)) exec" where
  "trigger_stats_update E G m b =
     (if \<not> state_is_activated (bl_device_state b) then Panic
      else case bl_stats_desc_index b of
             None \<Rightarrow> Done (b, m, Ok ())
           | Some index \<Rightarrow>
               (let b = b\<lparr>bl_stats_desc_index := None\<rparr>
                in if length (bl_queues b) \<le> STATS_INDEX then Panic
                   else ebind (add_used G m (bl_queues b ! STATS_INDEX) index 0) (\<lambda>(q, m, r).
                     let b = b\<lparr>bl_queues := (bl_queues b)[STATS_INDEX := q]\<rparr>
                     in case r of
                          Inl e \<Rightarrow> Done (b, m, Err (BE_Queue e))
                        | Inr _ \<Rightarrow> let (b, r) = signal_used_queue E b in Done (b, m, r))))"

definition read_queue_evt ::
  "('e, 'io, 't, 'm, 'ge) BalloonEnv \<Rightarrow> nat \<Rightarrow> ('e, 't) Balloon \<Rightarrow>
   (('e, 't) Balloon \<times> (('ge, 'io) BalloonError + unit))" where
  "read_queue_evt E i b =
     (case be_evt_read E (bl_queue_evts b ! i) of
        (e, Inl err) \<Rightarrow> (b\<lparr>bl_queue_evts := (bl_queue_evts b)[i := e]\<rparr>, Err (BE_EventFd err))
      | (e, Inr _) \<Rightarrow> (b\<lparr>bl_queue_evts := (bl_queue_evts b)[i := e]\<rparr>, Ok ()))"

definition process_inflate_queue_event ::
  "('e, 'io, 't, 'm, 'ge) BalloonEnv \<Rightarrow> ('m, 'ge) GuestMemory \<Rightarrow> 'm \<Rightarrow> ('e, 't) Balloon \<Rightarrow>
   ('e, 't, 'm, 'ge, 'io) handler_result" where
  "process_inflate_queue_event E G m b =
     (case read_queue_evt E INFLATE_INDEX b of
        (b, Inl e) \<Rightarrow> Some (Done (b, m, Err e))
      | (b, Inr _) \<Rightarrow> process_inflate E G m b)"

definition process_deflate_queue_event ::
  "('e, 'io, 't, 'm, 'ge) BalloonEnv \<Rightarrow> ('m, 'ge) GuestMemory \<Rightarrow> 'm \<Rightarrow> ('e, 't) Balloon \<Rightarrow>
   ('e, 't, 'm, 'ge, 'io) handler_result" where
  "process_deflate_queue_event E G m b =
     (case read_queue_evt E DEFLATE_INDEX b of
        (b, Inl e) \<Rightarrow> Some (Done (b, m, Err e))
      | (b, Inr _) \<Rightarrow> process_deflate_queue E G m b)"

definition process_stats_queue_event ::
  "('e, 'io, 't, 'm, 'ge) BalloonEnv \<Rightarrow> ('m, 'ge) GuestMemory \<Rightarrow> 'm \<Rightarrow> ('e, 't) Balloon \<Rightarrow>
   ('e, 't, 'm, 'ge, 'io) handler_result" where
  "process_stats_queue_event E G m b =
     (case read_queue_evt E STATS_INDEX b of
        (b, Inl e) \<Rightarrow> Some (Done (b, m, Err e))
      | (b, Inr _) \<Rightarrow> process_stats_queue G m b)"

definition process_stats_timer_event ::
  "('e, 'io, 't, 'm, 'ge) BalloonEnv \<Rightarrow> ('m, 'ge) GuestMemory \<Rightarrow> 'm \<Rightarrow> ('e, 't) Balloon \<Rightarrow>
   (('e, 't) Balloon \<times> 'm \<times> (('ge, 'io) BalloonError + unit)) exec" where
  "process_stats_timer_event E G m b =
     trigger_stats_update E G m (b\<lparr>bl_stats_timer := be_timer_read E (bl_stats_timer b)\<rparr>)"

definition update_timer_state ::
  "('e, 'io, 't, 'm, 'ge) BalloonEnv \<Rightarrow> ('e, 't) Balloon \<Rightarrow> ('e, 't) Balloon" where
  "update_timer_state E b =
     b\<lparr>bl_stats_timer := be_timer_set_periodic E (bl_stats_timer b) (ucast (bl_stats_polling_interval_s b))\<rparr>"

definition update_stats_polling_interval ::
  "('e, 'io, 't, 'm, 'ge) BalloonEnv \<Rightarrow> ('m, 'ge) GuestMemory \<Rightarrow> 'm \<Rightarrow> ('e, 't) Balloon \<Rightarrow> u16 \<Rightarrow>
   (('e, 't) Balloon \<times> 'm \<times> (('ge, 'io) BalloonError + unit)) exec" where
  "update_stats_polling_interval E G m b interval_s =
     (if bl_stats_polling_interval_s b = interval_s then Done (b, m, Ok ())
      else if bl_stats_polling_interval_s b = 0 \<or> interval_s = 0 then Done (b, m, Err StatisticsStateChange)
      else ebind (trigger_stats_update E G m b) (\<lambda>(b, m, r).
        case r of
          Inl e \<Rightarrow> Done (b, m, Err e)
        | Inr _ \<Rightarrow> Done (update_timer_state E (b\<lparr>bl_stats_polling_interval_s := interval_s\<rparr>), m, Ok ())))"

definition update_size ::
  "('e, 'io, 't, 'm, 'ge) BalloonEnv \<Rightarrow> ('e, 't) Balloon \<Rightarrow> u32 \<Rightarrow>
   ('e, 't) Balloon \<times> (('ge, 'io) BalloonError + unit)" where
  "update_size E b amount_mib =
     (if state_is_activated (bl_device_state b)
      then case mib_to_pages amount_mib of
             Inl e \<Rightarrow> (b, Err e)
           | Inr pages \<Rightarrow>
               (let b = b\<lparr>bl_config_space := (bl_config_space b)\<lparr>num_pages := pages\<rparr>\<rparr>;
                    (t, r) = trigger_irq (be_evt_write E) (bl_irq_trigger b) Config
                in (b\<lparr>bl_irq_trigger := t\<rparr>, map_sum InterruptError id r))
      else (b, Err DeviceNotActive))"

definition size_mb :: "('e, 't) Balloon \<Rightarrow> u32" where
  "size_mb b = pages_to_mib (num_pages (bl_config_space b))"

definition deflate_on_oom :: "('e, 't) Balloon \<Rightarrow> bool" where
  "deflate_on_oom b \<longleftrightarrow> bl_avail_features b AND push_bit VIRTIO_BALLOON_F_DEFLATE_ON_OOM 1 \<noteq> 0"

definition stats_enabled :: "('e, 't) Balloon \<Rightarrow> bool" where
  "stats_enabled b \<longleftrightarrow> bl_stats_polling_interval_s b > 0"

definition latest_stats :: "('e, 't) Balloon \<Rightarrow> ('e, 't) Balloon \<times> BalloonStats option" where
  "latest_stats b =
     (if stats_enabled b
      then let s = (bl_latest_stats b)\<lparr>target_pages := num_pages (bl_config_space b),
                     bs_actual_pages := actual_pages (bl_config_space b)\<rparr>;
               s = s\<lparr>target_mib := pages_to_mib (target_pages s), actual_mib := pages_to_mib (bs_actual_pages s)\<rparr>
           in (b\<lparr>bl_latest_stats := s\<rparr>, Some s)
      else (b, None))"

definition balloon_config :: "('e, 't) Balloon \<Rightarrow> BalloonConfig" where
  "balloon_config b =
     \<lparr>bc_amount_mib = size_mb b, bc_deflate_on_oom = deflate_on_oom b,
      bc_stats_polling_interval_s = bl_stats_polling_interval_s b\<rparr>"

definition set_stats_desc_index :: "('e, 't) Balloon \<Rightarrow> u16 option \<Rightarrow> ('e, 't) Balloon" where
  "set_stats_desc_index b i = b\<lparr>bl_stats_desc_index := i\<rparr>"

section \<open>The balloon as a virtio device\<close>

definition config_space_bytes :: "ConfigSpace \<Rightarrow> u8 list" where
  "config_space_bytes c = le_bytes 4 (num_pages c) @ le_bytes 4 (actual_pages c)"

definition config_space_of_bytes :: "u8 list \<Rightarrow> ConfigSpace" where
  "config_space_of_bytes bs = \<lparr>num_pages = le_word (take 4 bs), actual_pages = le_word (drop 4 bs)\<rparr>"

definition balloon_activate ::
  "('e, 'io, 't, 'm, 'ge) BalloonEnv \<Rightarrow> ('e, 't) Balloon \<Rightarrow> ('e, 't) Balloon \<times> ('io ActivateError + unit)" where
  "balloon_activate E b =
     (let b = b\<lparr>bl_device_state := Activated\<rparr>
      in case be_evt_write E (bl_activate_evt b) 1 of
           (e, Inl _) \<Rightarrow> (b\<lparr>bl_activate_evt := e, bl_device_state := Inactive\<rparr>, Err BadActivate)
         | (e, Inr _) \<Rightarrow>
             (let b = b\<lparr>bl_activate_evt := e\<rparr>
              in (if stats_enabled b then update_timer_state E b else b, Ok ())))"

definition balloon_device :: "('e, 'io, 't, 'm, 'ge) BalloonEnv \<Rightarrow> (('e, 't) Balloon, 'io) VirtioDevice" where
  "balloon_device E =
     \<lparr>avail_features = bl_avail_features,
      acked_features = bl_acked_features,
      set_acked_features = (\<lambda>b f. b\<lparr>bl_acked_features := f\<rparr>),
      device_type = (\<lambda>_. TYPE_BALLOON),
      queues = bl_queues,
      queues_mut = (\<lambda>b qs. b\<lparr>bl_queues := qs\<rparr>),
      interrupt_status = (\<lambda>b. irq_status (bl_irq_trigger b)),
      set_interrupt_status = (\<lambda>b s. b\<lparr>bl_irq_trigger := (bl_irq_trigger b)\<lparr>irq_status := s\<rparr>\<rparr>),
      read_config = (\<lambda>b. config_read (config_space_bytes (bl_config_space b))),
      write_config = (\<lambda>b offset data.
        ebind (config_write (config_space_bytes (bl_config_space b)) offset data)
          (\<lambda>bs. Done (b\<lparr>bl_config_space := config_space_of_bytes bs\<rparr>))),
      activate = balloon_activate E,
      is_activated = (\<lambda>b. state_is_activated (bl_device_state b)),
      device_reset = default_reset\<rparr>"

interpretation balloon: virtio_device "balloon_device E" for E
proof
  fix b b' r
  assume "activate (balloon_device E) b = (b', r)"
  then show "avail_features (balloon_device E) b' = avail_features (balloon_device E) b
    \<and> acked_features (balloon_device E) b' = acked_features (balloon_device E) b
    \<and> list_all2 same_setup (queues (balloon_device E) b) (queues (balloon_device E) b')"
    by (auto simp: balloon_device_def balloon_activate_def update_timer_state_def Let_def
        split: prod.splits sum.splits if_splits)
qed (auto simp: balloon_device_def device_view_def balloon_activate_def state_is_activated_def
    update_timer_state_def default_reset_def exec_simps Let_def split: prod.splits sum.splits if_splits)

section \<open>Compaction gives the pages\<close>

text \<open>The pages of a list of ranges, in order.\<close>

definition pages_of :: "(u32 \<times> u32) list \<Rightarrow> nat list" where
  "pages_of rs = concat (map (\<lambda>(s, n). [unat s..<unat s + unat n]) rs)"

text \<open>Ranges are not empty and do not touch.\<close>

fun separated :: "(u32 \<times> u32) list \<Rightarrow> bool" where
  "separated [] \<longleftrightarrow> True"
| "separated [(s, n)] \<longleftrightarrow> n \<noteq> 0"
| "separated ((s, n) # (s', n') # rs) \<longleftrightarrow> n \<noteq> 0 \<and> unat s + unat n < unat s' \<and> separated ((s', n') # rs)"

lemma separated_snoc:
  "separated (rs @ [(s, n)]) \<Longrightarrow> unat s + unat n < unat s' \<Longrightarrow> n' \<noteq> 0 \<Longrightarrow> separated (rs @ [(s, n), (s', n')])"
  by (induction rs rule: separated.induct) auto

lemma separated_last: "separated (rs @ [(s, n)]) \<Longrightarrow> n' \<noteq> 0 \<Longrightarrow> separated (rs @ [(s, n')])"
  by (induction rs rule: separated.induct) auto

lemma compact_loop_correct:
  assumes "sorted v" and "length v < 2 ^ 32" and "0 < i" and "i \<le> length v"
    and "unat (v ! p) + unat n = unat (v ! (i - 1)) + 1" and "unat n \<le> i"
    and "pages_of (rs @ [(v ! p, n)]) = remdups_adj (map unat (take i v))" and "separated (rs @ [(v ! p, n)])"
  shows "pages_of (compact_loop v i p n rs) = remdups_adj (map unat v) \<and> separated (compact_loop v i p n rs)"
  using assms
proof (induction v i p n rs rule: compact_loop.induct)
  case (1 v i p n rs)
  show ?case
  proof (cases "i < length v")
    case False
    then have "take i v = v" by simp
    with 1(10,11) show ?thesis using False by (subst (1 2) compact_loop.simps) simp
  next
    case True
    define x where "x = v ! i"
    define y where "y = v ! (i - 1)"
    have "y \<le> x" using sorted_nth_mono [OF 1(4), of "i - 1" i] True by (simp add: x_def y_def)
    obtain j where j: "i = Suc j" using 1(6) by (cases i) auto
    have "take (Suc i) v = take j v @ [y, x]" "take i v = take j v @ [y]"
      using True by (simp_all add: x_def y_def j take_Suc_conv_app_nth)
    then have rd: "remdups_adj (map unat (take (Suc i) v)) =
      remdups_adj (map unat (take i v)) @ (if x = y then [] else [unat x])"
      by (auto simp: remdups_adj_append_two word_unat_eq_iff)
    have i: "Suc i < 2 ^ 32" using True 1(5) by simp
    show ?thesis
    proof (cases "x = y")
      case True': True
      have eq: "compact_loop v i p n rs = compact_loop v (Suc i) p n rs"
        using True True' by (subst compact_loop.simps) (simp add: x_def y_def)
      show ?thesis unfolding eq
        by (rule 1(1) [OF True refl])
          (use 1(4-11) True True' rd in \<open>auto simp: x_def y_def\<close>)
    next
      case neq: False
      then have "unat y < unat x" using \<open>y \<le> x\<close> by (metis order_le_less word_less_nat_alt)
      then have small: "unat (v ! p) + unat n \<le> unat x" using 1(8) by (simp add: y_def)
      then have sum: "unat (v ! p + n) = unat (v ! p) + unat n"
        using unat_bound [of x] by (intro unat_add_small) simp
      show ?thesis
      proof (cases "x = v ! p + n")
        case adj: True
        have n1: "unat (n + 1) = unat n + 1" using 1(9) i unat_add_small [of n 1] by simp
        have eq: "compact_loop v i p n rs = compact_loop v (Suc i) p (n + 1) rs"
          using True neq adj by (subst compact_loop.simps) (simp add: x_def y_def)
        have "pages_of (rs @ [(v ! p, n + 1)]) = pages_of (rs @ [(v ! p, n)]) @ [unat x]"
          using n1 sum adj by (simp add: pages_of_def)
        then show ?thesis unfolding eq
          by (intro 1(2) [OF True refl])
            (use 1(4-11) True neq adj rd n1 sum separated_last [of rs "v ! p" n "n + 1"] in
              \<open>auto simp: x_def y_def word_unat_eq_iff\<close>)
      next
        case gap: False
        then have "unat (v ! p) + unat n < unat x"
          using small sum by (metis nat_less_le word_unat_eq_iff)
        have eq: "compact_loop v i p n rs = compact_loop v (Suc i) i 1 (rs @ [(v ! p, n)])"
          using True neq gap by (subst compact_loop.simps) (simp add: x_def y_def)
        show ?thesis unfolding eq
          by (rule 1(3) [OF True refl])
            (use 1(4-11) True neq gap rd \<open>unat (v ! p) + unat n < unat x\<close>
               separated_snoc [of rs "v ! p" n x 1] in \<open>auto simp: x_def y_def pages_of_def\<close>)
      qed
    qed
  qed
qed

lemma strict_remdups_adj: "sorted xs \<Longrightarrow> sorted_wrt (<) (remdups_adj (xs :: nat list))"
  by (induction xs rule: remdups_adj.induct) (auto simp: less_le)

lemma compact_correct:
  assumes "length v < 2 ^ 32" and "compact_page_frame_numbers v = (w, rs)"
  shows "w = sort v" and "pages_of rs = sorted_list_of_set (unat ` set v)" and "separated rs"
proof -
  show w: "w = sort v" using assms(2) by (auto simp: compact_page_frame_numbers_def Let_def split: if_split_asm)
  have "pages_of rs = remdups_adj (map unat (sort v)) \<and> separated rs"
  proof (cases "v = []")
    case True
    then show ?thesis using assms(2) by (simp add: compact_page_frame_numbers_def pages_of_def)
  next
    case False
    then have "length (sort v) > 0" by simp
    then obtain x xs where x: "sort v = x # xs" by (cases "sort v") auto
    have "rs = compact_loop (sort v) 1 0 1 []"
      using assms(2) False by (auto simp: compact_page_frame_numbers_def Let_def)
    moreover have "pages_of ([] @ [(sort v ! 0, 1)]) = remdups_adj (map unat (take 1 (sort v)))"
      by (simp add: x pages_of_def)
    ultimately show ?thesis
      using compact_loop_correct [of "sort v" 1 0 1 "[]"] assms(1) \<open>length (sort v) > 0\<close>
      by (simp add: Suc_le_eq)
  qed
  moreover have "sorted (map unat (sort v))"
    unfolding sorted_map by (rule sorted_wrt_mono_rel [OF _ sorted_sort]) (simp add: word_le_nat_alt)
  note strict = strict_remdups_adj [OF this]
  have "remdups_adj (map unat (sort v)) = sorted_list_of_set (unat ` set v)"
    using strict distinct_card [of "remdups_adj (map unat (sort v))"]
      sorted_list_of_set.sorted_key_list_of_set_unique [of "unat ` set v" "remdups_adj (map unat (sort v))"]
    by (simp add: strict_sorted_iff)
  ultimately show "pages_of rs = sorted_list_of_set (unat ` set v)" and "separated rs" by simp_all
qed

section \<open>The queues are served\<close>

text \<open>The heads before the first one that is no descriptor of the queue.\<close>

definition good_heads :: "('m, 'ge) GuestMemory \<Rightarrow> 'm \<Rightarrow> Queue \<Rightarrow> u16 list \<Rightarrow> u16 list" where
  "good_heads G m q = takeWhile (\<lambda>h. checked_new G m (q_desc_table q) (actual_size q) h \<noteq> None)"

text \<open>The page frame numbers a descriptor lists, and the descriptors an inflating driver sends.\<close>

definition desc_pfns :: "('m \<Rightarrow> u64 \<Rightarrow> u8) \<Rightarrow> 'm \<Rightarrow> DescriptorChain \<Rightarrow> u32 list" where
  "desc_pfns mb m dc = map (\<lambda>i. peek mb m 4 (dc_addr dc + of_nat (4 * i))) [0..<unat (dc_len dc) div 4]"

definition inflate_desc :: "('m, 'ge) GuestMemory \<Rightarrow> 'm \<Rightarrow> Queue \<Rightarrow> DescriptorChain \<Rightarrow> bool" where
  "inflate_desc G m q dc \<longleftrightarrow>
     \<not> is_write_only dc \<and> unat (dc_len dc) mod 4 = 0 \<and> unat (dc_len dc) \<le> 1024
     \<and> mapped G m (dc_addr dc) (unat (dc_len dc))
     \<and> disjoint_areas (q_used_ring q) (6 + 8 * entries q) (dc_addr dc) (unat (dc_len dc))"

definition head_desc :: "('m, 'ge) GuestMemory \<Rightarrow> 'm \<Rightarrow> Queue \<Rightarrow> u16 \<Rightarrow> DescriptorChain option" where
  "head_desc G m q h = checked_new G m (q_desc_table q) (actual_size q) h"

definition listed_pfns ::
  "('m, 'ge) GuestMemory \<Rightarrow> ('m \<Rightarrow> u64 \<Rightarrow> u8) \<Rightarrow> 'm \<Rightarrow> Queue \<Rightarrow> u16 list \<Rightarrow> u32 list" where
  "listed_pfns G mb m q hs = concat (map (\<lambda>h. desc_pfns mb m (the (head_desc G m q h))) hs)"

text \<open>Two memories that differ in the used ring of a queue at most.\<close>

definition only_used_ring ::
  "('m, 'ge) GuestMemory \<Rightarrow> ('m \<Rightarrow> u64 \<Rightarrow> u8) \<Rightarrow> Queue \<Rightarrow> 'm \<Rightarrow> 'm \<Rightarrow> bool" where
  "only_used_ring G mb q m m' \<longleftrightarrow> same_ranges G m m'
     \<and> (\<forall>a n. disjoint_areas (q_used_ring q) (6 + 8 * entries q) a n \<longrightarrow> same_bytes mb m m' a n)"

context guest_memory
begin

lemma deflate_serves:
  assumes "queue_ok G mem_byte seen k m q"
  defines "hs \<equiv> good_heads G m q (avail_heads mem_byte m q)"
  shows "\<exists>q' m'. deflate_loop G m q needs = Some (Done (q', m', Ok (needs \<or> hs \<noteq> [])))
    \<and> queue_ok G mem_byte seen k m' q'
    \<and> hs @ avail_heads mem_byte m' q' = avail_heads mem_byte m q
    \<and> used_entries mem_byte m' q' seen = used_entries mem_byte m q seen @ map (\<lambda>h. (ucast h, 0)) hs"
  using assms(1) unfolding hs_def
proof (induction "avail_heads mem_byte m q" arbitrary: m q needs)
  case Nil
  then show ?case
    using service_pop [OF Nil(2)] by (subst deflate_loop.simps) (simp add: good_heads_def flip: Nil(1))
next
  case (Cons h t)
  note ok = Cons.prems and heads = Cons.hyps(2) [symmetric]
  show ?case
  proof (cases "checked_new G m (q_desc_table q) (actual_size q) h")
    case None
    then show ?thesis
      using service_pop [OF ok] ok heads by (subst deflate_loop.simps) (simp add: good_heads_def)
  next
    case (Some dc)
    note serve = serve_head [OF ok heads Some]
    obtain q' m' where r: "add_used G m (q\<lparr>q_next_avail := q_next_avail q + 1\<rparr>) h 0 = Done (q', m', Ok ())"
      "queue_ok G mem_byte seen k m' q'" "avail_heads mem_byte m' q' = t"
      "used_entries mem_byte m' q' seen = used_entries mem_byte m q seen @ [(ucast h, 0)]"
      "q_desc_table q' = q_desc_table q" "actual_size q' = actual_size q"
      "\<And>i. checked_new G m' (q_desc_table q) (actual_size q) i = checked_new G m (q_desc_table q) (actual_size q) i"
      using serve(3) [of 0] by blast
    have gh: "good_heads G m' q' t = good_heads G m q t" "good_heads G m q (h # t) = h # good_heads G m q t"
      using r(5-7) Some by (simp_all add: good_heads_def)
    have step: "deflate_loop G m q needs = deflate_loop G m' q' True"
      by (subst deflate_loop.simps) (simp add: serve(1,2) r(1))
    show ?thesis
      using Cons.hyps(1) [OF r(3) [symmetric] r(2), of True] unfolding step heads gh r(3) by (auto simp: r(4))
  qed
qed

lemma inflate_read_Ok:
  assumes "mapped G m a (4 * n)" and "idx + (n - j) \<le> length buf" and "j \<le> n"
  shows "\<exists>buf'. inflate_read G m a (map ((*) 4) [j..<n]) buf idx = Done (buf', idx + (n - j), Ack)
    \<and> length buf' = length buf
    \<and> take (idx + (n - j)) buf' = take idx buf @ map (\<lambda>i. peek mem_byte m 4 (a + of_nat (4 * i))) [j..<n]"
  using assms(2,3)
proof (induction "n - j" arbitrary: j idx buf)
  case 0
  then show ?case by simp
next
  case (Suc d)
  then have j: "j < n" "[j..<n] = j # [Suc j..<n]" by (simp_all add: upt_conv_Cons)
  have "unat a + 4 * n \<le> 2 ^ 64" using assms(1) by (simp add: mapped_def)
  then have "unat (of_nat (4 * j) :: u64) = 4 * j" using j(1) by (subst unat_of_nat) simp
  then have ca: "checked_add a (of_nat (4 * j)) = Some (a + of_nat (4 * j))"
    using \<open>unat a + 4 * n \<le> 2 ^ 64\<close> j(1) by (simp add: checked_add_def)
  have rd: "read_u32 G m (a + of_nat (4 * j)) = Ok (peek mem_byte m 4 (a + of_nat (4 * j)))"
    using mapped_part [OF assms(1), of "4 * j" 4] j(1) by (intro read_obj_Ok) auto
  let ?v = "peek mem_byte m 4 (a + of_nat (4 * j)) :: u32"
  have pre: "d = n - Suc j" "Suc idx + (n - Suc j) \<le> length (buf[idx := ?v])" "Suc j \<le> n"
    using Suc.hyps(2) Suc.prems j(1) by auto
  obtain buf' where b: "inflate_read G m a (map ((*) 4) [Suc j..<n]) (buf[idx := ?v]) (Suc idx)
      = Done (buf', Suc idx + (n - Suc j), Ack)" "length buf' = length (buf[idx := ?v])"
    "take (Suc idx + (n - Suc j)) buf' = take (Suc idx) (buf[idx := ?v])
       @ map (\<lambda>i. peek mem_byte m 4 (a + of_nat (4 * i))) [Suc j..<n]"
    using Suc.hyps(1) [OF pre] by blast
  have idx: "idx < length buf" using Suc.prems(1) j(1) by simp
  have run: "inflate_read G m a (map ((*) 4) [j..<n]) buf idx
      = inflate_read G m a (map ((*) 4) [Suc j..<n]) (buf[idx := ?v]) (Suc idx)"
    unfolding j(2) list.map inflate_read.simps ca option.case rd sum.case using idx by (simp only: if_True)
  have n: "Suc idx + (n - Suc j) = idx + (n - j)" using j(1) by simp
  have tk: "take (Suc idx) (buf[idx := ?v]) = take idx buf @ [?v]"
    using idx by (simp add: take_Suc_conv_app_nth)
  have "take (idx + (n - j)) buf' = take idx buf @ map (\<lambda>i. peek mem_byte m 4 (a + of_nat (4 * i))) [j..<n]"
    using b(3) [unfolded n tk] by (simp add: j(2))
  then show ?case unfolding run b(1) n using b(2) by auto
qed

lemma inflate_head_Ok:
  assumes "inflate_desc G m q dc" and "length buf = MAX_PAGE_COMPACT_BUFFER"
    and "idx + length (desc_pfns mem_byte m dc) \<le> MAX_PAGE_COMPACT_BUFFER"
  shows "\<exists>buf'. inflate_head G m dc buf idx = Done (buf', idx + length (desc_pfns mem_byte m dc), Ack)
    \<and> length buf' = length buf
    \<and> take (idx + length (desc_pfns mem_byte m dc)) buf' = take idx buf @ desc_pfns mem_byte m dc"
proof -
  let ?n = "unat (dc_len dc) div 4"
  have d: "\<not> is_write_only dc" "unat (dc_len dc) mod 4 = 0" "\<not> unat (dc_len dc) > MAX_PAGES_IN_DESC * 4"
    "mapped G m (dc_addr dc) (unat (dc_len dc))"
    using assms(1) by (auto simp: inflate_desc_def MAX_PAGES_IN_DESC_def)
  have len: "unat (dc_len dc) = 4 * ?n" using d(2) by auto
  have n: "length (desc_pfns mem_byte m dc) = ?n" by (simp add: desc_pfns_def)
  have "inflate_head G m dc buf idx = inflate_read G m (dc_addr dc) (map ((*) 4) [0..<?n]) buf idx"
    using d assms(3) n by (simp add: inflate_head_def Let_def)
  then show ?thesis
    using inflate_read_Ok [of m "dc_addr dc" ?n idx 0 buf] d(4) len assms(2,3) n
    by (simp add: desc_pfns_def)
qed

lemma desc_pfns_same:
  assumes "inflate_desc G m q dc"
    and "\<And>b n. disjoint_areas (q_used_ring q) (6 + 8 * entries q) b n \<Longrightarrow> same_bytes mem_byte m m' b n"
  shows "desc_pfns mem_byte m' dc = desc_pfns mem_byte m dc"
proof -
  let ?n = "unat (dc_len dc)"
  have "same_bytes mem_byte m m' (dc_addr dc) ?n" "unat (dc_addr dc) + ?n \<le> 2 ^ 64"
    using assms by (simp_all add: inflate_desc_def mapped_def)
  then have "peek mem_byte m' 4 (dc_addr dc + of_nat (4 * i)) = (peek mem_byte m 4 (dc_addr dc + of_nat (4 * i)) :: u32)"
    if "i < ?n div 4" for i
    using that by (intro peek_same) auto
  then show ?thesis by (simp add: desc_pfns_def)
qed

text \<open>One pass over a queue of well-formed descriptors collects all the pages they list.\<close>

lemma inflate_inner_serves:
  assumes "queue_ok G mem_byte seen k m q" and "length buf = MAX_PAGE_COMPACT_BUFFER"
    and "\<forall>h \<in> set (avail_heads mem_byte m q). \<exists>dc. head_desc G m q h = Some dc \<and> inflate_desc G m q dc"
  defines "hs \<equiv> avail_heads mem_byte m q"
  defines "pfns \<equiv> listed_pfns G mem_byte m q hs"
  assumes "idx + length pfns \<le> MAX_PAGE_COMPACT_BUFFER"
  shows "\<exists>q' m' buf'. inflate_inner G m q buf idx needs valid
      = Some (Done (q', m', buf', idx + length pfns, needs \<or> hs \<noteq> [], valid \<or> hs \<noteq> [], Ok ()))
    \<and> queue_ok G mem_byte seen k m' q' \<and> avail_heads mem_byte m' q' = []
    \<and> used_entries mem_byte m' q' seen = used_entries mem_byte m q seen @ map (\<lambda>h. (ucast h, 0)) hs
    \<and> length buf' = length buf \<and> take (idx + length pfns) buf' = take idx buf @ pfns
    \<and> q_desc_table q' = q_desc_table q \<and> q_used_ring q' = q_used_ring q \<and> q_avail_ring q' = q_avail_ring q
    \<and> actual_size q' = actual_size q \<and> only_used_ring G mem_byte q m m'"
  using assms(1-3,6) unfolding hs_def pfns_def
proof (induction "avail_heads mem_byte m q" arbitrary: m q buf idx needs valid)
  case Nil
  then show ?case
    using service_pop [OF Nil(2)]
    by (subst inflate_inner.simps) (simp add: listed_pfns_def only_used_ring_def same_bytes_def flip: Nil(1))
next
  case (Cons h t)
  note ok = Cons.prems(1) and heads = Cons.hyps(2) [symmetric]
  obtain dc where dc: "checked_new G m (q_desc_table q) (actual_size q) h = Some dc" "inflate_desc G m q dc"
    using Cons.prems(3) heads by (auto simp: head_desc_def)
  let ?p = "desc_pfns mem_byte m dc"
  have listed: "listed_pfns G mem_byte m q (h # t) = ?p @ listed_pfns G mem_byte m q t"
    using dc(1) by (simp add: listed_pfns_def head_desc_def)
  have room: "idx + length ?p + length (listed_pfns G mem_byte m q t) \<le> MAX_PAGE_COMPACT_BUFFER"
    using Cons.prems(4) heads listed by simp
  obtain buf1 where b1: "inflate_head G m dc buf idx = Done (buf1, idx + length ?p, Ack)"
    "length buf1 = length buf" "take (idx + length ?p) buf1 = take idx buf @ ?p"
    using inflate_head_Ok [OF dc(2) Cons.prems(2), of idx] room by auto
  note serve = serve_head [OF ok heads dc(1)]
  obtain q' m' where r: "add_used G m (q\<lparr>q_next_avail := q_next_avail q + 1\<rparr>) h 0 = Done (q', m', Ok ())"
    "queue_ok G mem_byte seen k m' q'" "avail_heads mem_byte m' q' = t"
    "used_entries mem_byte m' q' seen = used_entries mem_byte m q seen @ [(ucast h, 0)]"
    "q_desc_table q' = q_desc_table q" "q_used_ring q' = q_used_ring q" "q_avail_ring q' = q_avail_ring q"
    "actual_size q' = actual_size q" "same_ranges G m m'"
    "\<And>b n. disjoint_areas (q_used_ring q) (6 + 8 * entries q) b n \<Longrightarrow> same_bytes mem_byte m m' b n"
    "\<And>i. checked_new G m' (q_desc_table q) (actual_size q) i = checked_new G m (q_desc_table q) (actual_size q) i"
    using serve(3) [of 0] by blast
  have hd: "head_desc G m' q' = head_desc G m q" using r(5,8,11) by (auto simp: head_desc_def)
  have ds: "inflate_desc G m' q' = inflate_desc G m q"
    using r(6,8,9) by (auto simp: inflate_desc_def mapped_same)
  have good: "\<forall>i \<in> set t. \<exists>dc. head_desc G m q i = Some dc \<and> inflate_desc G m q dc"
    using Cons.prems(3) heads by simp
  have "desc_pfns mem_byte m' d = desc_pfns mem_byte m d" if "inflate_desc G m q d" for d
    using that r(10) by (rule desc_pfns_same)
  with good have same: "listed_pfns G mem_byte m' q' t = listed_pfns G mem_byte m q t"
    unfolding listed_pfns_def hd by (fastforce intro: arg_cong [where f = concat])
  have pre: "\<forall>i \<in> set (avail_heads mem_byte m' q'). \<exists>dc. head_desc G m' q' i = Some dc \<and> inflate_desc G m' q' dc"
    "idx + length ?p + length (listed_pfns G mem_byte m' q' (avail_heads mem_byte m' q')) \<le> MAX_PAGE_COMPACT_BUFFER"
    using good room unfolding r(3) hd ds same by simp_all
  have step: "inflate_inner G m q buf idx needs valid = inflate_inner G m' q' buf1 (idx + length ?p) True True"
    by (subst inflate_inner.simps) (simp add: serve(1,2) b1(1) r(1))
  have "length buf1 = MAX_PAGE_COMPACT_BUFFER" using b1(2) Cons.prems(2) by simp
  note IH = Cons.hyps(1) [OF r(3) [symmetric] r(2) this pre, of True True]
  have "only_used_ring G mem_byte q m m'" using r(9,10) by (simp add: only_used_ring_def)
  then have "only_used_ring G mem_byte q' m' m'' \<Longrightarrow> only_used_ring G mem_byte q m m''" for m''
    using r(6,8) by (auto simp: only_used_ring_def same_ranges_def same_bytes_def)
  then show ?case using IH unfolding step heads listed r(3) same
    by (auto simp: r(4-8) b1(2,3) add.assoc)
qed

lemma inflate_outer_empty:
  fixes E :: "('e, 'io, 't, 'm, 'ge) BalloonEnv"
  assumes "queue_ok G mem_byte seen k m q" and "avail_heads mem_byte m q = []"
  shows "inflate_outer E G restored m q buf needs = Some (Done (q, m, buf, Ok needs))"
proof -
  have "inflate_inner G m q buf 0 needs False = Some (Done (q, m, buf, 0, needs, False,
      Ok () :: ('ge, 'io) BalloonError + unit))"
    using service_pop [OF assms(1)] assms(2) by (subst inflate_inner.simps) simp
  then show ?thesis
    by (subst inflate_outer.simps) (simp add: compact_page_frame_numbers_def)
qed

lemma inflate_outer_serves:
  fixes E :: "('e, 'io, 't, 'm, 'ge) BalloonEnv"
  assumes ok: "queue_ok G mem_byte seen k m q" and buf: "length buf = MAX_PAGE_COMPACT_BUFFER"
    and good: "\<forall>h \<in> set (avail_heads mem_byte m q). \<exists>dc. head_desc G m q h = Some dc \<and> inflate_desc G m q dc"
  defines "hs \<equiv> avail_heads mem_byte m q"
  defines "pfns \<equiv> listed_pfns G mem_byte m q hs"
  defines "rs \<equiv> snd (compact_page_frame_numbers pfns)"
  assumes room: "length pfns \<le> MAX_PAGE_COMPACT_BUFFER"
    and keep: "\<And>m1. rings_same G mem_byte q m1 (remove_ranges E restored rs m1)"
  shows "\<exists>q' m1 buf'. inflate_outer E G restored m q buf needs
      = Some (Done (q', remove_ranges E restored rs m1, buf', Ok (needs \<or> hs \<noteq> [])))
    \<and> queue_ok G mem_byte seen k (remove_ranges E restored rs m1) q' \<and> only_used_ring G mem_byte q m m1
    \<and> used_entries mem_byte (remove_ranges E restored rs m1) q' seen
        = used_entries mem_byte m q seen @ map (\<lambda>h. (ucast h, 0)) hs"
proof -
  obtain q' m1 buf1 where r: "inflate_inner G m q buf 0 needs False
      = Some (Done (q', m1, buf1, length pfns, needs \<or> hs \<noteq> [], hs \<noteq> [],
          Ok () :: ('ge, 'io) BalloonError + unit))"
    "queue_ok G mem_byte seen k m1 q'" "avail_heads mem_byte m1 q' = []"
    "used_entries mem_byte m1 q' seen = used_entries mem_byte m q seen @ map (\<lambda>h. (ucast h, 0)) hs"
    "take (length pfns) buf1 = pfns"
    "q_desc_table q' = q_desc_table q" "q_used_ring q' = q_used_ring q" "q_avail_ring q' = q_avail_ring q"
    "actual_size q' = actual_size q" "only_used_ring G mem_byte q m m1"
    using inflate_inner_serves [OF ok buf good, of 0 needs False] room unfolding pfns_def hs_def by auto
  let ?m = "remove_ranges E restored rs m1"
  have same: "rings_same G mem_byte q' m1 ?m" using keep [of m1] r(6-9) by (simp add: rings_same_def)
  note after = queue_ok_same [OF r(2) same]
  obtain v where v: "compact_page_frame_numbers pfns = (v, rs)" unfolding rs_def by (metis prod.collapse)
  have "inflate_outer E G restored m q buf needs
    = Some (Done (q', ?m, v @ drop (length pfns) buf1, Ok (needs \<or> hs \<noteq> [])))"
    using inflate_outer_empty [OF after(1)] after(2) r(3)
    by (subst inflate_outer.simps) (auto simp: r(1,5) v Let_def)
  then show ?thesis using after(1,3) r(4,10) by auto
qed

end

section \<open>Properties\<close>

text \<open>
  (C15) Compaction loses no page and adds none: the pages of the ranges are the distinct frame numbers
  given, in ascending order, the ranges are not empty, and no two of them touch. In particular the
  sum of a start and a length never overflows while ranges are built.
\<close>

theorem compact_pages:
  assumes "length v < 2 ^ 32"
  shows "pages_of (snd (compact_page_frame_numbers v)) = sorted_list_of_set (unat ` set v)
    \<and> separated (snd (compact_page_frame_numbers v))"
  using compact_correct(2,3) [OF assms prod.collapse [symmetric]] by blast

theorem compact_pages_witness:
  "pages_of (snd (compact_page_frame_numbers [7, 3, 4, 3])) = [3, 4, 7]"
  using compact_pages [of "[7, 3, 4, 3]"] by (simp add: insert_Diff_if)

lemma signal_used_queue_effect:
  "bl_queues (fst (signal_used_queue E b)) = bl_queues b"
  "bit (irq_status (bl_irq_trigger (fst (signal_used_queue E b)))) 0"
  "snd (signal_used_queue E b) = map_sum InterruptError id (snd (trigger_irq (be_evt_write E) (bl_irq_trigger b) Vring))"
  by (simp_all add: signal_used_queue_def trigger_irq_def VIRTIO_MMIO_INT_VRING_def bit_simps Let_def
      split: prod.split sum.split)

text \<open>
  (C17) Deflating returns every buffer: the handler of the deflate queue ends, returns all the heads the
  driver made available up to the first that is no descriptor, in their order and with length 0,
  leaves the other heads, and raises the queue interrupt when it returned any.
\<close>

theorem deflate_returns_all:
  fixes E :: "('e, 'io, 't, 'm, 'ge) BalloonEnv"
  assumes "guest_memory G mb" and "state_is_activated (bl_device_state b)" and "length (bl_queues b) > 1"
    and "queue_ok G mb seen k m (bl_queues b ! 1)"
  shows "\<exists>b' m' r. process_deflate_queue E G m b = Some (Done (b', m', r))
    \<and> (let q = bl_queues b ! 1; q' = bl_queues b' ! 1; hs = good_heads G m q (avail_heads mb m q)
       in used_entries mb m' q' seen = used_entries mb m q seen @ map (\<lambda>h. (ucast h, 0)) hs
          \<and> hs @ avail_heads mb m' q' = avail_heads mb m q \<and> queue_ok G mb seen k m' q'
          \<and> (hs = [] \<longrightarrow> r = Ok ())
          \<and> (hs \<noteq> [] \<longrightarrow> bit (irq_status (bl_irq_trigger b')) 0
               \<and> r = map_sum InterruptError id (snd (trigger_irq (be_evt_write E) (bl_irq_trigger b) Vring))))"
proof -
  let ?q = "bl_queues b ! 1"
  let ?hs = "good_heads G m ?q (avail_heads mb m ?q)"
  obtain q' m' where r: "deflate_loop G m ?q False = Some (Done (q', m', Ok (?hs \<noteq> []) :: ('ge, 'io) BalloonError + bool))"
    "queue_ok G mb seen k m' q'" "?hs @ avail_heads mb m' q' = avail_heads mb m ?q"
    "used_entries mb m' q' seen = used_entries mb m ?q seen @ map (\<lambda>h. (ucast h, 0)) ?hs"
    using guest_memory.deflate_serves [OF assms(1,4), of False] by auto
  let ?b = "b\<lparr>bl_queues := (bl_queues b)[1 := q']\<rparr>"
  have "process_deflate_queue E G m b = Some (Done (if ?hs \<noteq> [] then fst (signal_used_queue E ?b) else ?b, m',
      if ?hs \<noteq> [] then snd (signal_used_queue E ?b) else Ok ()))"
    using assms(2,3) r(1) by (auto simp: process_deflate_queue_def DEFLATE_INDEX_def split_beta Let_def)
  then show ?thesis
    using r(2-4) assms(3) by (auto simp: Let_def signal_used_queue_effect)
qed

text \<open>A host whose descriptors always work and that has no memory region to give back.\<close>

definition sample_env :: "(unit, unit, unit, byte_map, unit) BalloonEnv" where
  "sample_env =
     \<lparr>be_evt_write = (\<lambda>e _. (e, Ok ())), be_evt_read = (\<lambda>e. (e, Ok 1)), be_timer_read = id,
      be_timer_set_periodic = (\<lambda>t _. t), find_region = (\<lambda>_ _. None), get_host_address = (\<lambda>_ _. Err ()),
      host_mmap = (\<lambda>m _ _. (m, Ok ())), host_madvise = (\<lambda>m _ _. (m, Ok ()))\<rparr>"

definition sample_balloon :: "(unit, unit) Balloon" where
  "sample_balloon =
     \<lparr>bl_avail_features = push_bit 32 1, bl_acked_features = 0,
      bl_config_space = \<lparr>num_pages = 512, actual_pages = 0\<rparr>, bl_activate_evt = (),
      bl_queues = [queue_new 256, queue_new 256], bl_queue_evts = [(), (), ()], bl_device_state = Inactive,
      bl_irq_trigger = irq_trigger_new (), bl_restored = False, bl_stats_polling_interval_s = 0,
      bl_stats_timer = (), bl_stats_desc_index = None, bl_latest_stats = BalloonStats_default,
      bl_pfn_buffer = replicate MAX_PAGE_COMPACT_BUFFER 0\<rparr>"

lemma sample_balloon_new:
  "balloon_new (Ok ()) (Ok ()) (Ok ()) (Ok ()) (Ok ()) (Ok ()) 2 False 0 False = Ok sample_balloon"
  by (simp add: balloon_new_def sample_balloon_def mib_to_pages_def MIB_TO_4K_PAGES_def STATS_INDEX_def
      QUEUE_SIZE_BALLOON_def VIRTIO_F_VERSION_1_def)

text \<open>The only available head is the descriptor 0, of 8 bytes at 1024, which hold the frames 5 and 6;
  page 5 begins with the byte 7, page 7 with the byte 9.\<close>

definition balloon_mem :: byte_map where
  "balloon_mem = page_mem [(258, 1), (1, 4), (8, 8), (1024, 5), (1028, 6), (0x5000, 7), (0x7000, 9)]"

lemma balloon_mem_ok: "queue_ok byte_memory bm_byte 0 0 balloon_mem sample_queue"
  unfolding balloon_mem_def
  by (rule page_queue_ok [where n = 1]) (simp_all add: page_mem_def upt_rec)

lemma balloon_mem_heads: "avail_heads bm_byte balloon_mem sample_queue = [0]"
  by (simp add: avail_heads_def avail_addr_def sample_actual_size peek_def balloon_mem_def upt_rec)
    (simp add: page_mem_def sample_queue_def queue_new_def)

lemma balloon_mem_used: "used_entries bm_byte balloon_mem sample_queue 0 = []"
  by (simp add: used_entries_def peek_def upt_rec balloon_mem_def) (simp add: page_mem_def sample_queue_def queue_new_def)

lemma balloon_mem_head:
  "head_desc byte_memory balloon_mem sample_queue 0 = Some
     \<lparr>dc_desc_table = 0, dc_queue_size = 2, dc_ttl = 2, dc_index = 0, dc_addr = 1024, dc_len = 8,
      dc_flags = 0, dc_next = 0\<rparr>"
proof -
  have "bm_mapped balloon_mem 0 16"
    unfolding bm_mapped_iff balloon_mem_def by (rule page_mapped) simp
  moreover have "map (\<lambda>i. the (balloon_mem (of_nat i))) [0..<16] = [0, 4, 0, 0, 0, 0, 0, 0, 8, 0, 0, 0, 0, 0, 0, 0]"
    by (simp add: upt_rec balloon_mem_def page_mem_def)
  ultimately show ?thesis
    by (simp add: head_desc_def checked_new_def sample_actual_size Let_def dc_is_valid_def has_next_def
        Descriptor_from_bytes_def slice_def)
      (simp add: balloon_mem_def page_mem_def sample_queue_def queue_new_def)
qed

theorem deflate_returns_all_witness:
  "\<exists>b' m'. process_deflate_queue sample_env byte_memory balloon_mem
       (sample_balloon\<lparr>bl_queues := [queue_new 256, sample_queue], bl_device_state := Activated\<rparr>)
     = Some (Done (b', m', Ok ()))
     \<and> used_entries bm_byte m' (bl_queues b' ! 1) 0 = [(0, 0)]"
proof -
  let ?b = "sample_balloon\<lparr>bl_queues := [queue_new 256, sample_queue], bl_device_state := Activated\<rparr>"
  have "good_heads byte_memory balloon_mem sample_queue [0] = [0]"
    using balloon_mem_head by (simp add: good_heads_def head_desc_def)
  moreover note balloon_mem_used
  moreover have "snd (trigger_irq (be_evt_write sample_env) (bl_irq_trigger sample_balloon) Vring) = Ok ()"
    by (simp add: trigger_irq_def sample_env_def)
  ultimately show ?thesis
    using deflate_returns_all [OF bm.guest_memory_axioms, of ?b 0 0 balloon_mem sample_env] balloon_mem_ok
    by (auto simp: state_is_activated_def balloon_mem_heads Let_def)
qed







text \<open>
  (C26) Resizing: an active balloon takes a target whose number of pages fits 32 bits, reports it back
  exactly in MiB, through its configuration too, and raises the configuration interrupt; any other
  target, and any resize of an inactive balloon, is refused and changes nothing.
\<close>

theorem update_size_exact:
  assumes "update_size E b amount = (b', r)"
  shows "(state_is_activated (bl_device_state b) \<and> unat amount < 2 ^ 24 \<longrightarrow>
            size_mb b' = amount \<and> bc_amount_mib (balloon_config b') = amount
            \<and> bit (irq_status (bl_irq_trigger b')) 1 \<and> (r = Ok () \<or> (\<exists>e. r = Err (InterruptError e))))
    \<and> (state_is_activated (bl_device_state b) \<and> \<not> unat amount < 2 ^ 24 \<longrightarrow> b' = b \<and> r = Err TooManyPagesRequested)
    \<and> (\<not> state_is_activated (bl_device_state b) \<longrightarrow> b' = b \<and> r = Err DeviceNotActive)"
proof (cases "state_is_activated (bl_device_state b) \<and> unat amount < 2 ^ 24")
  case True
  have "unat (amount * 256) = unat amount * 256" using True by (simp add: unat_word_ariths)
  then have "amount * 256 div 256 = amount" by (simp add: word_unat_eq_iff unat_div)
  then show ?thesis
    using assms True
    by (auto simp: update_size_def mib_to_pages_def MIB_TO_4K_PAGES_def size_mb_def pages_to_mib_def
        balloon_config_def trigger_irq_def VIRTIO_MMIO_INT_CONFIG_def bit_simps Let_def
        split: prod.split_asm sum.split_asm)
qed (use assms in \<open>auto simp: update_size_def mib_to_pages_def MIB_TO_4K_PAGES_def\<close>)

theorem update_size_exact_witness:
  "size_mb (fst (update_size sample_env (sample_balloon\<lparr>bl_device_state := Activated\<rparr>) 100)) = 100"
  using update_size_exact [of sample_env "sample_balloon\<lparr>bl_device_state := Activated\<rparr>" 100, OF prod.collapse [symmetric]]
  by (simp add: state_is_activated_def)

section \<open>A driver initialises a balloon\<close>

text \<open>The two queues of a balloon without statistics, set up in one page.\<close>

definition sample_setups :: "QueueSetup list" where
  "sample_setups =
     [\<lparr>su_size = 2, su_desc = 0, su_avail = 256, su_used = 512\<rparr>,
      \<lparr>su_size = 2, su_desc = 1024, su_avail = 1280, su_used = 1536\<rparr>]"

abbreviation sample_device :: "((unit, unit) Balloon, unit) VirtioDevice" where
  "sample_device \<equiv> balloon_device sample_env"

lemma sample_device_fresh:
  "queues sample_device sample_balloon = [queue_new 256, queue_new 256]"
  "\<not> is_activated sample_device sample_balloon" "acked_features sample_device sample_balloon = 0"
  "length sample_setups = length (queues sample_device sample_balloon)"
  "length (queues sample_device sample_balloon) < 2 ^ 32"
  by (simp_all add: balloon_device_def sample_balloon_def state_is_activated_def sample_setups_def)

lemma sample_setups_valid:
  "all_valid byte_memory (page_mem []) (map2 configured (queues sample_device sample_balloon) sample_setups) = Done True"
proof -
  have "queue_len byte_memory (page_mem []) q = Done 0"
    if "q_avail_ring q = 256 \<or> q_avail_ring q = 1280" "q_next_avail q = 0" for q
  proof -
    have "mapped byte_memory (page_mem []) (q_avail_ring q + 2) 2" using that(1) by (intro page_mapped) auto
    moreover have "peek bm_byte (page_mem []) 2 (q_avail_ring q + 2) = (0 :: u16)"
      using that(1) by (auto simp: peek_def upt_rec page_mem_def)
    ultimately show ?thesis
      using bm.read_obj_Ok [of 2 "page_mem []" "q_avail_ring q + 2", where ?'a = 16] that(2)
      by (simp add: queue_len_def avail_idx_def)
  qed
  then show ?thesis
    by (simp add: sample_device_fresh sample_setups_def configured_def queue_is_valid_def queue_new_def
        actual_size_def ends_out_of_range_def checked_add_def Let_def page_mem_def)
qed

lemma sample_activates: "\<exists>d''. activate sample_device d' = (d'', Ok ())"
  by (simp add: balloon_device_def balloon_activate_def sample_env_def Let_def)

theorem mmio_init_activates_witness:
  "\<exists>t. run_writes byte_memory (page_mem []) sample_device (driver_init (push_bit 32 1) sample_setups) (mmio_new sample_balloon)
        = Done t
    \<and> is_activated sample_device (device t) \<and> acked_features sample_device (device t) = push_bit 32 1"
  using mmio_init_activates [OF balloon.virtio_device_axioms sample_device_fresh(2,4,5) sample_setups_valid,
      of "push_bit 32 1"] sample_activates sample_device_fresh(3)
  by (auto simp: balloon_device_def sample_balloon_def)

lemma sample_reached:
  "\<exists>t. (mmio_step byte_memory sample_device)\<^sup>*\<^sup>* (page_mem [], mmio_new sample_balloon) (page_mem [], t)
    \<and> is_activated sample_device (device t) \<and> device_status t = 15"
proof -
  obtain t where t: "run_writes byte_memory (page_mem []) sample_device (driver_init 0 sample_setups) (mmio_new sample_balloon)
      = Done t" "is_activated sample_device (device t)" "device_status t = 15"
    using balloon.init_activates [OF sample_device_fresh(2,4,5) sample_setups_valid sample_activates, of 0] by blast
  then show ?thesis using run_writes_steps [OF t(1)] by blast
qed

theorem mmio_activated_valid_witness:
  "\<exists>t :: (unit, unit) Balloon MmioTransport. is_activated sample_device (device t)
     \<and> (\<forall>q \<in> set (queues sample_device (device t)). setup_valid byte_memory (page_mem []) q)"
proof -
  obtain t where t: "(mmio_step byte_memory sample_device)\<^sup>*\<^sup>* (page_mem [], mmio_new sample_balloon) (page_mem [], t)"
    "is_activated sample_device (device t)"
    using sample_reached by blast
  show ?thesis
    using mmio_activated_valid [OF balloon.virtio_device_axioms sample_device_fresh(2,3) t(1)] t(2)
    by (intro exI [of _ t]) simp
qed

theorem mmio_activated_frozen_witness:
  "\<exists>t t'. is_activated sample_device (device t)
     \<and> mmio_write byte_memory (page_mem []) sample_device t 0x70 (le_bytes 4 (0 :: u32)) = Done t'
     \<and> is_activated sample_device (device t')"
proof -
  obtain t where t: "(mmio_step byte_memory sample_device)\<^sup>*\<^sup>* (page_mem [], mmio_new sample_balloon) (page_mem [], t)"
    "is_activated sample_device (device t)" "device_status t = 15"
    using sample_reached by blast
  obtain t' where w: "mmio_write byte_memory (page_mem []) sample_device t 0x70 (le_bytes 4 (0 :: u32)) = Done t'"
    using t(2,3) by (simp add: mmio_write_register_def set_device_status_def status_defs balloon.no_reset)
  have "(mmio_step byte_memory sample_device)\<^sup>*\<^sup>* (page_mem [], t) (page_mem [], t')"
    using mmio_step.reg_write [OF w] by blast
  then show ?thesis
    using mmio_activated_frozen [OF balloon.virtio_device_axioms sample_device_fresh(2,3) t(1,2)] t(2) w by blast
qed

text \<open>
  (C35) A status bit can be cleared on the way: a driver that writes the status 6 instead of 15 after
  setting up the queues activates the device and clears FEATURES_OK in one step, and can then
  acknowledge features of the active device.
\<close>

theorem mmio_ack_after_activation:
  "\<exists>t t' :: (unit, unit) Balloon MmioTransport.
     run_writes byte_memory (page_mem []) sample_device
       ([(0x70, 1), (0x70, 3), (0x70, 11)] @ setup_writes 0 sample_setups @ [(0x70, 6)]) (mmio_new sample_balloon) = Done t
     \<and> is_activated sample_device (device t) \<and> acked_features sample_device (device t) = 0
     \<and> run_writes byte_memory (page_mem []) sample_device [(0x24, 1), (0x20, 1)] t = Done t'
     \<and> is_activated sample_device (device t') \<and> acked_features sample_device (device t') = push_bit 32 1"
proof -
  let ?D = sample_device and ?run = "run_writes byte_memory (page_mem []) sample_device"
  let ?t0 = "(mmio_new sample_balloon)\<lparr>device_status := 11\<rparr>"
  have t0: "?run [(0x70, 1), (0x70, 3), (0x70, 11)] (mmio_new sample_balloon) = Done ?t0"
    by (simp add: register_steps init_status_steps mmio_new_def INIT_def)
  have "device_view ?D (device ?t0) = (push_bit 32 1, 0, queues ?D sample_balloon, False)"
    by (simp add: device_view_def mmio_new_def balloon_device_def sample_balloon_def state_is_activated_def)
  from balloon.run_setup_writes [OF this, of 0 sample_setups byte_memory "page_mem []"] sample_device_fresh(4,5)
  obtain t1 where t1: "?run (setup_writes 0 sample_setups) ?t0 = Done t1" "device_status t1 = 11"
    "device_view ?D (device t1) = (push_bit 32 1, 0, map2 configured (queues ?D sample_balloon) sample_setups, False)"
    by auto
  obtain d where d: "activate ?D (device t1) = (d, Ok ())" using sample_activates by blast
  let ?t = "t1\<lparr>device_status := 6, device := d\<rparr>"
  have t: "mmio_write byte_memory (page_mem []) ?D t1 0x70 (le_bytes 4 (6 :: u32)) = Done ?t"
    using t1(2,3) sample_setups_valid d
    by (simp add: mmio_write_register_def set_device_status_def status_defs are_queues_valid_def device_view_def)
  have act: "is_activated ?D d" "acked_features ?D d = 0" "avail_features ?D d = push_bit 32 1"
    using balloon.activate_Ok [OF d] balloon.activate_view [OF d] t1(3) by (simp_all add: device_view_def)
  let ?t' = "?t\<lparr>acked_features_select := 1, device := ack_features_by_page ?D d 1 1\<rparr>"
  have "?run [(0x24, 1), (0x20, 1)] ?t = Done ?t'"
    by (simp add: mmio_write_register_def check_device_status_def status_defs)
  moreover have "is_activated ?D (ack_features_by_page ?D d 1 1)"
    "acked_features ?D (ack_features_by_page ?D d 1 1) = push_bit 32 1"
    using act by (simp_all add: balloon.ack_view balloon.ack_acked)
  moreover have "?run ([(0x70, 1), (0x70, 3), (0x70, 11)] @ setup_writes 0 sample_setups @ [(0x70, 6)]) (mmio_new sample_balloon)
      = Done ?t"
    unfolding run_writes_append t0 t1(1) ebind.simps using t by simp
  ultimately show ?thesis using act by (intro exI [of _ ?t] exI [of _ ?t'] conjI) simp_all
qed

end
