(* ===== verification/PortRequest.thy ===== *)
theory PortRequest
  imports Prelude
begin

text \<open>
  The request a host process makes on the socket of the vsock device, \<open>CONNECT <port>\<close> on a line
  (\<open>read_local_stream_port\<close> of \<open>devices/src/virtio/vsock/unix/muxer.rs\<close>), with what it uses of
  the standard library: UTF-8, splitting at white space, and parsing and printing of numbers.
\<close>

section \<open>Numbers and text\<close>

text \<open>The decimal digits of a number, as \<open>format!\<close> prints them.\<close>

fun dec_digits :: "nat \<Rightarrow> u8 list" where
  "dec_digits n = (if n < 10 then [of_nat (48 + n)] else dec_digits (n div 10) @ [of_nat (48 + n mod 10)])"

declare dec_digits.simps [simp del]

text \<open>\<open>str::parse::<u32>\<close>: an optional plus sign and digits, without overflow.\<close>

fun parse_digits :: "nat \<Rightarrow> nat list \<Rightarrow> nat option" where
  "parse_digits acc [] = Some acc"
| "parse_digits acc (c # cs) =
     (if 48 \<le> c \<and> c \<le> 57 \<and> acc * 10 + (c - 48) < 2 ^ 32 then parse_digits (acc * 10 + (c - 48)) cs else None)"

definition parse_u32 :: "nat list \<Rightarrow> u32 option" where
  "parse_u32 cs =
     (case cs of
        [] \<Rightarrow> None
      | c # rest \<Rightarrow>
          map_option of_nat (if c = 43 then (if rest = [] then None else parse_digits 0 rest) else parse_digits 0 cs))"

text \<open>\<open>str::from_utf8\<close>, as the list of code points.\<close>

definition cont :: "nat \<Rightarrow> nat \<Rightarrow> nat \<Rightarrow> bool" where
  "cont lo hi b \<longleftrightarrow> lo \<le> b \<and> b \<le> hi"

definition utf8_char :: "nat list \<Rightarrow> (nat \<times> nat list) option" where
  "utf8_char bs =
     (case bs of
        [] \<Rightarrow> None
      | b0 # bs \<Rightarrow>
          if b0 < 128 then Some (b0, bs)
          else if cont 194 223 b0 then
            (case bs of
               b1 # bs \<Rightarrow> if cont 128 191 b1 then Some ((b0 - 192) * 64 + (b1 - 128), bs) else None
             | _ \<Rightarrow> None)
          else if cont 224 239 b0 then
            (case bs of
               b1 # b2 # bs \<Rightarrow>
                 if cont (if b0 = 224 then 160 else 128) (if b0 = 237 then 159 else 191) b1 \<and> cont 128 191 b2
                 then Some ((b0 - 224) * 4096 + (b1 - 128) * 64 + (b2 - 128), bs) else None
             | _ \<Rightarrow> None)
          else if cont 240 244 b0 then
            (case bs of
               b1 # b2 # b3 # bs \<Rightarrow>
                 if cont (if b0 = 240 then 144 else 128) (if b0 = 244 then 143 else 191) b1
                    \<and> cont 128 191 b2 \<and> cont 128 191 b3
                 then Some ((b0 - 240) * 262144 + (b1 - 128) * 4096 + (b2 - 128) * 64 + (b3 - 128), bs) else None
             | _ \<Rightarrow> None)
          else None)"

lemma utf8_char_length: "utf8_char bs = Some (c, rest) \<Longrightarrow> length rest < length bs"
  by (auto simp: utf8_char_def split: list.split_asm if_split_asm)

function from_utf8 :: "nat list \<Rightarrow> nat list option" where
  "from_utf8 bs =
     (if bs = [] then Some []
      else case utf8_char bs of
        None \<Rightarrow> None
      | Some (c, rest) \<Rightarrow> map_option ((#) c) (from_utf8 rest))"
  by pat_completeness auto
termination by (relation "measure length") (auto dest: utf8_char_length)

declare from_utf8.simps [simp del]

text \<open>The white space of Unicode.\<close>

definition is_whitespace :: "nat \<Rightarrow> bool" where
  "is_whitespace c \<longleftrightarrow>
     c \<in> {9, 10, 11, 12, 13, 32, 133, 160, 5760, 8232, 8233, 8239, 8287, 12288} \<or> 8192 \<le> c \<and> c \<le> 8202"

definition next_word :: "nat list \<Rightarrow> (nat list \<times> nat list) option" where
  "next_word cs =
     (let cs = dropWhile is_whitespace cs
      in if cs = [] then None
         else Some (takeWhile (\<lambda>c. \<not> is_whitespace c) cs, dropWhile (\<lambda>c. \<not> is_whitespace c) cs))"

text \<open>
  Lower case. No character outside of ASCII has a lower case with letters of the word compared with
  only, so ASCII is enough for the comparison.
\<close>

definition to_lower :: "nat \<Rightarrow> nat" where
  "to_lower c = (if 65 \<le> c \<and> c \<le> 90 then c + 32 else c)"

definition CONNECT :: "nat list" where
  "CONNECT = [99, 111, 110, 110, 101, 99, 116]"

section \<open>The request\<close>

text \<open>The errors of the multiplexer.\<close>

datatype 'io MuxerError =
  EpollAdd 'io | EpollFdCreate 'io | InvalidPortRequest | UnixAccept 'io | UnixBind 'io | UnixConnect 'io
  | UnixRead 'io | TooManyConnections

definition MIN_READ_LEN :: nat where "MIN_READ_LEN = 10"

text \<open>\<open>rd s n\<close> is \<open>read_exact\<close> into \<open>n\<close> bytes. The rest of the line is read byte by byte.\<close>

function read_line ::
  "('s \<Rightarrow> nat \<Rightarrow> 's \<times> ('io + u8 list)) \<Rightarrow> 's \<Rightarrow> u8 list \<Rightarrow> 's \<times> ('io MuxerError + u8 list)" where
  "read_line rd s buf =
     (if last buf \<noteq> 10 \<and> length buf < 32
      then (case rd s 1 of
              (s, Inl e) \<Rightarrow> (s, Err (UnixRead e))
            | (s, Inr bs) \<Rightarrow> read_line rd s (buf @ [hd bs]))
      else (s, Ok buf))"
  by pat_completeness auto
termination by (relation "measure (\<lambda>(rd, s, buf). 32 - length buf)") auto

declare read_line.simps [simp del]

definition parse_port_request :: "u8 list \<Rightarrow> 'io MuxerError + u32" where
  "parse_port_request buf =
     (case from_utf8 (map unat buf) of
        None \<Rightarrow> Err InvalidPortRequest
      | Some cs \<Rightarrow>
          rbind (ok_or (next_word cs) InvalidPortRequest) (\<lambda>(word, cs).
          rbind (if map to_lower word = CONNECT then Ok () else Err InvalidPortRequest) (\<lambda>_.
          rbind (ok_or (next_word cs) InvalidPortRequest) (\<lambda>(word, cs).
          ok_or (parse_u32 word) InvalidPortRequest))))"

definition read_local_stream_port ::
  "('s \<Rightarrow> nat \<Rightarrow> 's \<times> ('io + u8 list)) \<Rightarrow> 's \<Rightarrow> 's \<times> ('io MuxerError + u32)" where
  "read_local_stream_port rd s =
     (case rd s MIN_READ_LEN of
        (s, Inl e) \<Rightarrow> (s, Err (UnixRead e))
      | (s, Inr buf) \<Rightarrow>
          (case read_line rd s buf of
             (s, Inl e) \<Rightarrow> (s, Err e)
           | (s, Inr buf) \<Rightarrow> (s, parse_port_request buf)))"

section \<open>Printing and parsing\<close>

lemma unat_digit: "n < 10 \<Longrightarrow> unat (48 + of_nat n :: u8) = 48 + n"
  by (subst unat_add_small) (simp_all add: unat_of_nat)

lemma dec_digits_range: "b \<in> set (dec_digits n) \<Longrightarrow> 48 \<le> unat b \<and> unat b \<le> 57"
  by (induction n rule: dec_digits.induct)
    (subst (asm) (2) dec_digits.simps, auto simp: unat_digit split: if_split_asm)

lemma length_dec_digits: "n < 10 ^ k \<Longrightarrow> 0 < k \<Longrightarrow> length (dec_digits n) \<le> k"
proof (induction k arbitrary: n)
  case (Suc k)
  show ?case
  proof (cases "n < 10")
    case False
    then have "0 < k" using Suc.prems by (cases k) auto
    moreover have "n div 10 < 10 ^ k" using Suc.prems by (simp add: less_mult_imp_div_less)
    ultimately have "length (dec_digits (n div 10)) \<le> k" using Suc.IH by blast
    then show ?thesis using False by (subst dec_digits.simps) simp
  qed (subst dec_digits.simps, simp)
qed simp

lemma dec_digits_not_Nil: "dec_digits n \<noteq> []"
  by (subst dec_digits.simps) simp

lemma parse_digits_append:
  "parse_digits a (xs @ ys) = Option.bind (parse_digits a xs) (\<lambda>b. parse_digits b ys)"
  by (induction a xs rule: parse_digits.induct) auto

lemma parse_dec_digits: "n < 2 ^ 32 \<Longrightarrow> parse_digits 0 (map unat (dec_digits n)) = Some n"
proof (induction n rule: dec_digits.induct)
  case (1 n)
  show ?case
  proof (cases "n < 10")
    case True
    then show ?thesis using 1 by (subst dec_digits.simps) (simp add: unat_digit)
  next
    case False
    then show ?thesis using 1 by (subst dec_digits.simps) (simp add: parse_digits_append unat_digit)
  qed
qed

lemma parse_u32_dec: "parse_u32 (map unat (dec_digits (unat w))) = Some w"
proof -
  obtain b bs where d: "dec_digits (unat w) = b # bs" using dec_digits_not_Nil by (cases "dec_digits (unat w)") auto
  have "48 \<le> unat b" using dec_digits_range [of b "unat w"] d by simp
  then show ?thesis
    using parse_dec_digits [of "unat w"] unat_bound [of w] by (simp add: parse_u32_def d)
qed

lemma from_utf8_ascii: "list_all (\<lambda>c. c < 128) cs \<Longrightarrow> from_utf8 cs = Some cs"
  by (induction cs) (subst from_utf8.simps, simp add: utf8_char_def)+

lemma word_not_whitespace:
  assumes "map to_lower w = CONNECT"
  shows "list_all (\<lambda>c. c < 128 \<and> \<not> is_whitespace c) w" "length w = 7" "w \<noteq> []"
proof -
  have "to_lower c \<in> set CONNECT" if "c \<in> set w" for c using assms that by (metis image_eqI set_map)
  then show "list_all (\<lambda>c. c < 128 \<and> \<not> is_whitespace c) w"
    by (fastforce simp: list_all_iff to_lower_def CONNECT_def is_whitespace_def split: if_split_asm)
  show "length w = 7" using arg_cong [OF assms, of length] by (simp add: CONNECT_def)
  then show "w \<noteq> []" by auto
qed

lemma next_word_append:
  assumes "list_all (\<lambda>c. \<not> is_whitespace c) w" and "w \<noteq> []" and "is_whitespace c" and "list_all is_whitespace pre"
  shows "next_word (pre @ w @ c # rest) = Some (w, c # rest)"
proof -
  have "dropWhile is_whitespace (pre @ w @ c # rest) = w @ c # rest"
    using assms by (cases w) (simp_all add: list_all_iff)
  then show ?thesis using assms by (simp add: next_word_def list_all_iff)
qed

lemma digits_ascii: "b \<in> set (dec_digits n) \<Longrightarrow> unat b < 128 \<and> \<not> is_whitespace (unat b)"
  using dec_digits_range [of b n] by (auto simp: is_whitespace_def)

lemma parse_request:
  assumes "map to_lower (map unat w) = CONNECT"
  shows "parse_port_request (w @ 32 # dec_digits (unat port) @ [10]) = Ok port"
proof -
  let ?d = "map unat (dec_digits (unat port))"
  note w = word_not_whitespace [OF assms]
  have d: "list_all (\<lambda>c. c < 128 \<and> \<not> is_whitespace c) ?d"
    by (simp add: list_all_iff digits_ascii)
  have "from_utf8 (map unat (w @ 32 # dec_digits (unat port) @ [10])) = Some (map unat w @ 32 # ?d @ [10])"
    using w(1) d by (subst from_utf8_ascii) (auto simp: list_all_iff)
  moreover have "next_word ([] @ map unat w @ 32 # ?d @ [10]) = Some (map unat w, 32 # ?d @ [10])"
    using w by (intro next_word_append) (auto simp: list_all_iff is_whitespace_def)
  moreover have "next_word ([32] @ ?d @ 10 # []) = Some (?d, [10])"
    using d dec_digits_not_Nil by (intro next_word_append) (auto simp: list_all_iff is_whitespace_def)
  ultimately show ?thesis using assms by (simp add: parse_port_request_def ok_or_def parse_u32_dec)
qed

section \<open>Reading the request\<close>

text \<open>What \<open>read_exact\<close> promises: it takes exactly the bytes asked for, when they are there.\<close>

locale exact_reader =
  fixes rd :: "'s \<Rightarrow> nat \<Rightarrow> 's \<times> ('io + u8 list)" and avail :: "'s \<Rightarrow> u8 list"
  assumes read_exact: "n \<le> length (avail s) \<Longrightarrow> \<exists>s'. rd s n = (s', Inr (take n (avail s))) \<and> avail s' = drop n (avail s)"
begin

lemma read_line_reads:
  assumes "avail s = l @ rest" and "length buf + length l \<le> 32" and "buf @ l = pre @ [10]" and "10 \<notin> set pre" and "buf \<noteq> []"
  shows "\<exists>s'. read_line rd s buf = (s', Ok (buf @ l)) \<and> avail s' = rest"
  using assms
proof (induction l arbitrary: s buf)
  case Nil
  then have "last buf = 10" by simp
  then have "read_line rd s buf = (s, Ok buf)" by (subst read_line.simps) simp
  then show ?case using Nil.prems(1) by simp
next
  case (Cons b l)
  have nl: "last buf \<noteq> 10"
  proof -
    have "pre = butlast (buf @ b # l)" using Cons.prems(3) by (metis butlast_snoc)
    then have "set buf \<subseteq> set pre" by (simp add: butlast_append)
    then show ?thesis using Cons.prems(4) last_in_set [OF Cons.prems(5)] by (metis subsetD)
  qed
  obtain s' where s': "rd s 1 = (s', Inr [b])" "avail s' = l @ rest"
    using read_exact [of 1 s] Cons.prems(1) by auto
  have "read_line rd s buf = read_line rd s' (buf @ [b])"
    using nl s'(1) Cons.prems(2) by (subst read_line.simps) simp
  moreover have "\<exists>s''. read_line rd s' (buf @ [b]) = (s'', Ok ((buf @ [b]) @ l)) \<and> avail s'' = rest"
    using Cons.prems(2-4) by (intro Cons.IH [OF s'(2)]) simp_all
  ultimately show ?case by simp
qed

lemma port_request:
  assumes "avail s = w @ 32 # dec_digits (unat port) @ 10 # rest" and "map to_lower (map unat w) = CONNECT"
  shows "\<exists>s'. read_local_stream_port rd s = (s', Ok port) \<and> avail s' = rest"
proof -
  let ?d = "dec_digits (unat port)"
  define line where "line = w @ 32 # ?d @ [10]"
  define a b where "a = take 10 line" and "b = drop 10 line"
  have w: "length w = 7" using word_not_whitespace(2) [OF assms(2)] by simp
  have "unat port < 10 ^ 10" using unat_bound [of port] by simp
  then have d: "length ?d \<le> 10" "1 \<le> length ?d"
    using length_dec_digits [of "unat port" 10] dec_digits_not_Nil [of "unat port"] by (simp_all add: Suc_le_eq)
  have "10 \<notin> set w" using word_not_whitespace(1) [OF assms(2)] by (auto simp: list_all_iff is_whitespace_def)
  moreover have "10 \<notin> set ?d" using digits_ascii [of 10 "unat port"] by (auto simp: is_whitespace_def)
  ultimately have pre: "10 \<notin> set (w @ 32 # ?d)" by simp
  have "length line = 9 + length ?d" using w by (simp add: line_def)
  then have ab: "a @ b = line" "length a = 10" "length a + length b \<le> 32" "a \<noteq> []"
    using d by (auto simp: a_def b_def)
  have av: "avail s = a @ b @ rest" using assms(1) ab(1) by (simp add: line_def)
  then obtain s1 where s1: "rd s 10 = (s1, Inr a)" "avail s1 = b @ rest"
    using read_exact [of 10 s] ab(2) by auto
  have "a @ b = (w @ 32 # ?d) @ [10]" using ab(1) by (simp add: line_def)
  then obtain s2 where "read_line rd s1 a = (s2, Ok line)" "avail s2 = rest"
    using read_line_reads [OF s1(2) ab(3) _ pre ab(4)] ab(1) by auto
  then show ?thesis
    using s1(1) parse_request [OF assms(2), of port, where 'a = 'io]
    by (simp add: read_local_stream_port_def MIN_READ_LEN_def line_def)
qed

end

text \<open>A stream of bytes; reading more than there is fails.\<close>

definition list_read :: "u8 list \<Rightarrow> nat \<Rightarrow> u8 list \<times> (unit + u8 list)" where
  "list_read s n = (if n \<le> length s then (drop n s, Inr (take n s)) else (s, Inl ()))"

interpretation lr: exact_reader list_read "\<lambda>s. s"
  by unfold_locales (simp add: list_read_def)

section \<open>Properties\<close>

text \<open>
  (C30) A host process that writes \<open>connect\<close> in any case, a blank and the decimal digits of a port on a
  line has exactly that line read and is understood, for every port of 32 bits.
\<close>

theorem port_request_roundtrip:
  assumes "exact_reader rd avail" and "map to_lower (map unat w) = CONNECT"
    and "avail s = w @ 32 # dec_digits (unat port) @ 10 # rest"
  shows "\<exists>s'. read_local_stream_port rd s = (s', Ok port) \<and> avail s' = rest"
  using exact_reader.port_request [OF assms(1,3,2)] .

theorem port_request_roundtrip_witness:
  "\<exists>s'. read_local_stream_port list_read ([67, 79, 78, 78, 69, 67, 84] @ 32 # dec_digits (unat (1024 :: u32)) @ 10 # [1, 2])
      = (s', Ok 1024) \<and> s' = [1, 2]"
  using port_request_roundtrip [OF lr.exact_reader_axioms, of "[67, 79, 78, 78, 69, 67, 84]" _ 1024 "[1, 2]"]
  by (simp add: to_lower_def CONNECT_def)

end
