(* ===== verification/RateLimiter.thy ===== *)
theory RateLimiter
  imports Prelude
begin

text \<open>
  The I/O rate limiter of \<^verbatim>\<open>src/rate_limiter/src/lib.rs\<close> and its saved state
  (\<^verbatim>\<open>persist.rs\<close>): the token bucket, the limiter with its two buckets and its timer, and
  the bound on what a bucket lets through.

  An \<open>Instant\<close> is a number of nanoseconds (\<open>nat\<close>), and what \<open>Instant::now()\<close> returns is an
  argument of the operation that calls it. The \<open>f64\<close> type is a parameter \<open>'f\<close> with the four
  operations the code uses, so nothing proved here depends on rounding. The timer descriptor
  (package timerfd) is represented by the state it was last set to; what its \<open>read\<close> returns
  is an argument.
\<close>

section \<open>The token bucket\<close>

definition NANOSEC_IN_ONE_MILLISEC :: u64 where
  "NANOSEC_IN_ONE_MILLISEC = 1000000"

definition REFILL_TIMER_INTERVAL_MS :: u64 where
  "REFILL_TIMER_INTERVAL_MS = 100"

function gcd_u64 :: "u64 \<Rightarrow> u64 \<Rightarrow> u64" where
  "gcd_u64 x y = (if y \<noteq> 0 then gcd_u64 y (x mod y) else x)"
  by pat_completeness auto
termination
  by (relation "measure (\<lambda>(x, y). unat y)") (auto simp: unat_mod unat_gt_0)

declare gcd_u64.simps [simp del]

record 'f f64_ops =
  f64_of_u64 :: "u64 \<Rightarrow> 'f"
  f64_div :: "'f \<Rightarrow> 'f \<Rightarrow> 'f"
  f64_mul :: "'f \<Rightarrow> 'f \<Rightarrow> 'f"
  f64_to_u64 :: "'f \<Rightarrow> u64"

datatype 'f BucketReduction = Failure | Success | OverConsumption 'f

record TokenBucket =
  tb_size :: u64
  tb_initial_one_time_burst :: u64
  tb_refill_time :: u64
  tb_one_time_burst :: u64
  tb_budget :: u64
  tb_last_update :: nat
  tb_processed_capacity :: u64
  tb_processed_refill_time :: u64

text \<open>
  The divisions cannot fail: the common factor divides \<open>size\<close>, which is not zero here
  (\<open>gcd_u64_pos\<close> below).
\<close>

definition tb_new :: "nat \<Rightarrow> u64 \<Rightarrow> u64 \<Rightarrow> u64 \<Rightarrow> TokenBucket option" where
  "tb_new now sz one_time_burst complete_refill_time_ms =
     (if sz = 0 \<or> complete_refill_time_ms = 0 then None
      else let complete_refill_time_ns = complete_refill_time_ms * NANOSEC_IN_ONE_MILLISEC;
               common_factor = gcd_u64 sz complete_refill_time_ns;
               processed_capacity = sz div common_factor;
               processed_refill_time = complete_refill_time_ns div common_factor
           in Some \<lparr>tb_size = sz, tb_initial_one_time_burst = one_time_burst,
                    tb_refill_time = complete_refill_time_ms,
                    tb_one_time_burst = one_time_burst, tb_budget = sz,
                    tb_last_update = now, tb_processed_capacity = processed_capacity,
                    tb_processed_refill_time = processed_refill_time\<rparr>)"

definition auto_replenish :: "nat \<Rightarrow> TokenBucket \<Rightarrow> TokenBucket exec" where
  "auto_replenish now b =
     (let time_delta = (of_nat (now - tb_last_update b) :: u64)
      in if tb_processed_refill_time b = 0 then Panic
         else let tokens = time_delta * tb_processed_capacity b div tb_processed_refill_time b
              in if tb_processed_capacity b = 0 then Panic
                 else Done (b\<lparr>tb_last_update := tb_last_update b +
                                unat (tokens * tb_processed_refill_time b
                                      div tb_processed_capacity b),
                              tb_budget := min (tb_budget b + tokens) (tb_size b)\<rparr>))"

text \<open>The part of \<open>reduce\<close> after the burst budget has been used.\<close>

definition reduce_budget ::
  "'f f64_ops \<Rightarrow> nat \<Rightarrow> u64 \<Rightarrow> TokenBucket \<Rightarrow> ('f BucketReduction \<times> TokenBucket) exec" where
  "reduce_budget F now tokens b =
     (if tokens > tb_budget b
      then ebind (auto_replenish now b)
             (\<lambda>b. if tokens > tb_size b
                  then Done (OverConsumption
                               (f64_div F (f64_of_u64 F (tokens - tb_budget b))
                                          (f64_of_u64 F (tb_size b))),
                             b\<lparr>tb_budget := 0\<rparr>)
                  else if tokens > tb_budget b then Done (Failure, b)
                  else Done (Success, b\<lparr>tb_budget := tb_budget b - tokens\<rparr>))
      else Done (Success, b\<lparr>tb_budget := tb_budget b - tokens\<rparr>))"

definition tb_reduce ::
  "'f f64_ops \<Rightarrow> nat \<Rightarrow> u64 \<Rightarrow> TokenBucket \<Rightarrow> ('f BucketReduction \<times> TokenBucket) exec" where
  "tb_reduce F now tokens b =
     (if tb_one_time_burst b > 0
      then if tb_one_time_burst b \<ge> tokens
           then Done (Success, b\<lparr>tb_one_time_burst := tb_one_time_burst b - tokens,
                                 tb_last_update := now\<rparr>)
           else reduce_budget F now (tokens - tb_one_time_burst b) (b\<lparr>tb_one_time_burst := 0\<rparr>)
      else reduce_budget F now tokens b)"

definition force_replenish :: "u64 \<Rightarrow> TokenBucket \<Rightarrow> TokenBucket" where
  "force_replenish tokens b =
     (if tb_one_time_burst b > 0
      then b\<lparr>tb_one_time_burst := tb_one_time_burst b + tokens\<rparr>
      else b\<lparr>tb_budget := min (tb_budget b + tokens) (tb_size b)\<rparr>)"

section \<open>The rate limiter\<close>

datatype TokenType = Bytes | Ops

datatype BucketUpdate = NoUpdate | Disabled | Update TokenBucket

datatype TimerState = Disarmed | Oneshot u64

datatype RateLimiterError = SpuriousRateLimiterEvent

record RateLimiter =
  rl_bandwidth :: "TokenBucket option"
  rl_ops :: "TokenBucket option"
  rl_timer_fd :: TimerState
  rl_timer_active :: bool

definition TIMER_REFILL_STATE :: TimerState where
  "TIMER_REFILL_STATE = Oneshot REFILL_TIMER_INTERVAL_MS"


definition activate_timer :: "TimerState \<Rightarrow> RateLimiter \<Rightarrow> RateLimiter" where
  "activate_timer st r = r\<lparr>rl_timer_fd := st, rl_timer_active := True\<rparr>"

fun rl_bucket :: "TokenType \<Rightarrow> RateLimiter \<Rightarrow> TokenBucket option" where
  "rl_bucket Bytes r = rl_bandwidth r"
| "rl_bucket Ops r = rl_ops r"

fun rl_set_bucket :: "TokenType \<Rightarrow> TokenBucket \<Rightarrow> RateLimiter \<Rightarrow> RateLimiter" where
  "rl_set_bucket Bytes b r = r\<lparr>rl_bandwidth := Some b\<rparr>"
| "rl_set_bucket Ops b r = r\<lparr>rl_ops := Some b\<rparr>"

definition consume ::
  "'f f64_ops \<Rightarrow> nat \<Rightarrow> u64 \<Rightarrow> TokenType \<Rightarrow> RateLimiter \<Rightarrow> (bool \<times> RateLimiter) exec" where
  "consume F now tokens tt r =
     (if rl_timer_active r then Done (False, r)
      else case rl_bucket tt r of
        None \<Rightarrow> Done (True, r)
      | Some bucket \<Rightarrow>
          let refill_time = tb_refill_time bucket
          in ebind (tb_reduce F now tokens bucket)
               (\<lambda>(res, bucket').
                  let r' = rl_set_bucket tt bucket' r
                  in case res of
                       Failure \<Rightarrow>
                         Done (False, if \<not> rl_timer_active r'
                                      then activate_timer TIMER_REFILL_STATE r' else r')
                     | Success \<Rightarrow> Done (True, r')
                     | OverConsumption ratio \<Rightarrow>
                         Done (True, activate_timer
                           (Oneshot (f64_to_u64 F (f64_mul F ratio (f64_of_u64 F refill_time))))
                           r')))"

definition manual_replenish :: "u64 \<Rightarrow> TokenType \<Rightarrow> RateLimiter \<Rightarrow> RateLimiter" where
  "manual_replenish tokens tt r =
     (case rl_bucket tt r of None \<Rightarrow> r
      | Some bucket \<Rightarrow> rl_set_bucket tt (force_replenish tokens bucket) r)"

definition is_blocked :: "RateLimiter \<Rightarrow> bool" where
  "is_blocked r = rl_timer_active r"

definition event_handler :: "u64 \<Rightarrow> RateLimiter \<Rightarrow> (RateLimiterError + unit) \<times> RateLimiter" where
  "event_handler expirations r =
     (if expirations = 0 then (Err SpuriousRateLimiterEvent, r)
      else (Ok (), r\<lparr>rl_timer_active := False\<rparr>))"

definition update_buckets :: "BucketUpdate \<Rightarrow> BucketUpdate \<Rightarrow> RateLimiter \<Rightarrow> RateLimiter" where
  "update_buckets bytes ops r =
     (let r = (case bytes of Disabled \<Rightarrow> r\<lparr>rl_bandwidth := None\<rparr>
               | Update tb \<Rightarrow> r\<lparr>rl_bandwidth := Some tb\<rparr> | NoUpdate \<Rightarrow> r)
      in case ops of Disabled \<Rightarrow> r\<lparr>rl_ops := None\<rparr>
         | Update tb \<Rightarrow> r\<lparr>rl_ops := Some tb\<rparr> | NoUpdate \<Rightarrow> r)"

section \<open>Saved state\<close>

record TokenBucketState =
  tbs_size :: u64
  tbs_one_time_burst :: u64
  tbs_refill_time :: u64
  tbs_budget :: u64
  tbs_elapsed_ns :: u64

record RateLimiterState =
  rls_ops :: "TokenBucketState option"
  rls_bandwidth :: "TokenBucketState option"

definition tb_save :: "nat \<Rightarrow> TokenBucket \<Rightarrow> TokenBucketState" where
  "tb_save now b =
     \<lparr>tbs_size = tb_size b, tbs_one_time_burst = tb_one_time_burst b,
      tbs_refill_time = tb_refill_time b, tbs_budget = tb_budget b,
      tbs_elapsed_ns = of_nat (now - tb_last_update b)\<rparr>"

text \<open>\<open>None\<close> is the \<open>InvalidInput\<close> error of a state whose bucket \<open>new\<close> would refuse.\<close>

definition tb_restore :: "nat \<Rightarrow> TokenBucketState \<Rightarrow> TokenBucket option" where
  "tb_restore now st =
     (let last_update = (if unat (tbs_elapsed_ns st) \<le> now
                         then now - unat (tbs_elapsed_ns st) else now)
      in map_option (\<lambda>b. b\<lparr>tb_budget := tbs_budget st, tb_last_update := last_update\<rparr>)
           (tb_new now (tbs_size st) (tbs_one_time_burst st) (tbs_refill_time st)))"

definition rl_save :: "nat \<Rightarrow> RateLimiter \<Rightarrow> RateLimiterState" where
  "rl_save now r =
     \<lparr>rls_ops = map_option (tb_save now) (rl_ops r),
      rls_bandwidth = map_option (tb_save now) (rl_bandwidth r)\<rparr>"

definition restore_opt ::
  "nat \<Rightarrow> TokenBucketState option \<Rightarrow> TokenBucket option option" where
  "restore_opt now st =
     (case st of None \<Rightarrow> Some None | Some s \<Rightarrow> map_option Some (tb_restore now s))"

definition rl_restore :: "nat \<Rightarrow> bool \<Rightarrow> RateLimiterState \<Rightarrow> RateLimiter option" where
  "rl_restore now timer_ok st =
     (case restore_opt now (rls_ops st) of
        None \<Rightarrow> None
      | Some ops \<Rightarrow>
          (case restore_opt now (rls_bandwidth st) of
             None \<Rightarrow> None
           | Some bw \<Rightarrow>
               if timer_ok
               then Some \<lparr>rl_bandwidth = bw, rl_ops = ops, rl_timer_fd = Disarmed,
                          rl_timer_active = False\<rparr>
               else None))"

section \<open>The greatest common divisor\<close>

lemma unat_gcd_u64: "unat (gcd_u64 x y) = gcd (unat x) (unat y)"
proof (induction x y rule: gcd_u64.induct)
  case (1 x y)
  show ?case
  proof (cases "y = 0")
    case True
    then show ?thesis by (subst gcd_u64.simps) simp
  next
    case False
    with 1 have "unat (gcd_u64 y (x mod y)) = gcd (unat y) (unat (x mod y))" by simp
    with False show ?thesis
      by (simp add: gcd_u64.simps [of x y] unat_mod gcd_red_nat [of "unat x" "unat y"])
  qed
qed

lemma gcd_u64_pos: "x \<noteq> 0 \<Longrightarrow> gcd_u64 x y \<noteq> 0"
  by (metis gcd_eq_0_iff unat_0 unat_gcd_u64 unat_eq_zero)

section \<open>The bucket invariant\<close>

text \<open>
  The budget never exceeds the size, and \<open>processed_capacity / processed_refill_time\<close> is the
  configured rate: \<open>size\<close> tokens in \<open>refill_time\<close> milliseconds.
\<close>

definition refill_ns :: "TokenBucket \<Rightarrow> nat" where
  "refill_ns b = unat (tb_refill_time b) * 1000000"

definition tb_inv :: "TokenBucket \<Rightarrow> bool" where
  "tb_inv b \<longleftrightarrow>
     0 < unat (tb_size b) \<and> tb_budget b \<le> tb_size b
     \<and> 0 < unat (tb_processed_capacity b) \<and> 0 < unat (tb_processed_refill_time b)
     \<and> unat (tb_processed_capacity b) * refill_ns b
        = unat (tb_processed_refill_time b) * unat (tb_size b)"

lemma tb_new_None: "tb_new now sz burst ms = None \<longleftrightarrow> sz = 0 \<or> ms = 0"
  by (simp add: tb_new_def Let_def)

lemma tb_new_inv:
  assumes new: "tb_new now sz burst ms = Some b" and small: "unat ms * 1000000 < 2 ^ 64"
  shows "tb_inv b"
proof -
  define ns where "ns = ms * NANOSEC_IN_ONE_MILLISEC"
  define g where "g = gcd (unat sz) (unat ns)"
  from new have nz: "sz \<noteq> 0" "ms \<noteq> 0" by (auto simp: tb_new_def split: if_splits)
  have uns: "unat ns = unat ms * 1000000"
    using small by (simp add: ns_def NANOSEC_IN_ONE_MILLISEC_def unat_mult_small)
  from nz have pos: "0 < unat sz" "0 < unat ns" by (simp_all add: uns unat_gt_0)
  then have g: "0 < g" by (simp add: g_def)
  from new nz have b:
    "b = \<lparr>tb_size = sz, tb_initial_one_time_burst = burst, tb_refill_time = ms,
          tb_one_time_burst = burst, tb_budget = sz, tb_last_update = now,
          tb_processed_capacity = sz div gcd_u64 sz ns,
          tb_processed_refill_time = ns div gcd_u64 sz ns\<rparr>"
    by (simp add: tb_new_def Let_def ns_def)
  have cap: "unat (tb_processed_capacity b) = unat sz div g"
    and rt: "unat (tb_processed_refill_time b) = unat ns div g"
    by (simp_all add: b unat_div unat_gcd_u64 g_def)
  have "unat sz div g * unat ns = unat ns div g * unat sz"
    by (metis div_mult_swap dvd_div_mult g_def gcd_dvd1 gcd_dvd2 mult.commute)
  moreover have "0 < unat sz div g" and "0 < unat ns div g"
    using pos g by (simp_all add: g_def div_greater_zero_iff)
  ultimately show ?thesis
    using pos by (simp add: tb_inv_def cap rt refill_ns_def) (simp add: b uns)
qed

text \<open>
  When the products fit in 64 bits, \<open>auto_replenish\<close> adds what the configured rate gives for the
  time since the last update, rounded down, and moves \<open>last_update\<close> by the time those tokens
  took, also rounded down.
\<close>

definition replenish_fits :: "nat \<Rightarrow> TokenBucket \<Rightarrow> bool" where
  "replenish_fits now b \<longleftrightarrow>
     unat (tb_size b) + (now - tb_last_update b) * unat (tb_processed_capacity b) < 2 ^ 64"

lemma auto_replenish_eq:
  assumes inv: "tb_inv b" and fits: "replenish_fits now b"
  defines "cap \<equiv> unat (tb_processed_capacity b)" and "rt \<equiv> unat (tb_processed_refill_time b)"
  defines "t \<equiv> (now - tb_last_update b) * cap div rt"
  obtains b' where "auto_replenish now b = Done b'"
    and "tb_last_update b' = tb_last_update b + t * rt div cap"
    and "unat (tb_budget b') = min (unat (tb_budget b) + t) (unat (tb_size b))"
    and "b' = b\<lparr>tb_last_update := tb_last_update b', tb_budget := tb_budget b'\<rparr>"
proof -
  let ?d = "of_nat (now - tb_last_update b) :: u64"
  let ?tk = "?d * tb_processed_capacity b div tb_processed_refill_time b"
  from inv have cap0: "0 < cap" and rt0: "0 < rt" by (simp_all add: tb_inv_def cap_def rt_def)
  from fits have fit: "unat (tb_size b) + (now - tb_last_update b) * cap < 2 ^ 64"
    by (simp add: replenish_fits_def cap_def)
  have "now - tb_last_update b \<le> (now - tb_last_update b) * cap" using cap0 by simp
  with fit have dlt: "now - tb_last_update b < 2 ^ 64" by linarith
  then have ud: "unat ?d = now - tb_last_update b"
    by (simp add: unat_of_nat)
  have "unat (?d * tb_processed_capacity b) = (now - tb_last_update b) * cap"
    using fit by (subst unat_mult_small) (simp_all add: ud cap_def)
  then have ut: "unat ?tk = t" by (simp add: unat_div t_def rt_def)
  have tle: "t * rt \<le> (now - tb_last_update b) * cap"
    by (simp add: t_def)
  have "unat (?tk * tb_processed_refill_time b) = t * rt"
    using tle fit by (subst unat_mult_small) (simp_all add: ut rt_def)
  then have ul: "unat (?tk * tb_processed_refill_time b div tb_processed_capacity b)
                 = t * rt div cap"
    by (simp add: unat_div cap_def)
  have "t \<le> (now - tb_last_update b) * cap"
    using tle rt0 by (metis le_trans less_eq_Suc_le mult.right_neutral mult_le_mono2 One_nat_def)
  moreover have "unat (tb_budget b) \<le> unat (tb_size b)"
    using inv by (simp add: tb_inv_def word_le_nat_alt)
  ultimately have "unat (tb_budget b) + t < 2 ^ 64" using fit by linarith
  then have ub: "unat (tb_budget b + ?tk) = unat (tb_budget b) + t"
    by (subst unat_add_small) (simp_all add: ut)
  let ?b = "b\<lparr>tb_last_update := tb_last_update b + t * rt div cap,
              tb_budget := min (tb_budget b + ?tk) (tb_size b)\<rparr>"
  have "auto_replenish now b = Done ?b"
    using inv by (auto simp: auto_replenish_def Let_def tb_inv_def unat_gt_0 ul)
  moreover have "unat (min (tb_budget b + ?tk) (tb_size b))
                 = min (unat (tb_budget b) + t) (unat (tb_size b))"
    by (simp add: min_def word_le_nat_alt ub)
  ultimately show thesis by (intro that [of ?b]) simp_all
qed

lemma replenish_le_now:
  assumes "t0 \<le> (now :: nat)" and "0 < cap"
  shows "t0 + (now - t0) * cap div rt * rt div cap \<le> now"
proof -
  have "(now - t0) * cap div rt * rt div cap \<le> (now - t0) * cap div cap"
    by (intro div_le_mono) simp
  with assms show ?thesis by simp
qed

lemma floor_carry:
  assumes "0 < (cap :: nat)"
  shows "x \<le> (x div cap + 1) * cap"
proof -
  have "x = x div cap * cap + x mod cap" by simp
  also have "\<dots> \<le> x div cap * cap + cap"
    using assms by (intro add_left_mono) (simp add: less_imp_le)
  finally show ?thesis by simp
qed

section \<open>One call of reduce\<close>

text \<open>
  What a call leaves unchanged, and what the accounting of tokens against time is: a call that
  lets \<open>n\<close> tokens through takes them from the burst, from the budget, or from the tokens the
  elapsed time has earned, up to the rounding of one nanosecond.
\<close>

definition same_config :: "TokenBucket \<Rightarrow> TokenBucket \<Rightarrow> bool" where
  "same_config b b' \<longleftrightarrow>
     tb_size b' = tb_size b \<and> tb_refill_time b' = tb_refill_time b
     \<and> tb_processed_capacity b' = tb_processed_capacity b
     \<and> tb_processed_refill_time b' = tb_processed_refill_time b"

definition granted :: "'f BucketReduction \<Rightarrow> u64 \<Rightarrow> nat" where
  "granted r tokens = (case r of Success \<Rightarrow> unat tokens | _ \<Rightarrow> 0)"

definition credit :: "TokenBucket \<Rightarrow> nat" where
  "credit b = unat (tb_one_time_burst b) + unat (tb_budget b)"

definition accounts :: "nat \<Rightarrow> nat \<Rightarrow> TokenBucket \<Rightarrow> TokenBucket \<Rightarrow> bool" where
  "accounts n k b b' \<longleftrightarrow>
     tb_last_update b \<le> tb_last_update b'
     \<and> (n + credit b') * unat (tb_processed_refill_time b)
        \<le> credit b * unat (tb_processed_refill_time b)
           + (tb_last_update b' - tb_last_update b + k) * unat (tb_processed_capacity b)"

lemma same_config_refl [simp]: "same_config b b"
  by (simp add: same_config_def)

lemma same_config_trans: "same_config a b \<Longrightarrow> same_config b c \<Longrightarrow> same_config a c"
  by (simp add: same_config_def)

lemma accounts_refl: "accounts 0 k b b"
  by (simp add: accounts_def)

lemma accounts_trans:
  assumes ab: "accounts n k a b" and bc: "accounts m l b c" and cfg: "same_config a b"
  shows "accounts (n + m) (k + l) a c"
proof -
  let ?rt = "unat (tb_processed_refill_time a)" and ?cap = "unat (tb_processed_capacity a)"
  let ?x = "tb_last_update b - tb_last_update a" and ?y = "tb_last_update c - tb_last_update b"
  from ab have 1: "(n + credit b) * ?rt \<le> credit a * ?rt + (?x + k) * ?cap"
    and la: "tb_last_update a \<le> tb_last_update b"
    unfolding accounts_def by blast+
  from bc cfg have 2: "(m + credit c) * ?rt \<le> credit b * ?rt + (?y + l) * ?cap"
    and lb: "tb_last_update b \<le> tb_last_update c"
    unfolding accounts_def same_config_def by metis+
  have arith: "(x + p) * c + (y + q) * c = (x + y + (p + q)) * c" for x y p q c :: nat
    by (simp add: algebra_simps)
  have xy: "?x + ?y = tb_last_update c - tb_last_update a" using la lb by simp
  have "(n + m + credit c) * ?rt + credit b * ?rt
        = (n + credit b) * ?rt + (m + credit c) * ?rt"
    by (simp add: distrib_right)
  also have "\<dots> \<le> credit a * ?rt + (?x + k) * ?cap + (credit b * ?rt + (?y + l) * ?cap)"
    using 1 2 by (rule add_mono)
  also have "\<dots> = credit a * ?rt + (?x + ?y + (k + l)) * ?cap + credit b * ?rt"
    using arith [of ?x k ?cap ?y l] by linarith
  finally have "(n + m + credit c) * ?rt
      \<le> credit a * ?rt + (tb_last_update c - tb_last_update a + (k + l)) * ?cap"
    by (simp only: xy add_le_cancel_right)
  with la lb show ?thesis unfolding accounts_def by (auto intro: le_trans)
qed

lemma accounts_mono: "accounts n k a b \<Longrightarrow> k \<le> l \<Longrightarrow> accounts n l a b"
  unfolding accounts_def by (meson add_left_mono le_trans mult_le_mono1 nat_add_left_cancel_le)

lemma accounts_less: "accounts n k a b \<Longrightarrow> m \<le> n \<Longrightarrow> accounts m k a b"
  unfolding accounts_def by (meson add_le_mono1 le_trans mult_le_mono1)

text \<open>Taking tokens that are there: from the budget, and from the burst.\<close>

lemma spend_budget:
  assumes "tb_inv b" and "\<not> tokens > tb_budget b"
  defines "b' \<equiv> b\<lparr>tb_budget := tb_budget b - tokens\<rparr>"
  shows "tb_inv b'" and "same_config b b'" and "accounts (unat tokens) 0 b b'"
    and "tb_last_update b' = tb_last_update b"
proof -
  from assms(2) have sub: "unat (tb_budget b - tokens) = unat (tb_budget b) - unat tokens"
    and le: "unat tokens \<le> unat (tb_budget b)"
    by (simp_all add: unat_sub_le word_le_nat_alt not_less)
  show "tb_inv b'"
    using assms(1) sub by (auto simp: b'_def tb_inv_def refill_ns_def word_le_nat_alt)
  show "accounts (unat tokens) 0 b b'"
    using le by (simp add: b'_def accounts_def credit_def sub)
qed (simp_all add: b'_def same_config_def)

lemma spend_burst:
  assumes "tb_inv b" and "tb_one_time_burst b \<ge> tokens" and "tb_last_update b \<le> now"
  defines "b' \<equiv> b\<lparr>tb_one_time_burst := tb_one_time_burst b - tokens, tb_last_update := now\<rparr>"
  shows "tb_inv b'" and "same_config b b'" and "accounts (unat tokens) 0 b b'"
    and "tb_last_update b' = now"
proof -
  from assms(2) have sub: "unat (tb_one_time_burst b - tokens)
      = unat (tb_one_time_burst b) - unat tokens" "unat tokens \<le> unat (tb_one_time_burst b)"
    by (simp_all add: unat_sub_le word_le_nat_alt)
  then have "unat tokens + credit b' = credit b" by (simp add: b'_def credit_def)
  with assms(3) show "accounts (unat tokens) 0 b b'"
    by (simp add: accounts_def b'_def)
qed (use assms(1) in \<open>simp_all add: b'_def tb_inv_def same_config_def refill_ns_def\<close>)

lemma auto_replenish_accounts:
  assumes inv: "tb_inv b" and fits: "replenish_fits now b" and le: "tb_last_update b \<le> now"
  obtains b' where "auto_replenish now b = Done b'" and "tb_inv b'" and "same_config b b'"
    and "tb_last_update b' \<le> now" and "accounts 0 1 b b'"
    and "tb_one_time_burst b' = tb_one_time_burst b"
proof -
  let ?cap = "unat (tb_processed_capacity b)" and ?rt = "unat (tb_processed_refill_time b)"
  let ?t = "(now - tb_last_update b) * ?cap div ?rt"
  obtain b' where b': "auto_replenish now b = Done b'"
    and last: "tb_last_update b' = tb_last_update b + ?t * ?rt div ?cap"
    and bud: "unat (tb_budget b') = min (unat (tb_budget b) + ?t) (unat (tb_size b))"
    and upd: "b' = b\<lparr>tb_last_update := tb_last_update b', tb_budget := tb_budget b'\<rparr>"
    using auto_replenish_eq [OF inv fits] by metis
  from inv have pos: "0 < ?cap" by (simp add: tb_inv_def)
  from upd have cfg: "same_config b b'" and burst: "tb_one_time_burst b' = tb_one_time_burst b"
    by (auto simp: same_config_def dest: arg_cong [where f = tb_size]
          arg_cong [where f = tb_refill_time] arg_cong [where f = tb_processed_capacity]
          arg_cong [where f = tb_processed_refill_time] arg_cong [where f = tb_one_time_burst])
  from bud have "unat (tb_budget b') \<le> unat (tb_size b)" by simp
  with inv cfg have "tb_inv b'"
    by (simp add: tb_inv_def same_config_def refill_ns_def word_le_nat_alt)
  moreover have "tb_last_update b' \<le> now"
    using replenish_le_now [OF le pos] by (simp add: last)
  moreover have "accounts 0 1 b b'"
  proof -
    have "credit b' * ?rt \<le> (credit b + ?t) * ?rt"
      by (intro mult_right_mono) (simp_all add: credit_def burst bud)
    moreover have "?t * ?rt \<le> (?t * ?rt div ?cap + 1) * ?cap" by (rule floor_carry [OF pos])
    ultimately show ?thesis by (simp add: accounts_def last distrib_right)
  qed
  ultimately show thesis using b' cfg burst by (intro that)
qed

lemma reduce_budget_accounts:
  assumes inv: "tb_inv b" and fits: "replenish_fits now b" and le: "tb_last_update b \<le> now"
    and small: "tokens \<le> tb_size b"
  obtains r b' where "reduce_budget F now tokens b = Done (r, b')" and "tb_inv b'"
    and "same_config b b'" and "tb_last_update b' \<le> now" and "accounts (granted r tokens) 1 b b'"
    and "r = Success \<or> r = Failure"
proof (cases "tokens > tb_budget b")
  case False
  let ?b = "b\<lparr>tb_budget := tb_budget b - tokens\<rparr>"
  from False have "reduce_budget F now tokens b = Done (Success, ?b)"
    by (simp add: reduce_budget_def)
  then show thesis
    using spend_budget [OF inv False] accounts_mono [OF spend_budget(3) [OF inv False], of 1] le
    by (intro that [of Success ?b]) (auto simp: granted_def)
next
  case True
  obtain b1 where b1: "auto_replenish now b = Done b1" "tb_inv b1" "same_config b b1"
    "tb_last_update b1 \<le> now" "accounts 0 1 b b1"
    using auto_replenish_accounts [OF inv fits le] by metis
  have nsz: "\<not> tokens > tb_size b1" using small b1(3) by (simp add: same_config_def not_less)
  show thesis
  proof (cases "tokens > tb_budget b1")
    case short: True
    with True nsz b1 show thesis
      by (intro that [of Failure b1]) (simp_all add: reduce_budget_def granted_def)
  next
    case False
    let ?b = "b1\<lparr>tb_budget := tb_budget b1 - tokens\<rparr>"
    note sp = spend_budget [OF b1(2) False]
    have "reduce_budget F now tokens b = Done (Success, ?b)"
      using True False nsz b1(1) by (simp add: reduce_budget_def)
    then show thesis
      using sp b1(4) same_config_trans [OF b1(3) sp(2)] accounts_trans [OF b1(5) sp(3) b1(3)]
      by (intro that [of Success ?b]) (simp_all add: granted_def)
  qed
qed

lemma tb_reduce_accounts:
  assumes inv: "tb_inv b" and fits: "replenish_fits now b" and le: "tb_last_update b \<le> now"
    and small: "tokens \<le> tb_size b"
  obtains r b' where "tb_reduce F now tokens b = Done (r, b')" and "tb_inv b'"
    and "same_config b b'" and "tb_last_update b' \<le> now" and "accounts (granted r tokens) 1 b b'"
    and "r = Success \<or> r = Failure"
proof (cases "tb_one_time_burst b > 0")
  case False
  obtain r b' where rb: "reduce_budget F now tokens b = Done (r, b')" "tb_inv b'"
    "same_config b b'" "tb_last_update b' \<le> now" "accounts (granted r tokens) 1 b b'"
    "r = Success \<or> r = Failure"
    using reduce_budget_accounts [OF inv fits le small] by blast
  with False show thesis by (intro that [of r b']) (simp_all add: tb_reduce_def)
next
  case burst: True
  show thesis
  proof (cases "tb_one_time_burst b \<ge> tokens")
    case True
    let ?b = "b\<lparr>tb_one_time_burst := tb_one_time_burst b - tokens, tb_last_update := now\<rparr>"
    have "tb_reduce F now tokens b = Done (Success, ?b)"
      using burst True by (simp add: tb_reduce_def)
    then show thesis
      using spend_burst [OF inv True le] accounts_mono [OF spend_burst(3) [OF inv True le], of 1]
      by (intro that [of Success ?b]) (auto simp: granted_def)
  next
    case False
    let ?left = "tokens - tb_one_time_burst b" and ?b0 = "b\<lparr>tb_one_time_burst := 0\<rparr>"
    from False have left: "unat ?left = unat tokens - unat (tb_one_time_burst b)"
      and lt: "unat (tb_one_time_burst b) < unat tokens"
      by (simp_all add: unat_sub_le word_le_nat_alt)
    have small0: "?left \<le> tb_size ?b0" using small left by (auto simp: word_le_nat_alt)
    have pre: "tb_inv ?b0" "replenish_fits now ?b0" "tb_last_update ?b0 \<le> now"
      using inv fits le by (simp_all add: tb_inv_def replenish_fits_def refill_ns_def)
    obtain r b' where rb: "reduce_budget F now ?left ?b0 = Done (r, b')" "tb_inv b'"
      "same_config ?b0 b'" "tb_last_update b' \<le> now" "accounts (granted r ?left) 1 ?b0 b'"
      "r = Success \<or> r = Failure"
      by (rule reduce_budget_accounts [OF pre small0])
    have drop: "accounts (unat (tb_one_time_burst b)) 0 b ?b0"
      by (simp add: accounts_def credit_def)
    have "granted r tokens \<le> unat (tb_one_time_burst b) + granted r ?left"
      using lt left rb(6) by (auto simp: granted_def)
    moreover have "accounts (unat (tb_one_time_burst b) + granted r ?left) 1 b b'"
      using accounts_trans [OF drop rb(5)] by (simp add: same_config_def)
    ultimately have "accounts (granted r tokens) 1 b b'" by (rule accounts_less [rotated])
    with rb burst False show thesis
      by (intro that [of r b']) (simp_all add: tb_reduce_def same_config_def)
  qed
qed

section \<open>A sequence of requests\<close>

text \<open>
  \<open>tb_requests\<close> runs requests \<open>(time, tokens)\<close> one after the other and adds up the tokens of
  those that succeed.
\<close>

fun tb_requests ::
  "'f f64_ops \<Rightarrow> (nat \<times> u64) list \<Rightarrow> TokenBucket \<Rightarrow> (nat \<times> TokenBucket) exec" where
  "tb_requests F [] b = Done (0, b)"
| "tb_requests F ((now, tokens) # rs) b =
     ebind (tb_reduce F now tokens b)
       (\<lambda>(r, b'). ebind (tb_requests F rs b') (\<lambda>(g, b''). Done (granted r tokens + g, b'')))"

lemma replenish_fits_mono:
  assumes "replenish_fits t b" and "now \<le> t" and "same_config b b'"
    and "tb_last_update b \<le> tb_last_update b'"
  shows "replenish_fits now b'"
proof -
  have "(now - tb_last_update b') * unat (tb_processed_capacity b)
        \<le> (t - tb_last_update b) * unat (tb_processed_capacity b)"
    using assms(2,4) by (intro mult_le_mono1) simp
  with assms(1) have "unat (tb_size b) + (now - tb_last_update b') * unat (tb_processed_capacity b)
      < 2 ^ 64"
    unfolding replenish_fits_def by linarith
  with assms(3) show ?thesis by (simp add: replenish_fits_def same_config_def)
qed

lemma tb_requests_accounts:
  assumes "tb_inv b" and "replenish_fits t b" and "sorted (tb_last_update b # map fst rs)"
    and "\<forall>(now, tokens) \<in> set rs. now \<le> t \<and> tokens \<le> tb_size b" and "tb_last_update b \<le> t"
  shows "\<exists>g b'. tb_requests F rs b = Done (g, b') \<and> tb_inv b' \<and> same_config b b'
           \<and> tb_last_update b' \<le> t \<and> accounts g (length rs) b b'"
  using assms
proof (induction rs arbitrary: b)
  case Nil
  then show ?case by (simp add: accounts_refl)
next
  case (Cons r rs)
  obtain now tokens where r: "r = (now, tokens)" by (cases r)
  with Cons.prems have now: "tb_last_update b \<le> now" "now \<le> t" and tk: "tokens \<le> tb_size b"
    by auto
  obtain res b1 where b1: "tb_reduce F now tokens b = Done (res, b1)" "tb_inv b1"
    "same_config b b1" "tb_last_update b1 \<le> now" "accounts (granted res tokens) 1 b b1"
    by (rule tb_reduce_accounts [OF Cons.prems(1) replenish_fits_mono [OF Cons.prems(2) now(2)]
          now(1) tk]) simp_all
  have mono: "tb_last_update b \<le> tb_last_update b1" using b1(5) by (simp add: accounts_def)
  have "\<exists>g b'. tb_requests F rs b1 = Done (g, b') \<and> tb_inv b' \<and> same_config b1 b'
          \<and> tb_last_update b' \<le> t \<and> accounts g (length rs) b1 b'"
  proof (rule Cons.IH)
    show "replenish_fits t b1"
      by (rule replenish_fits_mono [OF Cons.prems(2) order_refl b1(3) mono])
    show "sorted (tb_last_update b1 # map fst rs)"
      using Cons.prems(3) b1(4) r by auto
    show "\<forall>(now, tokens) \<in> set rs. now \<le> t \<and> tokens \<le> tb_size b1"
      using Cons.prems(4) b1(3) by (auto simp: same_config_def)
  qed (use b1(2,4) now(2) in auto)
  then obtain g b' where g: "tb_requests F rs b1 = Done (g, b')" "tb_inv b'" "same_config b1 b'"
    "tb_last_update b' \<le> t" "accounts g (length rs) b1 b'" by blast
  have "accounts (granted res tokens + g) (length (r # rs)) b b'"
    using accounts_trans [OF b1(5) g(5) b1(3)] by simp
  then show ?case using r b1(1) g same_config_trans [OF b1(3) g(3)] by simp
qed

lemma accounts_bound:
  assumes acc: "accounts g k b b'" and inv: "tb_inv b" and le: "tb_last_update b' \<le> t"
  shows "g * refill_ns b \<le> credit b * refill_ns b + (t - tb_last_update b + k) * unat (tb_size b)"
proof -
  let ?rt = "unat (tb_processed_refill_time b)" and ?cap = "unat (tb_processed_capacity b)"
  let ?S = "unat (tb_size b)" and ?R = "refill_ns b" and ?e = "t - tb_last_update b + k"
  from inv have eq: "?cap * ?R = ?rt * ?S" and cap: "0 < ?cap" by (simp_all add: tb_inv_def)
  have "g * ?rt \<le> (g + credit b') * ?rt" by simp
  also have "\<dots> \<le> credit b * ?rt + (tb_last_update b' - tb_last_update b + k) * ?cap"
    using acc unfolding accounts_def by blast
  also have "\<dots> \<le> credit b * ?rt + ?e * ?cap"
    using le by (intro add_left_mono mult_le_mono1) simp
  finally have "g * ?rt * ?S \<le> (credit b * ?rt + ?e * ?cap) * ?S" by (rule mult_le_mono1)
  moreover have "g * ?rt * ?S = ?cap * (g * ?R)"
    by (simp only: mult.assoc eq [symmetric]) (simp only: mult.left_commute)
  moreover have "(credit b * ?rt + ?e * ?cap) * ?S = ?cap * (credit b * ?R + ?e * ?S)"
    by (simp only: distrib_right distrib_left mult.assoc eq [symmetric])
      (simp only: mult.left_commute)
  ultimately show ?thesis using cap by simp
qed

lemma processed_capacity_le_size:
  "tb_new now sz burst ms = Some b \<Longrightarrow> unat (tb_processed_capacity b) \<le> unat sz"
  by (auto simp: tb_new_def Let_def unat_div split: if_splits)

lemma tb_new_fields:
  "tb_new now sz burst ms = Some b \<Longrightarrow>
   tb_size b = sz \<and> tb_refill_time b = ms \<and> tb_one_time_burst b = burst
   \<and> tb_initial_one_time_burst b = burst \<and> tb_budget b = sz \<and> tb_last_update b = now"
  by (auto simp: tb_new_def Let_def split: if_splits)

text \<open>
  (C22) A bucket never lets through more than its configuration allows. Take a bucket as
  \<open>TokenBucket::new\<close> makes it, with \<open>size\<close> tokens per \<open>refill_time\<close> milliseconds and an extra
  \<open>burst\<close>, and any requests at non-decreasing times up to \<open>t\<close>, none of them larger than the
  bucket. If neither the refill time in nanoseconds nor the products of the replenishment exceed
  64 bits in that period, every call returns, and the tokens granted in total are at most the
  burst, plus the size, plus what the rate gives for the elapsed time and one nanosecond for each
  call.
\<close>

theorem bucket_rate_bound:
  assumes new: "tb_new t0 sz burst ms = Some b"
    and ms: "unat ms * 1000000 < 2 ^ 64"
    and fits: "unat sz + (t - t0) * unat (tb_processed_capacity b) < 2 ^ 64"
    and times: "sorted (t0 # map fst rs @ [t])"
    and reqs: "\<forall>r \<in> set rs. snd r \<le> sz"
  shows "\<exists>g b'. tb_requests F rs b = Done (g, b')
           \<and> g * (unat ms * 1000000)
              \<le> (unat burst + unat sz) * (unat ms * 1000000)
                 + (t - t0 + length rs) * unat sz"
proof -
  note f = tb_new_fields [OF new]
  have inv: "tb_inv b" by (rule tb_new_inv [OF new ms])
  have rf: "replenish_fits t b" using fits by (simp add: replenish_fits_def f)
  from times have "\<forall>(now, tokens) \<in> set rs. now \<le> t" and le: "t0 \<le> t"
    and srt: "sorted (tb_last_update b # map fst rs)"
    by (auto simp: sorted_append f split: prod.splits)
  then have "\<forall>(now, tokens) \<in> set rs. now \<le> t \<and> tokens \<le> tb_size b"
    using reqs f by fastforce
  then obtain g b' where g: "tb_requests F rs b = Done (g, b')" "tb_last_update b' \<le> t"
    "accounts g (length rs) b b'"
    using tb_requests_accounts [OF inv rf srt, of F] le f by (metis (no_types, lifting))
  from accounts_bound [OF g(3) inv g(2)] g(1) show ?thesis
    by (intro exI conjI) (simp_all add: f refill_ns_def credit_def)
qed

definition unit_f64 :: "unit f64_ops" where
  "unit_f64 = \<lparr>f64_of_u64 = (\<lambda>_. ()), f64_div = (\<lambda>_ _. ()), f64_mul = (\<lambda>_ _. ()),
               f64_to_u64 = (\<lambda>_. 0)\<rparr>"

lemma bucket_rate_bound_witness:
  "\<exists>g b'. tb_requests unit_f64 [(1000, 4), (500000, 8)] (the (tb_new 0 10 5 1)) = Done (g, b')
     \<and> g * 1000000 \<le> (5 + 10) * 1000000 + (2000000 + 2) * 10"
proof -
  have new: "tb_new 0 10 5 1 = Some (the (tb_new 0 10 5 1))"
    by (simp add: tb_new_def Let_def)
  have "unat (tb_processed_capacity (the (tb_new 0 10 5 1))) \<le> 10"
    using processed_capacity_le_size [OF new] by simp
  then show ?thesis
    using bucket_rate_bound [OF new, of 2000000 "[(1000, 4), (500000, 8)]" unit_f64] by simp
qed

lemma gcd_u64_0 [simp]: "gcd_u64 x 0 = x"
  by (subst gcd_u64.simps) simp

lemma gcd_u64_eqI: "gcd (unat x) (unat y) = unat z \<Longrightarrow> gcd_u64 x y = z"
  by (simp add: word_unat_eq_iff unat_gcd_u64)

lemma gcd_u64_example: "gcd_u64 3000000 10000000 = 1000000"
  by (rule gcd_u64_eqI) (simp add: gcd_non_0_nat)

lemma tb_new_example:
  "tb_new 0 3000000 0 10 =
     Some \<lparr>tb_size = 3000000, tb_initial_one_time_burst = 0, tb_refill_time = 10,
           tb_one_time_burst = 0, tb_budget = 3000000, tb_last_update = 0,
           tb_processed_capacity = 3, tb_processed_refill_time = 10\<rparr>"
  by (simp add: tb_new_def Let_def NANOSEC_IN_ONE_MILLISEC_def gcd_u64_example)

lemma reduce_example:
  "tb_reduce F (t + 4) 1
     \<lparr>tb_size = 3000000, tb_initial_one_time_burst = 0, tb_refill_time = 10,
      tb_one_time_burst = 0, tb_budget = 0, tb_last_update = t,
      tb_processed_capacity = 3, tb_processed_refill_time = 10\<rparr>
   = Done (Success,
     \<lparr>tb_size = 3000000, tb_initial_one_time_burst = 0, tb_refill_time = 10,
      tb_one_time_burst = 0, tb_budget = 0, tb_last_update = t + 3,
      tb_processed_capacity = 3, tb_processed_refill_time = 10\<rparr>)"
  by (simp add: tb_reduce_def reduce_budget_def auto_replenish_def)

text \<open>
  (C32) The bound cannot drop its one nanosecond per call. The time that \<open>last_update\<close> advances by
  is rounded down, so the fraction of a nanosecond that a token still needed is given back at
  every call: a bucket of 3000000 tokens per 10 milliseconds, drained at time 0 and asked for
  one token at 4, 7, 10 and 13 nanoseconds, grants 4 of them, and the configured rate gives
  3.9 in that time.
\<close>

theorem refill_rounding_exceeds_rate:
  "\<exists>b g b'. tb_new 0 3000000 0 10 = Some b
     \<and> tb_requests F [(0, 3000000), (4, 1), (7, 1), (10, 1), (13, 1)] b = Done (g, b')
     \<and> 3000000 * refill_ns b + 13 * unat (tb_size b) < g * refill_ns b"
proof -
  define b where "b = the (tb_new 0 3000000 0 10)"
  have new: "tb_new 0 3000000 0 10 = Some b" by (simp add: b_def tb_new_example)
  have drain: "tb_reduce F 0 3000000 b = Done (Success, b\<lparr>tb_budget := 0\<rparr>)"
    by (simp add: b_def tb_new_example tb_reduce_def reduce_budget_def)
  have "\<exists>b'. tb_requests F [(4, 1), (7, 1), (10, 1), (13, 1)] (b\<lparr>tb_budget := 0\<rparr>) = Done (4, b')"
    using reduce_example [of F 0] reduce_example [of F 3] reduce_example [of F 6]
      reduce_example [of F 9]
    by (simp add: b_def tb_new_example granted_def)
  then obtain b' where
    "tb_requests F [(0, 3000000), (4, 1), (7, 1), (10, 1), (13, 1)] b = Done (3000004, b')"
    using drain by (auto simp: granted_def)
  moreover have "refill_ns b = 10000000" and "unat (tb_size b) = 3000000"
    by (simp_all add: b_def tb_new_example refill_ns_def)
  ultimately show ?thesis
    using new by (intro exI [of _ b] exI [of _ 3000004] exI [of _ b'] conjI) simp_all
qed

lemma reduce_budget_config: "reduce_budget F now n b = Done (res, b') \<Longrightarrow> same_config b b'"
  by (auto simp: reduce_budget_def auto_replenish_def exec_simps same_config_def Let_def split: if_splits)

lemma tb_reduce_config: "tb_reduce F now n b = Done (res, b') \<Longrightarrow> same_config b b'"
  by (auto simp: tb_reduce_def split: if_splits dest!: reduce_budget_config) (auto simp: same_config_def)

lemma tb_requests_config: "tb_requests F rs b = Done (g, b') \<Longrightarrow> same_config b b'"
proof (induction rs arbitrary: b g)
  case (Cons r rs)
  then obtain res b1 g1 where "tb_reduce F (fst r) (snd r) b = Done (res, b1)" "tb_requests F rs b1 = Done (g1, b')"
    by (cases r) (auto simp: exec_simps)
  then show ?case using tb_reduce_config Cons.IH same_config_trans by blast
qed simp

text \<open>A request for more than burst and budget hold replenishes the bucket, which divides.\<close>

lemma short_request_panics:
  assumes "tb_processed_refill_time b = 0" and "credit b < unat tokens"
  shows "tb_reduce F now tokens b = Panic"
proof -
  have short: "reduce_budget F now n b' = Panic" if "tb_processed_refill_time b' = 0" "tb_budget b' < n" for n b'
    using that by (simp add: reduce_budget_def auto_replenish_def)
  have "tb_budget b < tokens - tb_one_time_burst b" "\<not> tokens \<le> tb_one_time_burst b"
    using assms(2) by (simp_all add: credit_def word_less_nat_alt word_le_nat_alt unat_sub_if')
  then show ?thesis using short [of b tokens] short [of "b\<lparr>tb_one_time_burst := 0\<rparr>" "tokens - tb_one_time_burst b"] assms(1)
    by (auto simp: tb_reduce_def not_less)
qed

text \<open>
  (C33) The refill time is converted to nanoseconds without a check. A refill time that is not zero
  but a multiple of \<open>2 ^ 64\<close> in nanoseconds is accepted, with any size and burst, and after any
  requests the first one for more tokens than burst and budget still hold divides by zero and aborts.
\<close>

theorem refill_time_overflow_panics:
  assumes "ms \<noteq> 0" and "ms * NANOSEC_IN_ONE_MILLISEC = 0" and "sz \<noteq> 0"
  shows "\<exists>b. tb_new t sz burst ms = Some b
    \<and> (\<forall>rs g b' now tokens. tb_requests F rs b = Done (g, b') \<and> credit b' < unat tokens \<longrightarrow>
         tb_reduce F now tokens b' = Panic)"
proof -
  obtain b where b: "tb_new t sz burst ms = Some b" "tb_processed_refill_time b = 0"
    using assms by (simp add: tb_new_def Let_def)
  then show ?thesis
    using short_request_panics tb_requests_config by (metis same_config_def)
qed

lemma refill_time_overflow_panics_witness:
  "\<exists>b b'. tb_new 0 10 5 (2 ^ 58) = Some b \<and> tb_requests unit_f64 [(3, 12)] b = Done (12, b') \<and> credit b' = 3
     \<and> tb_reduce unit_f64 4 4 b' = Panic"
proof -
  have ms: "(2 ^ 58 :: u64) \<noteq> 0" "2 ^ 58 * NANOSEC_IN_ONE_MILLISEC = 0" "(10 :: u64) \<noteq> 0"
    by (simp_all add: NANOSEC_IN_ONE_MILLISEC_def)
  obtain b where b: "tb_new 0 10 5 (2 ^ 58) = Some b"
    "\<forall>rs g b' now tokens. tb_requests unit_f64 rs b = Done (g, b') \<and> credit b' < unat tokens \<longrightarrow>
       tb_reduce unit_f64 now tokens b' = Panic"
    using refill_time_overflow_panics [OF ms] by blast
  have "\<exists>b'. tb_requests unit_f64 [(3, 12)] b = Done (12, b') \<and> credit b' = 3"
    using tb_new_fields [OF b(1)] by (simp add: tb_reduce_def reduce_budget_def granted_def credit_def)
  then obtain b' where b': "tb_requests unit_f64 [(3, 12)] b = Done (12, b')" "credit b' = 3" by blast
  then have "credit b' < unat (4 :: u64)" by simp
  with b b' show ?thesis by blast
qed

section \<open>The limiter as a state machine\<close>

datatype rl_op =
    OpConsume nat u64 TokenType
  | OpReplenish u64 TokenType
  | OpEvent u64
  | OpUpdate BucketUpdate BucketUpdate

text \<open>\<open>rl_run\<close> applies operations in order and collects what the \<open>consume\<close> calls returned.\<close>

fun rl_exec :: "'f f64_ops \<Rightarrow> rl_op \<Rightarrow> RateLimiter \<Rightarrow> (bool list \<times> RateLimiter) exec" where
  "rl_exec F (OpConsume now n tt) r = ebind (consume F now n tt r) (\<lambda>(ok, r'). Done ([ok], r'))"
| "rl_exec F (OpReplenish n tt) r = Done ([], manual_replenish n tt r)"
| "rl_exec F (OpEvent e) r = Done ([], snd (event_handler e r))"
| "rl_exec F (OpUpdate u v) r = Done ([], update_buckets u v r)"

fun rl_run :: "'f f64_ops \<Rightarrow> rl_op list \<Rightarrow> RateLimiter \<Rightarrow> (bool list \<times> RateLimiter) exec" where
  "rl_run F [] r = Done ([], r)"
| "rl_run F (x # xs) r =
     ebind (rl_exec F x r)
       (\<lambda>(o1, r1). ebind (rl_run F xs r1) (\<lambda>(o2, r2). Done (o1 @ o2, r2)))"

lemmas rl_op_defs =
  manual_replenish_def update_buckets_def event_handler_def activate_timer_def is_blocked_def

lemma rl_set_bucket_timer [simp]:
  "rl_timer_active (rl_set_bucket tt b r) = rl_timer_active r"
  "rl_timer_fd (rl_set_bucket tt b r) = rl_timer_fd r"
  by (cases tt; simp)+

lemma update_buckets_timer [simp]:
  "rl_timer_active (update_buckets u v r) = rl_timer_active r"
  "rl_timer_fd (update_buckets u v r) = rl_timer_fd r"
  by (simp_all add: update_buckets_def split: BucketUpdate.splits)

lemma manual_replenish_timer [simp]:
  "rl_timer_active (manual_replenish n tt r) = rl_timer_active r"
  "rl_timer_fd (manual_replenish n tt r) = rl_timer_fd r"
  by (simp_all add: manual_replenish_def split: option.splits)

lemma blocked_exec:
  assumes "is_blocked r" and "\<forall>e. x = OpEvent e \<longrightarrow> e = 0"
  shows "\<exists>os r'. rl_exec F x r = Done (os, r') \<and> is_blocked r'
           \<and> rl_timer_fd r' = rl_timer_fd r \<and> set os \<subseteq> {False}"
  using assms by (cases x) (auto simp: is_blocked_def consume_def event_handler_def)

text \<open>
  (C23) Once the limiter has blocked it stays blocked: whatever operations follow, in any order and
  at any time, every \<open>consume\<close> is refused and the timer is left as it was set, until the event
  handler reads an expiration.
\<close>

theorem limiter_blocks_until_timer:
  assumes "is_blocked r" and "\<forall>e. OpEvent e \<in> set xs \<longrightarrow> e = 0"
  shows "\<exists>os r'. rl_run F xs r = Done (os, r') \<and> is_blocked r'
           \<and> rl_timer_fd r' = rl_timer_fd r \<and> set os \<subseteq> {False}"
  using assms
proof (induction xs arbitrary: r)
  case Nil
  then show ?case by simp
next
  case (Cons x xs)
  then obtain o1 r1 where 1: "rl_exec F x r = Done (o1, r1)" "is_blocked r1"
    "rl_timer_fd r1 = rl_timer_fd r" "set o1 \<subseteq> {False}"
    using blocked_exec [of r x F] by auto
  obtain o2 r2 where "rl_run F xs r1 = Done (o2, r2)" "is_blocked r2"
    "rl_timer_fd r2 = rl_timer_fd r1" "set o2 \<subseteq> {False}"
    using Cons.IH [OF 1(2)] Cons.prems(2) by auto
  with 1 show ?case by simp
qed

lemma limiter_blocks_until_timer_witness:
  "\<exists>os r'. rl_run unit_f64 [OpConsume 7 3 Bytes, OpEvent 0, OpUpdate Disabled Disabled,
                           OpConsume 9 1 Ops]
      \<lparr>rl_bandwidth = None, rl_ops = None, rl_timer_fd = Oneshot 100, rl_timer_active = True\<rparr>
      = Done (os, r') \<and> is_blocked r' \<and> rl_timer_fd r' = Oneshot 100 \<and> set os \<subseteq> {False}"
  using limiter_blocks_until_timer [of
      "\<lparr>rl_bandwidth = None, rl_ops = None, rl_timer_fd = Oneshot 100, rl_timer_active = True\<rparr>"
      "[OpConsume 7 3 Bytes, OpEvent 0, OpUpdate Disabled Disabled, OpConsume 9 1 Ops]" unit_f64]
  by (simp add: is_blocked_def)

section \<open>What every reachable limiter satisfies\<close>






















definition example_limiter :: RateLimiter where
  "example_limiter = \<lparr>rl_bandwidth = None, rl_ops = Some
     \<lparr>tb_size = 3000000, tb_initial_one_time_burst = 0, tb_refill_time = 10,
      tb_one_time_burst = 0, tb_budget = 3000000, tb_last_update = 0,
      tb_processed_capacity = 3, tb_processed_refill_time = 10\<rparr>,
     rl_timer_fd = Disarmed, rl_timer_active = False\<rparr>"


section \<open>Saving and restoring\<close>

text \<open>\<open>processed\<close> says that the two processed fields are those \<open>new\<close> computes.\<close>

definition processed :: "TokenBucket \<Rightarrow> bool" where
  "processed b \<longleftrightarrow>
     tb_size b \<noteq> 0 \<and> tb_refill_time b \<noteq> 0
     \<and> (let ns = tb_refill_time b * NANOSEC_IN_ONE_MILLISEC; g = gcd_u64 (tb_size b) ns
        in tb_processed_capacity b = tb_size b div g \<and> tb_processed_refill_time b = ns div g)"

lemma tb_new_processed: "tb_new now sz burst ms = Some b \<Longrightarrow> processed b"
  by (auto simp: tb_new_def processed_def Let_def split: if_splits)

text \<open>A bucket on another clock: what has elapsed since the last update is kept.\<close>

definition rebased :: "nat \<Rightarrow> nat \<Rightarrow> TokenBucket \<Rightarrow> TokenBucket" where
  "rebased t1 t2 b =
     b\<lparr>tb_initial_one_time_burst := tb_one_time_burst b, tb_last_update := t2 - (t1 - tb_last_update b)\<rparr>"

lemma tb_restore_save:
  assumes "processed b" and "t1 - tb_last_update b < 2 ^ 64" and "t1 - tb_last_update b \<le> t2"
  shows "tb_restore t2 (tb_save t1 b) = Some (rebased t1 t2 b)"
proof -
  have e: "unat (of_nat (t1 - tb_last_update b) :: u64) = t1 - tb_last_update b"
    using assms(2) by (simp add: unat_of_nat)
  have "tb_new t2 (tb_size b) (tb_one_time_burst b) (tb_refill_time b)
        = Some \<lparr>tb_size = tb_size b, tb_initial_one_time_burst = tb_one_time_burst b,
               tb_refill_time = tb_refill_time b, tb_one_time_burst = tb_one_time_burst b,
               tb_budget = tb_size b, tb_last_update = t2,
               tb_processed_capacity = tb_processed_capacity b,
               tb_processed_refill_time = tb_processed_refill_time b\<rparr>"
    using assms(1) by (simp add: tb_new_def processed_def Let_def)
  then show ?thesis
    using assms(3) by (simp add: tb_restore_def tb_save_def rebased_def e del: of_nat_diff)
qed

text \<open>What a request is answered, without the state it leaves.\<close>

definition answer :: "('r \<times> 's) exec \<Rightarrow> 'r exec" where
  "answer x = ebind x (\<lambda>(r, _). Done r)"

lemma reduce_budget_rebased:
  assumes "now' - l = now - tb_last_update b"
  shows "answer (reduce_budget F now' n (b\<lparr>tb_initial_one_time_burst := i, tb_last_update := l, tb_one_time_burst := v\<rparr>))
    = answer (reduce_budget F now n (b\<lparr>tb_one_time_burst := v\<rparr>))"
  using assms by (simp add: reduce_budget_def auto_replenish_def answer_def Let_def)

lemma tb_reduce_rebased:
  assumes "tb_last_update b \<le> t1" and "t1 - tb_last_update b \<le> t2"
  shows "answer (tb_reduce F (t2 + d) n (rebased t1 t2 b)) = answer (tb_reduce F (t1 + d) n b)"
proof -
  let ?b = "b\<lparr>tb_initial_one_time_burst := tb_one_time_burst b, tb_last_update := t2 - (t1 - tb_last_update b)\<rparr>"
  have "t2 + d - (t2 - (t1 - tb_last_update b)) = t1 + d - tb_last_update b" using assms by simp
  note rb = reduce_budget_rebased [OF this, where F = F and i = "tb_one_time_burst b"]
  have "?b = ?b\<lparr>tb_one_time_burst := tb_one_time_burst b\<rparr>" by simp
  then have "answer (reduce_budget F (t2 + d) m ?b) = answer (reduce_budget F (t1 + d) m b)" for m
    using rb [of m, where v = "tb_one_time_burst b"] by simp
  then show ?thesis using rb [where v = 0] by (simp add: tb_reduce_def rebased_def) (simp add: answer_def)
qed

definition saved_ok :: "nat \<Rightarrow> nat \<Rightarrow> TokenBucket option \<Rightarrow> bool" where
  "saved_ok t1 t2 x = (case x of None \<Rightarrow> True
     | Some b \<Rightarrow> processed b \<and> tb_last_update b \<le> t1 \<and> t1 - tb_last_update b < 2 ^ 64 \<and> t1 - tb_last_update b \<le> t2)"

lemma consume_answer:
  "\<not> rl_timer_active r \<Longrightarrow> answer (consume F now n tt r) =
     (case rl_bucket tt r of None \<Rightarrow> Done True
      | Some b \<Rightarrow> ebind (answer (tb_reduce F now n b)) (\<lambda>res. Done (res \<noteq> Failure)))"
  by (cases "the (rl_bucket tt r)"; cases "tb_reduce F now n (the (rl_bucket tt r))")
    (auto simp: consume_def answer_def Let_def split: option.split BucketReduction.split)

text \<open>
  (C31) A limiter saved at \<open>t1\<close> and restored at \<open>t2\<close>, on the same clock or another, has its two
  buckets back: sizes, rates, budgets and remaining bursts are kept, and so is the time that has
  elapsed since the last update. A limiter that was not blocked then answers every request \<open>d\<close>
  nanoseconds after the restore as it would have done \<open>d\<close> nanoseconds after it was saved. What is
  lost is the burst a bucket was first configured with, which becomes the burst that was left, and
  the timer: a limiter that was blocked comes back unblocked. The buckets are those \<open>new\<close> makes,
  were last updated before \<open>t1\<close>, less than \<open>2 ^ 64\<close> nanoseconds ago and no longer ago than the
  clock at \<open>t2\<close> can express.
\<close>

theorem limiter_restore_save:
  assumes "saved_ok t1 t2 (rl_bandwidth r)" and "saved_ok t1 t2 (rl_ops r)"
  shows "\<exists>r'. rl_restore t2 True (rl_save t1 r) = Some r'
    \<and> rl_bandwidth r' = map_option (rebased t1 t2) (rl_bandwidth r)
    \<and> rl_ops r' = map_option (rebased t1 t2) (rl_ops r)
    \<and> rl_timer_fd r' = Disarmed \<and> \<not> is_blocked r'
    \<and> (\<not> is_blocked r \<longrightarrow>
         (\<forall>d n tt. answer (consume F (t2 + d) n tt r') = answer (consume F (t1 + d) n tt r)))"
proof -
  let ?r = "\<lparr>rl_bandwidth = map_option (rebased t1 t2) (rl_bandwidth r),
     rl_ops = map_option (rebased t1 t2) (rl_ops r), rl_timer_fd = Disarmed, rl_timer_active = False\<rparr>"
  have restore: "rl_restore t2 True (rl_save t1 r) = Some ?r"
    using assms by (auto simp: rl_restore_def rl_save_def restore_opt_def saved_ok_def tb_restore_save
        split: option.splits)
  have "answer (consume F (t2 + d) n tt ?r) = answer (consume F (t1 + d) n tt r)"
    if "\<not> rl_timer_active r" for d n tt
  proof -
    have "rl_bucket tt ?r = map_option (rebased t1 t2) (rl_bucket tt r)" "saved_ok t1 t2 (rl_bucket tt r)"
      using assms by (cases tt; simp)+
    with that show ?thesis
      by (cases "rl_bucket tt r") (simp_all add: consume_answer saved_ok_def tb_reduce_rebased)
  qed
  with restore show ?thesis by (auto simp: is_blocked_def)
qed

lemma limiter_restore_save_witness:
  "\<exists>r'. rl_restore 900 True (rl_save 5 example_limiter) = Some r'
     \<and> rl_ops r' = map_option (\<lambda>b. b\<lparr>tb_last_update := 895\<rparr>) (rl_ops example_limiter)
     \<and> answer (consume unit_f64 (900 + 4) 3 Ops r') = answer (consume unit_f64 (5 + 4) 3 Ops example_limiter)"
proof -
  have "saved_ok 5 900 (rl_bandwidth example_limiter)" "saved_ok 5 900 (rl_ops example_limiter)"
    using tb_new_processed [OF tb_new_example] by (simp_all add: saved_ok_def example_limiter_def)
  from limiter_restore_save [OF this, of unit_f64] show ?thesis
    by (fastforce simp: example_limiter_def rebased_def is_blocked_def)
qed

end
