(* ===== verification/Seccomp.thy ===== *)
theory Seccomp
  imports Prelude
begin

text \<open>
  The backend of the seccomp filter compiler, \<^verbatim>\<open>src/seccompiler/src/backend.rs\<close>: the
  intermediate representation (conditions, rules, filters) and its translation into classic BPF
  code. The machine that runs the code is the kernel's and not part of the repository; it is
  represented by the interface \<open>bpf_machine\<close> at the end of the theory.
\<close>

section \<open>BPF code\<close>

record sock_filter =
  sf_code :: u16
  sf_jt :: u8
  sf_jf :: u8
  sf_k :: u32

type_synonym BpfProgram = "sock_filter list"

definition BPF_MAX_LEN :: nat where "BPF_MAX_LEN = 4096"

definition BPF_LD :: u16 where "BPF_LD = 0x00"
definition BPF_ALU :: u16 where "BPF_ALU = 0x04"
definition BPF_JMP :: u16 where "BPF_JMP = 0x05"
definition BPF_RET :: u16 where "BPF_RET = 0x06"
definition BPF_W :: u16 where "BPF_W = 0x00"
definition BPF_ABS :: u16 where "BPF_ABS = 0x20"
definition BPF_AND :: u16 where "BPF_AND = 0x50"
definition BPF_JA :: u16 where "BPF_JA = 0x00"
definition BPF_JEQ :: u16 where "BPF_JEQ = 0x10"
definition BPF_JGT :: u16 where "BPF_JGT = 0x20"
definition BPF_JGE :: u16 where "BPF_JGE = 0x30"
definition BPF_K :: u16 where "BPF_K = 0x00"

definition SECCOMP_RET_ALLOW :: u32 where "SECCOMP_RET_ALLOW = 0x7fff0000"
definition SECCOMP_RET_ERRNO :: u32 where "SECCOMP_RET_ERRNO = 0x00050000"
definition SECCOMP_RET_KILL_THREAD :: u32 where "SECCOMP_RET_KILL_THREAD = 0x00000000"
definition SECCOMP_RET_KILL_PROCESS :: u32 where "SECCOMP_RET_KILL_PROCESS = 0x80000000"
definition SECCOMP_RET_LOG :: u32 where "SECCOMP_RET_LOG = 0x7ffc0000"
definition SECCOMP_RET_TRACE :: u32 where "SECCOMP_RET_TRACE = 0x7ff00000"
definition SECCOMP_RET_TRAP :: u32 where "SECCOMP_RET_TRAP = 0x00030000"
definition SECCOMP_RET_MASK :: u32 where "SECCOMP_RET_MASK = 0x0000ffff"

definition AUDIT_ARCH_X86_64 :: u32 where
  "AUDIT_ARCH_X86_64 = 62 OR 0x80000000 OR 0x40000000"

definition AUDIT_ARCH_AARCH64 :: u32 where
  "AUDIT_ARCH_AARCH64 = 183 OR 0x80000000 OR 0x40000000"

definition ARG_NUMBER_MAX :: u8 where "ARG_NUMBER_MAX = 5"
definition CONDITION_MAX_LEN :: u8 where "CONDITION_MAX_LEN = 6"
definition SECCOMP_DATA_NR_OFFSET :: u8 where "SECCOMP_DATA_NR_OFFSET = 0"
definition SECCOMP_DATA_ARGS_OFFSET :: u8 where "SECCOMP_DATA_ARGS_OFFSET = 16"
definition SECCOMP_DATA_ARG_SIZE :: u8 where "SECCOMP_DATA_ARG_SIZE = 8"

definition BPF_JUMP :: "u16 \<Rightarrow> u32 \<Rightarrow> u8 \<Rightarrow> u8 \<Rightarrow> sock_filter" where
  "BPF_JUMP code k jt jf = \<lparr>sf_code = code, sf_jt = jt, sf_jf = jf, sf_k = k\<rparr>"

definition BPF_STMT :: "u16 \<Rightarrow> u32 \<Rightarrow> sock_filter" where
  "BPF_STMT code k = \<lparr>sf_code = code, sf_jt = 0, sf_jf = 0, sf_k = k\<rparr>"

section \<open>The intermediate representation\<close>

datatype TargetArch = x86_64 | aarch64

definition get_audit_value :: "TargetArch \<Rightarrow> u32" where
  "get_audit_value a = (case a of x86_64 \<Rightarrow> AUDIT_ARCH_X86_64 | aarch64 \<Rightarrow> AUDIT_ARCH_AARCH64)"

definition arch_to_string :: "TargetArch \<Rightarrow> string" where
  "arch_to_string a = (case a of x86_64 \<Rightarrow> ''x86_64'' | aarch64 \<Rightarrow> ''aarch64'')"

text \<open>
  \<open>str::to_lowercase\<close> on the letters that occur in the two names (no other character is
  lowered to one of them).
\<close>

definition char_to_lowercase :: "char \<Rightarrow> char" where
  "char_to_lowercase c =
     (let n = of_char c :: nat in if 65 \<le> n \<and> n \<le> 90 then char_of (n + 32) else c)"

definition arch_try_into :: "string \<Rightarrow> string + TargetArch" where
  "arch_try_into s =
     (let l = map char_to_lowercase s
      in if l = ''x86_64'' then Ok x86_64 else if l = ''aarch64'' then Ok aarch64
         else Err s)"

datatype SeccompCmpOp = Eq | Ge | Gt | Le | Lt | MaskedEq u64 | Ne

datatype SeccompCmpArgLen = Dword | Qword

record SeccompCondition =
  arg_number :: u8
  arg_len :: SeccompCmpArgLen
  operator :: SeccompCmpOp
  cond_value :: u64

datatype SeccompAction =
  Allow | Errno u32 | KillThread | KillProcess | Log | Trace u32 | Trap

record SeccompRule =
  conditions :: "SeccompCondition list"
  rule_action :: SeccompAction

text \<open>
  The rule map is a \<open>BTreeMap\<close>, iterated in increasing order of its (signed) keys: a list of its
  entries in that order.
\<close>

type_synonym SeccompRuleMap = "(i64 \<times> SeccompRule list) list"

record SeccompFilter =
  filter_rules :: SeccompRuleMap
  default_action :: SeccompAction
  target_arch :: TargetArch

datatype SeccompError =
    EmptyRulesVector
  | FilterTooLarge
  | InvalidArgumentNumber
  | Arch string
  | ConflictingRules i64

section \<open>Conditions\<close>

definition cond_validate :: "SeccompCondition \<Rightarrow> SeccompError + unit" where
  "cond_validate c =
     (if arg_number c > ARG_NUMBER_MAX then Err InvalidArgumentNumber else Ok ())"

definition value_segments :: "SeccompCondition \<Rightarrow> u32 \<times> u32 \<times> u8 \<times> u8" where
  "value_segments c =
     (let msb = ucast (drop_bit 32 (cond_value c)); lsb = ucast (cond_value c);
          arg_offset = SECCOMP_DATA_ARGS_OFFSET + arg_number c * SECCOMP_DATA_ARG_SIZE
      in (msb, lsb, arg_offset + SECCOMP_DATA_ARG_SIZE div 2, arg_offset))"

definition into_eq_bpf :: "SeccompCondition \<Rightarrow> u8 \<Rightarrow> sock_filter list" where
  "into_eq_bpf c offset =
     (let (msb, lsb, msb_offset, lsb_offset) = value_segments c;
          bpf = (case arg_len c of
                   Dword \<Rightarrow> []
                 | Qword \<Rightarrow>
                     [BPF_STMT (BPF_LD + BPF_W + BPF_ABS) (ucast msb_offset),
                      BPF_JUMP (BPF_JMP + BPF_JEQ + BPF_K) msb 0 (offset + 2)])
      in bpf @
         [BPF_STMT (BPF_LD + BPF_W + BPF_ABS) (ucast lsb_offset),
          BPF_JUMP (BPF_JMP + BPF_JEQ + BPF_K) lsb 0 offset])"

definition into_ge_bpf :: "SeccompCondition \<Rightarrow> u8 \<Rightarrow> sock_filter list" where
  "into_ge_bpf c offset =
     (let (msb, lsb, msb_offset, lsb_offset) = value_segments c;
          bpf = (case arg_len c of
                   Dword \<Rightarrow> []
                 | Qword \<Rightarrow>
                     [BPF_STMT (BPF_LD + BPF_W + BPF_ABS) (ucast msb_offset),
                      BPF_JUMP (BPF_JMP + BPF_JGT + BPF_K) msb 3 0,
                      BPF_JUMP (BPF_JMP + BPF_JEQ + BPF_K) msb 0 (offset + 2)])
      in bpf @
         [BPF_STMT (BPF_LD + BPF_W + BPF_ABS) (ucast lsb_offset),
          BPF_JUMP (BPF_JMP + BPF_JGE + BPF_K) lsb 0 offset])"

definition into_gt_bpf :: "SeccompCondition \<Rightarrow> u8 \<Rightarrow> sock_filter list" where
  "into_gt_bpf c offset =
     (let (msb, lsb, msb_offset, lsb_offset) = value_segments c;
          bpf = (case arg_len c of
                   Dword \<Rightarrow> []
                 | Qword \<Rightarrow>
                     [BPF_STMT (BPF_LD + BPF_W + BPF_ABS) (ucast msb_offset),
                      BPF_JUMP (BPF_JMP + BPF_JGT + BPF_K) msb 3 0,
                      BPF_JUMP (BPF_JMP + BPF_JEQ + BPF_K) msb 0 (offset + 2)])
      in bpf @
         [BPF_STMT (BPF_LD + BPF_W + BPF_ABS) (ucast lsb_offset),
          BPF_JUMP (BPF_JMP + BPF_JGT + BPF_K) lsb 0 offset])"

definition into_le_bpf :: "SeccompCondition \<Rightarrow> u8 \<Rightarrow> sock_filter list" where
  "into_le_bpf c offset =
     (let (msb, lsb, msb_offset, lsb_offset) = value_segments c;
          bpf = (case arg_len c of
                   Dword \<Rightarrow> []
                 | Qword \<Rightarrow>
                     [BPF_STMT (BPF_LD + BPF_W + BPF_ABS) (ucast msb_offset),
                      BPF_JUMP (BPF_JMP + BPF_JGT + BPF_K) msb (offset + 3) 0,
                      BPF_JUMP (BPF_JMP + BPF_JEQ + BPF_K) msb 0 2])
      in bpf @
         [BPF_STMT (BPF_LD + BPF_W + BPF_ABS) (ucast lsb_offset),
          BPF_JUMP (BPF_JMP + BPF_JGT + BPF_K) lsb offset 0])"

definition into_lt_bpf :: "SeccompCondition \<Rightarrow> u8 \<Rightarrow> sock_filter list" where
  "into_lt_bpf c offset =
     (let (msb, lsb, msb_offset, lsb_offset) = value_segments c;
          bpf = (case arg_len c of
                   Dword \<Rightarrow> []
                 | Qword \<Rightarrow>
                     [BPF_STMT (BPF_LD + BPF_W + BPF_ABS) (ucast msb_offset),
                      BPF_JUMP (BPF_JMP + BPF_JGT + BPF_K) msb (offset + 3) 0,
                      BPF_JUMP (BPF_JMP + BPF_JEQ + BPF_K) msb 0 2])
      in bpf @
         [BPF_STMT (BPF_LD + BPF_W + BPF_ABS) (ucast lsb_offset),
          BPF_JUMP (BPF_JMP + BPF_JGE + BPF_K) lsb offset 0])"

definition into_masked_eq_bpf :: "SeccompCondition \<Rightarrow> u8 \<Rightarrow> u64 \<Rightarrow> sock_filter list" where
  "into_masked_eq_bpf c offset mask_val =
     (let (_, _, msb_offset, lsb_offset) = value_segments c;
          masked_value = cond_value c AND mask_val;
          msb = ucast (drop_bit 32 masked_value); lsb = ucast masked_value;
          mask_msb = ucast (drop_bit 32 mask_val); mask_lsb = ucast mask_val;
          bpf = (case arg_len c of
                   Dword \<Rightarrow> []
                 | Qword \<Rightarrow>
                     [BPF_STMT (BPF_LD + BPF_W + BPF_ABS) (ucast msb_offset),
                      BPF_STMT (BPF_ALU + BPF_AND + BPF_K) mask_msb,
                      BPF_JUMP (BPF_JMP + BPF_JEQ + BPF_K) msb 0 (offset + 3)])
      in bpf @
         [BPF_STMT (BPF_LD + BPF_W + BPF_ABS) (ucast lsb_offset),
          BPF_STMT (BPF_ALU + BPF_AND + BPF_K) mask_lsb,
          BPF_JUMP (BPF_JMP + BPF_JEQ + BPF_K) lsb 0 offset])"

definition into_ne_bpf :: "SeccompCondition \<Rightarrow> u8 \<Rightarrow> sock_filter list" where
  "into_ne_bpf c offset =
     (let (msb, lsb, msb_offset, lsb_offset) = value_segments c;
          bpf = (case arg_len c of
                   Dword \<Rightarrow> []
                 | Qword \<Rightarrow>
                     [BPF_STMT (BPF_LD + BPF_W + BPF_ABS) (ucast msb_offset),
                      BPF_JUMP (BPF_JMP + BPF_JEQ + BPF_K) msb 0 2])
      in bpf @
         [BPF_STMT (BPF_LD + BPF_W + BPF_ABS) (ucast lsb_offset),
          BPF_JUMP (BPF_JMP + BPF_JEQ + BPF_K) lsb offset 0])"

definition cond_code :: "SeccompCondition \<Rightarrow> u8 \<Rightarrow> sock_filter list" where
  "cond_code c offset =
     (case operator c of
        Eq \<Rightarrow> into_eq_bpf c offset
      | Ge \<Rightarrow> into_ge_bpf c offset
      | Gt \<Rightarrow> into_gt_bpf c offset
      | Le \<Rightarrow> into_le_bpf c offset
      | Lt \<Rightarrow> into_lt_bpf c offset
      | MaskedEq m \<Rightarrow> into_masked_eq_bpf c offset m
      | Ne \<Rightarrow> into_ne_bpf c offset)"

definition into_bpf :: "SeccompCondition \<Rightarrow> u8 \<Rightarrow> sock_filter list exec" where
  "into_bpf c offset =
     (let result = cond_code c offset
      in if length result \<le> unat CONDITION_MAX_LEN then Done result else Panic)"

definition action_code :: "SeccompAction \<Rightarrow> u32" where
  "action_code a =
     (case a of
        Allow \<Rightarrow> SECCOMP_RET_ALLOW
      | Errno x \<Rightarrow> SECCOMP_RET_ERRNO OR (x AND SECCOMP_RET_MASK)
      | KillThread \<Rightarrow> SECCOMP_RET_KILL_THREAD
      | KillProcess \<Rightarrow> SECCOMP_RET_KILL_PROCESS
      | Log \<Rightarrow> SECCOMP_RET_LOG
      | Trace x \<Rightarrow> SECCOMP_RET_TRACE OR (x AND SECCOMP_RET_MASK)
      | Trap \<Rightarrow> SECCOMP_RET_TRAP)"

section \<open>Rules\<close>

text \<open>
  The state threaded through \<open>append_condition\<close>: the accumulator (a stack of statement blocks,
  last pushed block first here, since it is consumed in reverse), the length and the offset.
\<close>

type_synonym rule_state = "sock_filter list list \<times> nat \<times> u8"

definition helper_jumps :: "u8 \<Rightarrow> sock_filter list" where
  "helper_jumps offset =
     [BPF_STMT (BPF_JMP + BPF_JA) 2,
      BPF_STMT (BPF_JMP + BPF_JA) (ucast offset + 1),
      BPF_STMT (BPF_JMP + BPF_JA) (ucast offset + 1)]"

definition append_condition :: "SeccompCondition \<Rightarrow> rule_state \<Rightarrow> rule_state exec" where
  "append_condition c st =
     (let (accumulator, rule_len, offset) = st;
          (accumulator, rule_len, offset) =
            (if checked_add offset (CONDITION_MAX_LEN + 1) = None
             then (helper_jumps offset # accumulator,
                   rule_len + length (helper_jumps offset), 1)
             else (accumulator, rule_len, offset))
      in ebind (into_bpf c offset)
           (\<lambda>condition.
              if length condition < 256
              then Done (condition # accumulator, rule_len + length condition,
                         offset + of_nat (length condition))
              else Panic))"

fun append_conditions :: "SeccompCondition list \<Rightarrow> rule_state \<Rightarrow> rule_state exec" where
  "append_conditions [] st = Done st"
| "append_conditions (c # cs) st = ebind (append_condition c st) (append_conditions cs)"

definition rule_into :: "SeccompRule \<Rightarrow> BpfProgram exec" where
  "rule_into rule =
     ebind (append_conditions (conditions rule)
              ([[BPF_STMT (BPF_RET + BPF_K) (action_code (rule_action rule))]], 1, 1))
       (\<lambda>(accumulator, rule_len, offset).
          let rule_jumps = [BPF_STMT (BPF_JMP + BPF_JA) 1,
                            BPF_STMT (BPF_JMP + BPF_JA) (ucast offset + 1)]
          in Done (concat (rule_jumps # accumulator)))"

section \<open>Filters\<close>

fun rules_validate :: "SeccompRuleMap \<Rightarrow> SeccompError + unit" where
  "rules_validate [] = Ok ()"
| "rules_validate ((syscall_number, syscall_rules) # rest) =
     (if syscall_rules = [] then Err EmptyRulesVector
      else let empty_rules = length (filter (\<lambda>rule. conditions rule = []) syscall_rules)
           in if empty_rules = 1 \<and> length syscall_rules > 1
              then Err (ConflictingRules syscall_number)
              else if empty_rules = 1 then rules_validate rest
              else if empty_rules = 0 then rules_validate rest
              else Err (ConflictingRules syscall_number))"

definition filter_new ::
  "SeccompRuleMap \<Rightarrow> SeccompAction \<Rightarrow> string \<Rightarrow> SeccompError + SeccompFilter" where
  "filter_new rules default_act arch =
     (case arch_try_into arch of
        Inl e \<Rightarrow> Err (Arch e)
      | Inr a \<Rightarrow>
          let filter = \<lparr>filter_rules = rules, default_action = default_act, target_arch = a\<rparr>
          in rbind (rules_validate (filter_rules filter)) (\<lambda>_. Ok filter))"

fun map_exec :: "('a \<Rightarrow> 'b exec) \<Rightarrow> 'a list \<Rightarrow> 'b list exec" where
  "map_exec f [] = Done []"
| "map_exec f (x # xs) = ebind (f x) (\<lambda>y. ebind (map_exec f xs) (\<lambda>ys. Done (y # ys)))"

text \<open>The accumulator of the filter is in program order here: \<open>push\<close> appends to it.\<close>

definition append_syscall_chain ::
  "i64 \<Rightarrow> SeccompRule list \<Rightarrow> u32 \<Rightarrow> sock_filter list list \<times> nat \<Rightarrow>
   (SeccompError + sock_filter list list \<times> nat) exec" where
  "append_syscall_chain syscall_number chain default_act st =
     (let (accumulator, filter_len) = st
      in ebind (map_exec rule_into chain)
           (\<lambda>chain.
              let built_syscall =
                    BPF_JUMP (BPF_JMP + BPF_JEQ + BPF_K) (ucast syscall_number) 0 1
                    # concat chain @ [BPF_STMT (BPF_RET + BPF_K) default_act];
                  filter_len = filter_len + length built_syscall;
                  accumulator = accumulator @ [built_syscall]
              in if filter_len \<ge> BPF_MAX_LEN then Done (Err FilterTooLarge)
                 else Done (Ok (accumulator, filter_len))))"

fun append_chains ::
  "SeccompRuleMap \<Rightarrow> u32 \<Rightarrow> sock_filter list list \<times> nat \<Rightarrow>
   (SeccompError + sock_filter list list \<times> nat) exec" where
  "append_chains [] default_act st = Done (Ok st)"
| "append_chains ((nr, chain) # rest) default_act st =
     ebind (append_syscall_chain nr chain default_act st)
       (\<lambda>r. case r of Inl e \<Rightarrow> Done (Err e) | Inr st' \<Rightarrow> append_chains rest default_act st')"

definition VALIDATE_ARCHITECTURE :: "TargetArch \<Rightarrow> sock_filter list" where
  "VALIDATE_ARCHITECTURE arch =
     (let audit_arch_value = get_audit_value arch
      in [BPF_STMT (BPF_LD + BPF_W + BPF_ABS) 4,
          BPF_JUMP (BPF_JMP + BPF_JEQ + BPF_K) audit_arch_value 1 0,
          BPF_STMT (BPF_RET + BPF_K) SECCOMP_RET_KILL_PROCESS])"

definition EXAMINE_SYSCALL :: "sock_filter list" where
  "EXAMINE_SYSCALL = [BPF_STMT (BPF_LD + BPF_W + BPF_ABS) (ucast SECCOMP_DATA_NR_OFFSET)]"

definition filter_try_into :: "SeccompFilter \<Rightarrow> (SeccompError + BpfProgram) exec" where
  "filter_try_into f =
     (let result = VALIDATE_ARCHITECTURE (target_arch f)
      in if filter_rules f = []
         then Done (Ok (result @ [BPF_STMT (BPF_RET + BPF_K) (action_code (default_action f))]))
         else let default_act = action_code (default_action f)
              in ebind (append_chains (filter_rules f) default_act ([EXAMINE_SYSCALL], 1))
                   (\<lambda>r. case r of
                      Inl e \<Rightarrow> Done (Err e)
                    | Inr (accumulator, filter_len) \<Rightarrow>
                        let accumulator =
                              accumulator @ [[BPF_STMT (BPF_RET + BPF_K) default_act]];
                            result = result @ concat accumulator
                        in if length result \<ge> BPF_MAX_LEN then Done (Err FilterTooLarge)
                           else Done (Ok result)))"

section \<open>What a filter means\<close>

text \<open>
  The data the kernel passes to a filter, \<open>struct seccomp_data\<close>, and the 32-bit word found at an
  offset of it (the architectures are little-endian).
\<close>

record seccomp_data =
  sd_nr :: u32
  sd_arch :: u32
  sd_instruction_pointer :: u64
  sd_args :: "u64 list"

definition sd_bytes :: "seccomp_data \<Rightarrow> u8 list" where
  "sd_bytes d = le_bytes 4 (sd_nr d) @ le_bytes 4 (sd_arch d)
     @ le_bytes 8 (sd_instruction_pointer d) @ concat (map (le_bytes 8) (sd_args d))"

definition sd_wf :: "seccomp_data \<Rightarrow> bool" where
  "sd_wf d \<longleftrightarrow> length (sd_args d) = 6"

definition sd_load :: "seccomp_data \<Rightarrow> nat \<Rightarrow> u32" where
  "sd_load d n = le_word (slice (sd_bytes d) n 4)"

text \<open>
  The meaning of conditions, rules and filters, independent of any code: a condition compares an
  argument, or its low half, with a value; a rule matches when all its conditions do; the action
  is that of the first matching rule of the first chain for the syscall.
\<close>

fun cmp_word :: "SeccompCmpOp \<Rightarrow> 'a::len word \<Rightarrow> 'a word \<Rightarrow> bool" where
  "cmp_word Eq x v = (x = v)"
| "cmp_word Ge x v = (v \<le> x)"
| "cmp_word Gt x v = (v < x)"
| "cmp_word Le x v = (x \<le> v)"
| "cmp_word Lt x v = (x < v)"
| "cmp_word (MaskedEq m) x v = (x AND ucast m = v AND ucast m)"
| "cmp_word Ne x v = (x \<noteq> v)"

definition cond_matches :: "seccomp_data \<Rightarrow> SeccompCondition \<Rightarrow> bool" where
  "cond_matches d c =
     (let x = sd_args d ! unat (arg_number c)
      in case arg_len c of
           Dword \<Rightarrow> cmp_word (operator c) (ucast x :: u32) (ucast (cond_value c))
         | Qword \<Rightarrow> cmp_word (operator c) x (cond_value c))"

definition rule_matches :: "seccomp_data \<Rightarrow> SeccompRule \<Rightarrow> bool" where
  "rule_matches d r = list_all (cond_matches d) (conditions r)"

definition chain_action :: "seccomp_data \<Rightarrow> SeccompAction \<Rightarrow> SeccompRule list \<Rightarrow> SeccompAction" where
  "chain_action d default_act chain =
     (case find (rule_matches d) chain of
        None \<Rightarrow> default_act | Some r \<Rightarrow> rule_action r)"

definition filter_action_of :: "seccomp_data \<Rightarrow> SeccompFilter \<Rightarrow> SeccompAction" where
  "filter_action_of d f =
     (if sd_arch d \<noteq> get_audit_value (target_arch f) then KillProcess
      else case find (\<lambda>(nr, _). ucast nr = sd_nr d) (filter_rules f) of
             None \<Rightarrow> default_action f
           | Some (_, chain) \<Rightarrow> chain_action d (default_action f) chain)"

section \<open>The machine\<close>

text \<open>
  The laws of the classic BPF machine for the instructions the compiler emits, as the kernel
  documents them: \<open>run p d pc a\<close> is what the program \<open>p\<close> returns on the data \<open>d\<close> from the
  instruction \<open>pc\<close> with \<open>a\<close> in the accumulator.
\<close>

locale bpf_machine =
  fixes run :: "BpfProgram \<Rightarrow> seccomp_data \<Rightarrow> nat \<Rightarrow> u32 \<Rightarrow> u32 option"
  assumes ld: "pc < length p \<Longrightarrow> sf_code (p ! pc) = BPF_LD + BPF_W + BPF_ABS \<Longrightarrow>
      unat (sf_k (p ! pc)) + 4 \<le> 64 \<Longrightarrow>
      run p d pc a = run p d (pc + 1) (sd_load d (unat (sf_k (p ! pc))))"
    and alu_and: "pc < length p \<Longrightarrow> sf_code (p ! pc) = BPF_ALU + BPF_AND + BPF_K \<Longrightarrow>
      run p d pc a = run p d (pc + 1) (a AND sf_k (p ! pc))"
    and ja: "pc < length p \<Longrightarrow> sf_code (p ! pc) = BPF_JMP + BPF_JA \<Longrightarrow>
      run p d pc a = run p d (pc + 1 + unat (sf_k (p ! pc))) a"
    and jeq: "pc < length p \<Longrightarrow> sf_code (p ! pc) = BPF_JMP + BPF_JEQ + BPF_K \<Longrightarrow>
      run p d pc a = run p d (pc + 1 + unat (if a = sf_k (p ! pc) then sf_jt (p ! pc)
                                             else sf_jf (p ! pc))) a"
    and jgt: "pc < length p \<Longrightarrow> sf_code (p ! pc) = BPF_JMP + BPF_JGT + BPF_K \<Longrightarrow>
      run p d pc a = run p d (pc + 1 + unat (if a > sf_k (p ! pc) then sf_jt (p ! pc)
                                             else sf_jf (p ! pc))) a"
    and jge: "pc < length p \<Longrightarrow> sf_code (p ! pc) = BPF_JMP + BPF_JGE + BPF_K \<Longrightarrow>
      run p d pc a = run p d (pc + 1 + unat (if a \<ge> sf_k (p ! pc) then sf_jt (p ! pc)
                                             else sf_jf (p ! pc))) a"
    and ret: "pc < length p \<Longrightarrow> sf_code (p ! pc) = BPF_RET + BPF_K \<Longrightarrow>
      run p d pc a = Some (sf_k (p ! pc))"

text \<open>
  \<open>code_at p pc is\<close>: the instructions \<open>is\<close> stand in \<open>p\<close> from position \<open>pc\<close> on.
\<close>

fun code_at :: "'a list \<Rightarrow> nat \<Rightarrow> 'a list \<Rightarrow> bool" where
  "code_at p pc [] = True"
| "code_at p pc (x # xs) = (pc < length p \<and> p ! pc = x \<and> code_at p (Suc pc) xs)"

lemma code_at_append [simp]:
  "code_at p pc (xs @ ys) \<longleftrightarrow> code_at p pc xs \<and> code_at p (pc + length xs) ys"
  by (induction xs arbitrary: pc) auto

lemma code_at_self: "code_at (xs @ p) (length xs) p"
proof (induction p arbitrary: xs)
  case Nil
  then show ?case by simp
next
  case (Cons y p)
  from Cons [of "xs @ [y]"] show ?case by simp
qed

lemma code_at_whole: "code_at p 0 p"
  using code_at_self [of "[]" p] by simp

section \<open>Correctness of the generated code\<close>

subsection \<open>Loading the fields of the data\<close>

lemma sd_load_nr: "sd_load d 0 = sd_nr d"
  by (simp add: sd_load_def slice_def sd_bytes_def le_word_le_bytes)

lemma sd_load_arch: "sd_load d 4 = sd_arch d"
  by (simp add: sd_load_def slice_def sd_bytes_def le_word_le_bytes)

lemma drop_args:
  "sd_wf d \<Longrightarrow> i < 6 \<Longrightarrow>
   drop (16 + 8 * i) (sd_bytes d)
   = le_bytes 8 (sd_args d ! i) @ concat (map (le_bytes 8) (drop (Suc i) (sd_args d)))"
  by (simp add: sd_bytes_def drop_concat_map sd_wf_def)

lemma le_bytes_halves:
  "le_bytes 8 (x :: u64) = le_bytes 4 (ucast x :: u32) @ le_bytes 4 (ucast (drop_bit 32 x) :: u32)"
  using le_bytes_add [of 4 4 x] by (simp add: le_bytes_ucast)

lemma sd_load_lo: "sd_wf d \<Longrightarrow> i < 6 \<Longrightarrow> sd_load d (16 + 8 * i) = ucast (sd_args d ! i)"
  by (simp add: sd_load_def slice_def drop_args le_bytes_halves le_word_le_bytes)

lemma sd_load_hi:
  assumes "sd_wf d" and "i < 6"
  shows "sd_load d (20 + 8 * i) = ucast (drop_bit 32 (sd_args d ! i))"
proof -
  have "drop (20 + 8 * i) (sd_bytes d) = drop 4 (drop (16 + 8 * i) (sd_bytes d))"
    by (simp add: add.commute)
  then show ?thesis
    using assms by (simp add: sd_load_def slice_def drop_args le_bytes_halves le_word_le_bytes)
qed

subsection \<open>Comparing 64-bit values by their halves\<close>

abbreviation (input) hi :: "u64 \<Rightarrow> u32" where "hi x \<equiv> ucast (drop_bit 32 x)"
abbreviation (input) lo :: "u64 \<Rightarrow> u32" where "lo x \<equiv> ucast x"

lemma unat_halves: "unat x = unat (hi x) * 2 ^ 32 + unat (lo x)"
proof -
  have "unat (hi x) = unat x div 2 ^ 32"
    using unat_bound [of x]
    by (simp add: unat_ucast_mod drop_bit_eq_div unat_div less_mult_imp_div_less)
  moreover have "unat (lo x) = unat x mod 2 ^ 32"
    by (simp add: unat_ucast_mod)
  ultimately show ?thesis by simp
qed

lemma halves_eq: "x = v \<longleftrightarrow> hi x = hi v \<and> lo x = lo v"
  by (metis unat_halves word_unat_eq_iff)

lemma halves_less: "v < x \<longleftrightarrow> hi v < hi x \<or> hi v = hi x \<and> lo v < lo x"
proof -
  have b: "unat (lo x) < 2 ^ 32" "unat (lo v) < 2 ^ 32"
    using unat_bound [of "lo x"] unat_bound [of "lo v"] by simp_all
  show ?thesis
    unfolding word_less_nat_alt word_unat_eq_iff unat_halves [of x] unat_halves [of v]
    using b by auto
qed

lemma halves_le: "v \<le> x \<longleftrightarrow> hi v < hi x \<or> hi v = hi x \<and> lo v \<le> lo x"
  using halves_less [of v x] halves_eq [of v x] by (auto simp: le_less)

lemma halves_and: "hi (x AND m) = hi x AND hi m" "lo (x AND m) = lo x AND lo m"
  by (rule bit_eqI; auto simp: bit_simps)+


lemma cmp_word_Le: "cmp_word Le x v = (\<not> v < x)"
  by auto

lemma cmp_word_Lt: "cmp_word Lt x v = (\<not> v \<le> x)"
  by auto

lemmas cmp_word_code = cmp_word.simps(1-3,6,7) cmp_word_Le cmp_word_Lt

subsection \<open>The conditions\<close>

lemmas bpf_defs =
  BPF_LD_def BPF_ALU_def BPF_JMP_def BPF_RET_def BPF_W_def BPF_ABS_def BPF_AND_def BPF_JA_def
  BPF_JEQ_def BPF_JGT_def BPF_JGE_def BPF_K_def BPF_STMT_def BPF_JUMP_def

lemmas cond_code_defs =
  cond_code_def into_eq_bpf_def into_ge_bpf_def into_gt_bpf_def into_le_bpf_def into_lt_bpf_def
  into_masked_eq_bpf_def into_ne_bpf_def

lemma value_segments_eq:
  assumes "arg_number c \<le> ARG_NUMBER_MAX"
  defines "i \<equiv> unat (arg_number c)"
  shows "\<exists>mo lo'. value_segments c = (hi (cond_value c), lo (cond_value c), mo, lo')
           \<and> unat mo = 20 + 8 * i \<and> unat lo' = 16 + 8 * i \<and> i < 6"
proof -
  have i: "i \<le> 5" using assms by (simp add: word_le_nat_alt ARG_NUMBER_MAX_def)
  have m: "unat (arg_number c * 8) = 8 * i"
    using i by (simp add: unat_word_ariths i_def)
  have "unat (16 + arg_number c * 8) = 16 + 8 * i"
    using i m by (simp add: unat_add_small)
  moreover from this have "unat (16 + arg_number c * 8 + 4) = 20 + 8 * i"
    using i by (subst unat_add_small) simp_all
  ultimately show ?thesis
    using i by (simp add: value_segments_def Let_def SECCOMP_DATA_ARGS_OFFSET_def
        SECCOMP_DATA_ARG_SIZE_def)
qed

context bpf_machine
begin

lemmas laws = ld alu_and ja jeq jgt jge ret

lemma ex_run: "pc = pc' \<Longrightarrow> \<exists>a'. run p d pc a = run p d pc' a'"
  by blast

lemma run_cond:
  assumes code: "code_at p pc (cond_code c off)" and wf: "sd_wf d"
    and arg: "arg_number c \<le> ARG_NUMBER_MAX" and off: "unat off \<le> 248"
  shows "\<exists>a'. run p d pc a = run p d (pc + length (cond_code c off)
                   + (if cond_matches d c then 0 else unat off)) a'"
proof -
  define x where "x = sd_args d ! unat (arg_number c)"
  obtain mo lo' where seg: "value_segments c = (hi (cond_value c), lo (cond_value c), mo, lo')"
    "unat mo = 20 + 8 * unat (arg_number c)" "unat lo' = 16 + 8 * unat (arg_number c)"
    "unat (arg_number c) < 6"
    using value_segments_eq [OF arg] by auto
  have ul: "unat (ucast mo :: u32) = unat mo" "unat (ucast lo' :: u32) = unat lo'"
    by (simp_all add: unat_ucast_up)
  have ld_hi: "sd_load d (20 + 8 * unat (arg_number c)) = hi x"
    and ld_lo: "sd_load d (16 + 8 * unat (arg_number c)) = lo x"
    using seg(4) wf by (simp_all add: x_def sd_load_hi sd_load_lo)
  have o2: "unat (off + 2) = Suc (Suc (unat off))" "unat (off + 3) = Suc (Suc (Suc (unat off)))"
    using off by (simp_all add: unat_word_ariths)
  note step = laws [of _ p d, unfolded bpf_defs]
  note [simp] = cond_code_defs bpf_defs step cond_matches_def x_def [symmetric] halves_and
    halves_eq halves_le halves_less cmp_word_code
  show ?thesis
    apply (insert code seg ul ld_hi ld_lo o2)
    apply (cases "operator c"; cases "arg_len c")
                 apply (simp_all del: cmp_word.simps(4,5))
                apply ((intro conjI impI)?; rule ex_run; simp)+
    done
qed

end

subsection \<open>Rules, chains and filters\<close>

lemma length_cond_code: "length (cond_code c off) \<le> 6"
  by (cases "operator c"; cases "arg_len c"; simp add: cond_code_defs split: prod.split)

lemma into_bpf_Done: "into_bpf c off = Done (cond_code c off)"
  using length_cond_code [of c off] by (simp add: into_bpf_def CONDITION_MAX_LEN_def)

text \<open>
  What a rule body \<open>B\<close> with offset \<open>off\<close> does: it returns \<open>ret\<close> when the conditions \<open>cs\<close> hold and
  otherwise leaves at its end; the positions at \<open>off\<close> and after it are the exits of the
  conditions put in front of it later.
\<close>

definition rule_body ::
  "(BpfProgram \<Rightarrow> seccomp_data \<Rightarrow> nat \<Rightarrow> u32 \<Rightarrow> u32 option) \<Rightarrow> seccomp_data \<Rightarrow> u32 \<Rightarrow>
   SeccompCondition list \<Rightarrow> sock_filter list \<Rightarrow> u8 \<Rightarrow> bool" where
  "rule_body run d ret cs B off \<longleftrightarrow>
     (\<forall>p pc a. code_at p pc B \<longrightarrow>
        (if list_all (cond_matches d) cs then run p d pc a = Some ret
         else \<exists>a'. run p d pc a = run p d (pc + length B) a')
        \<and> run p d (pc + unat off) a = run p d (pc + length B) a
        \<and> run p d (pc + unat off + 1) a = run p d (pc + length B + 1) a)"

lemma u8_checked_add_7: "checked_add (off :: u8) 7 = None \<longleftrightarrow> 248 < unat off"
  by (auto simp: checked_add_def)

lemma append_condition_cases:
  obtains (jumps) "248 < unat off"
      "append_condition c (acc, len, off)
       = Done (cond_code c 1 # helper_jumps off # acc, len + 3 + length (cond_code c 1),
               1 + of_nat (length (cond_code c 1)))"
  | (plain) "unat off \<le> 248"
      "append_condition c (acc, len, off)
       = Done (cond_code c off # acc, len + length (cond_code c off),
               off + of_nat (length (cond_code c off)))"
proof (cases "248 < unat off")
  case True
  then show ?thesis
    using length_cond_code [of c 1]
    by (intro jumps) (simp_all add: append_condition_def into_bpf_Done u8_checked_add_7
        CONDITION_MAX_LEN_def helper_jumps_def)
next
  case False
  then show ?thesis
    using length_cond_code [of c off]
    by (intro plain) (simp_all add: append_condition_def into_bpf_Done u8_checked_add_7
        CONDITION_MAX_LEN_def)
qed

lemma unat_offset_advance:
  "unat (off :: u8) \<le> 248 \<Longrightarrow> n \<le> 6 \<Longrightarrow> unat (off + of_nat n) = unat off + n"
  by (simp add: unat_word_ariths unat_of_nat)

lemma unat_jump_offset: "unat (ucast (off :: u8) + 1 :: u32) = unat off + 1"
proof -
  have "unat off < 256" using unat_bound [of off] by simp
  then show ?thesis by (simp add: unat_add_small unat_ucast_up)
qed

text \<open>The conditions of a filter are valid: every argument number is at most five.\<close>

definition rules_args_ok :: "SeccompRule list \<Rightarrow> bool" where
  "rules_args_ok rs \<longleftrightarrow>
     list_all (\<lambda>r. list_all (\<lambda>c. arg_number c \<le> ARG_NUMBER_MAX) (conditions r)) rs"

definition filter_args_ok :: "SeccompFilter \<Rightarrow> bool" where
  "filter_args_ok f \<longleftrightarrow> list_all (\<lambda>(nr, rs). rules_args_ok rs) (filter_rules f)"

context bpf_machine
begin

lemma rule_body_ret: "rule_body run d k [] [BPF_STMT (BPF_RET + BPF_K) k] 1"
  by (simp add: rule_body_def ret BPF_STMT_def)

lemma rule_body_helper:
  assumes "rule_body run d k cs B off"
  shows "rule_body run d k cs (helper_jumps off @ B) 1"
  unfolding rule_body_def
proof (intro allI impI)
  fix p pc a
  assume code: "code_at p pc (helper_jumps off @ B)"
  then have B: "code_at p (pc + 3) B"
    by (simp add: helper_jumps_def eval_nat_numeral)
  have "run p d pc a = run p d (pc + 3) a"
    "run p d (pc + 1) a = run p d (pc + 3 + unat off) a"
    "run p d (pc + 2) a = run p d (pc + 3 + unat off + 1) a"
    using code by (simp_all add: helper_jumps_def ja BPF_STMT_def unat_jump_offset numeral_3_eq_3)
  then show "(if list_all (cond_matches d) cs then run p d pc a = Some k
         else \<exists>a'. run p d pc a = run p d (pc + length (helper_jumps off @ B)) a')
        \<and> run p d (pc + unat (1 :: u8)) a = run p d (pc + length (helper_jumps off @ B)) a
        \<and> run p d (pc + unat (1 :: u8) + 1) a = run p d (pc + length (helper_jumps off @ B) + 1) a"
    using assms [unfolded rule_body_def, rule_format, OF B, of a]
    by (simp add: helper_jumps_def add.assoc eval_nat_numeral split: if_splits)
qed

lemma rule_body_cond:
  assumes body: "rule_body run d k cs B off" and off: "unat off \<le> 248"
    and wf: "sd_wf d" and arg: "arg_number c \<le> ARG_NUMBER_MAX"
  shows "rule_body run d k (c # cs) (cond_code c off @ B)
           (off + of_nat (length (cond_code c off)))"
  unfolding rule_body_def
proof (intro allI impI)
  fix p pc a
  let ?C = "cond_code c off"
  assume code: "code_at p pc (?C @ B)"
  then have B: "code_at p (pc + length ?C) B" by simp
  have C: "\<exists>a'. run p d pc a = run p d (pc + length ?C + (if cond_matches d c then 0 else unat off)) a'"
    using code by (intro run_cond wf arg off) simp
  have u: "unat (off + of_nat (length ?C)) = unat off + length ?C"
    using off length_cond_code by (rule unat_offset_advance)
  note b = body [unfolded rule_body_def, rule_format, OF B]
  show "(if list_all (cond_matches d) (c # cs) then run p d pc a = Some k
         else \<exists>a'. run p d pc a = run p d (pc + length (?C @ B)) a')
        \<and> run p d (pc + unat (off + of_nat (length ?C))) a = run p d (pc + length (?C @ B)) a
        \<and> run p d (pc + unat (off + of_nat (length ?C)) + 1) a
          = run p d (pc + length (?C @ B) + 1) a"
  proof (intro conjI)
    show "if list_all (cond_matches d) (c # cs) then run p d pc a = Some k
         else \<exists>a'. run p d pc a = run p d (pc + length (?C @ B)) a'"
      using C b by (cases "cond_matches d c") (auto simp: add.assoc split: if_splits)
  qed (use b [of a] u in \<open>simp_all add: ac_simps\<close>)
qed

lemma rule_body_append_condition:
  assumes "rule_body run d k cs (concat acc) off"
    and "sd_wf d" and "arg_number c \<le> ARG_NUMBER_MAX"
  shows "\<exists>acc' len' off'. append_condition c (acc, len, off) = Done (acc', len', off')
           \<and> rule_body run d k (c # cs) (concat acc') off'"
  using append_condition_cases [of off c acc len]
proof cases
  case jumps
  then show ?thesis
    using rule_body_cond [OF rule_body_helper [OF assms(1)] _ assms(2,3)] by simp
next
  case plain
  then show ?thesis
    using rule_body_cond [OF assms(1) _ assms(2,3)] by simp
qed

lemma rule_body_append_conditions:
  assumes "rule_body run d k cs0 (concat acc) off"
    and "sd_wf d" and "list_all (\<lambda>c. arg_number c \<le> ARG_NUMBER_MAX) cs"
  shows "\<exists>acc' len' off'. append_conditions cs (acc, len, off) = Done (acc', len', off')
           \<and> rule_body run d k (rev cs @ cs0) (concat acc') off'"
  using assms(1,3)
proof (induction cs arbitrary: cs0 acc len off)
  case Nil
  then show ?case by simp
next
  case (Cons c cs)
  obtain acc' len' off' where s: "append_condition c (acc, len, off) = Done (acc', len', off')"
    and body: "rule_body run d k (c # cs0) (concat acc') off'"
    using rule_body_append_condition [OF Cons.prems(1) assms(2), of c len] Cons.prems(2) by auto
  show ?case
    using Cons.IH [OF body] Cons.prems(2) s by simp
qed

lemma rule_code:
  assumes "sd_wf d" and "list_all (\<lambda>c. arg_number c \<le> ARG_NUMBER_MAX) (conditions r)"
  obtains R where "rule_into r = Done R"
    and "\<And>p pc a. code_at p pc R \<Longrightarrow>
           (if rule_matches d r then run p d pc a = Some (action_code (rule_action r))
            else \<exists>a'. run p d pc a = run p d (pc + length R) a')
           \<and> run p d (pc + 1) a = run p d (pc + length R + 1) a"
proof -
  let ?k = "action_code (rule_action r)"
  obtain acc len off
    where s: "append_conditions (conditions r) ([[BPF_STMT (BPF_RET + BPF_K) ?k]], 1, 1)
              = Done (acc, len, off)"
      and body: "rule_body run d ?k (rev (conditions r)) (concat acc) off"
    using rule_body_append_conditions [of d ?k "[]" "[[BPF_STMT (BPF_RET + BPF_K) ?k]]" 1 _ 1]
      rule_body_ret [of d ?k] assms by fastforce
  let ?R = "[BPF_STMT (BPF_JMP + BPF_JA) 1, BPF_STMT (BPF_JMP + BPF_JA) (ucast off + 1)] @ concat acc"
  show thesis
  proof (rule that [of ?R])
    show "rule_into r = Done ?R" by (simp add: rule_into_def s [simplified])
    show "(if rule_matches d r then run p d pc a = Some ?k
            else \<exists>a'. run p d pc a = run p d (pc + length ?R) a')
           \<and> run p d (pc + 1) a = run p d (pc + length ?R + 1) a"
      if code: "code_at p pc ?R" for p pc a
    proof -
      from code have B: "code_at p (pc + 2) (concat acc)" by simp
      have "run p d pc a = run p d (pc + 2) a"
        "run p d (pc + 1) a = run p d (pc + 2 + unat off + 1) a"
        using code by (simp_all add: ja BPF_STMT_def unat_jump_offset)
      then show ?thesis
        using body [unfolded rule_body_def, rule_format, OF B, of a]
        by (simp add: rule_matches_def add.assoc eval_nat_numeral split: if_splits)
    qed
  qed
qed

lemma chain_code:
  assumes "sd_wf d" and "rules_args_ok rs"
  obtains Rs where "map_exec rule_into rs = Done Rs"
    and "\<And>p pc a. code_at p pc (concat Rs @ [BPF_STMT (BPF_RET + BPF_K) (action_code act)]) \<Longrightarrow>
           run p d pc a = Some (action_code (chain_action d act rs))
           \<and> run p d (pc + 1) a = run p d (pc + length (concat Rs) + 1) a"
  using assms(2)
proof (induction rs arbitrary: thesis)
  case Nil
  show ?case
    by (rule Nil.prems(1) [of "[]"]) (simp_all add: ret BPF_STMT_def chain_action_def)
next
  case (Cons r rs)
  let ?ret = "[BPF_STMT (BPF_RET + BPF_K) (action_code act)]"
  have ok: "list_all (\<lambda>c. arg_number c \<le> ARG_NUMBER_MAX) (conditions r)" "rules_args_ok rs"
    using Cons.prems(2) by (simp_all add: rules_args_ok_def)
  obtain R where R: "rule_into r = Done R"
    and step: "\<And>p pc a. code_at p pc R \<Longrightarrow>
           (if rule_matches d r then run p d pc a = Some (action_code (rule_action r))
            else \<exists>a'. run p d pc a = run p d (pc + length R) a')
           \<and> run p d (pc + 1) a = run p d (pc + length R + 1) a"
    using rule_code [OF assms(1), of r] ok by metis
  obtain Rs where Rs: "map_exec rule_into rs = Done Rs"
    and IH: "\<And>p pc a. code_at p pc (concat Rs @ ?ret) \<Longrightarrow>
           run p d pc a = Some (action_code (chain_action d act rs))
           \<and> run p d (pc + 1) a = run p d (pc + length (concat Rs) + 1) a"
    using Cons.IH ok(2) by metis
  show ?case
  proof (rule Cons.prems(1) [of "R # Rs"])
    show "map_exec rule_into (r # rs) = Done (R # Rs)" by (simp add: R Rs)
    fix p pc a
    assume "code_at p pc (concat (R # Rs) @ ?ret)"
    then have c: "code_at p pc R" "code_at p (pc + length R) (concat Rs @ ?ret)" by simp_all
    show "run p d pc a = Some (action_code (chain_action d act (r # rs)))
      \<and> run p d (pc + 1) a = run p d (pc + length (concat (R # Rs)) + 1) a"
      using step [OF c(1), of a] IH [OF c(2)]
      by (auto simp: chain_action_def add.assoc split: if_splits)
  qed
qed

lemma syscall_chain_code:
  assumes "sd_wf d" and "rules_args_ok rs"
  obtains C where
    "\<And>acc n. append_syscall_chain nr rs (action_code act) (acc, n)
            = Done (if n + length C \<ge> BPF_MAX_LEN then Err FilterTooLarge
                    else Ok (acc @ [C], n + length C))"
    and "\<And>p pc a. code_at p pc C \<Longrightarrow>
           run p d pc a = (if a = ucast nr then Some (action_code (chain_action d act rs))
                           else run p d (pc + length C) a)"
proof -
  let ?ret = "[BPF_STMT (BPF_RET + BPF_K) (action_code act)]"
  obtain Rs where Rs: "map_exec rule_into rs = Done Rs"
    and chain: "\<And>p pc a. code_at p pc (concat Rs @ ?ret) \<Longrightarrow>
           run p d pc a = Some (action_code (chain_action d act rs))
           \<and> run p d (pc + 1) a = run p d (pc + length (concat Rs) + 1) a"
    using chain_code [OF assms] by metis
  let ?j = "BPF_JUMP (BPF_JMP + BPF_JEQ + BPF_K) (ucast nr) 0 1"
  show thesis
  proof (rule that [of "?j # concat Rs @ ?ret"])
    show "append_syscall_chain nr rs (action_code act) (acc, n)
        = Done (if n + length (?j # concat Rs @ ?ret) \<ge> BPF_MAX_LEN then Err FilterTooLarge
                else Ok (acc @ [?j # concat Rs @ ?ret], n + length (?j # concat Rs @ ?ret)))" for acc n
      by (simp add: append_syscall_chain_def Rs Let_def)
    fix p pc a
    assume "code_at p pc (?j # concat Rs @ ?ret)"
    then have "pc < length p" "p ! pc = ?j" "code_at p (Suc pc) (concat Rs @ ?ret)" by simp_all
    then show "run p d pc a = (if a = ucast nr then Some (action_code (chain_action d act rs))
                 else run p d (pc + length (?j # concat Rs @ ?ret)) a)"
      using chain [of p "Suc pc" a] by (auto simp: jeq BPF_JUMP_def)
  qed
qed

text \<open>The chains, each trying its syscall number and passing the accumulator on.\<close>

lemma chains_code:
  assumes "sd_wf d" and "list_all (\<lambda>(nr, rs). rules_args_ok rs) rules"
  obtains Cs where
    "\<And>acc n. append_chains rules (action_code act) (acc, n) = Done (Err FilterTooLarge)
            \<or> append_chains rules (action_code act) (acc, n)
              = Done (Ok (acc @ Cs, n + length (concat Cs)))"
    and "\<And>p pc. code_at p pc (concat Cs) \<Longrightarrow>
           run p d pc (sd_nr d)
           = (case find (\<lambda>(nr, _). ucast nr = sd_nr d) rules of
                None \<Rightarrow> run p d (pc + length (concat Cs)) (sd_nr d)
              | Some (_, rs) \<Rightarrow> Some (action_code (chain_action d act rs)))"
  using assms(2)
proof (induction rules arbitrary: thesis)
  case Nil
  show ?case by (rule Nil.prems(1) [of "[]"]) simp_all
next
  case (Cons x rules)
  obtain nr rs where x: "x = (nr, rs)" by fastforce
  then have ok: "rules_args_ok rs" using Cons.prems(2) by simp
  obtain C where C: "\<And>acc n. append_syscall_chain nr rs (action_code act) (acc, n)
            = Done (if n + length C \<ge> BPF_MAX_LEN then Err FilterTooLarge
                    else Ok (acc @ [C], n + length C))"
    and step: "\<And>p pc a. code_at p pc C \<Longrightarrow>
           run p d pc a = (if a = ucast nr then Some (action_code (chain_action d act rs))
                           else run p d (pc + length C) a)"
    using syscall_chain_code [OF assms(1) ok, of nr act] by metis
  obtain Cs where Cs: "\<And>acc n. append_chains rules (action_code act) (acc, n) = Done (Err FilterTooLarge)
            \<or> append_chains rules (action_code act) (acc, n)
              = Done (Ok (acc @ Cs, n + length (concat Cs)))"
    and IH: "\<And>p pc. code_at p pc (concat Cs) \<Longrightarrow>
           run p d pc (sd_nr d)
           = (case find (\<lambda>(nr, _). ucast nr = sd_nr d) rules of
                None \<Rightarrow> run p d (pc + length (concat Cs)) (sd_nr d)
              | Some (_, rs) \<Rightarrow> Some (action_code (chain_action d act rs)))"
    using Cons.IH Cons.prems(2) by auto
  show ?case
  proof (rule Cons.prems(1) [of "C # Cs"])
    show "append_chains (x # rules) (action_code act) (acc, n) = Done (Err FilterTooLarge)
            \<or> append_chains (x # rules) (action_code act) (acc, n)
              = Done (Ok (acc @ C # Cs, n + length (concat (C # Cs))))" for acc n
      using Cs [of "acc @ [C]" "n + length C"] by (simp add: x C add.assoc)
    show "run p d pc (sd_nr d)
           = (case find (\<lambda>(nr, _). ucast nr = sd_nr d) (x # rules) of
                None \<Rightarrow> run p d (pc + length (concat (C # Cs))) (sd_nr d)
              | Some (_, rs) \<Rightarrow> Some (action_code (chain_action d act rs)))"
      if "code_at p pc (concat (C # Cs))" for p pc
      using that step [of p pc] IH [of p "pc + length C"]
      by (auto simp: x add.assoc split: option.split)
  qed
qed

lemma run_prologue:
  assumes "code_at p 0 (VALIDATE_ARCHITECTURE arch)"
  shows "run p d 0 a = (if sd_arch d = get_audit_value arch then run p d 3 (sd_arch d)
                        else Some SECCOMP_RET_KILL_PROCESS)"
  using assms
  by (simp add: VALIDATE_ARCHITECTURE_def BPF_STMT_def BPF_JUMP_def ld jeq ret sd_load_arch
      numeral_3_eq_3)

lemma run_examine:
  assumes "code_at p pc EXAMINE_SYSCALL"
  shows "run p d pc a = run p d (pc + 1) (sd_nr d)"
  using assms
  by (simp add: EXAMINE_SYSCALL_def BPF_STMT_def ld sd_load_nr SECCOMP_DATA_NR_OFFSET_def)

text \<open>The program of a filter returns the code of the action the filter means.\<close>

lemma filter_code:
  assumes wf: "sd_wf d" and ok: "filter_args_ok f"
    and prog: "filter_try_into f = Done (Ok p)"
  shows "run p d 0 a = Some (action_code (filter_action_of d f))"
proof (cases "filter_rules f = []")
  case True
  with prog have p: "p = VALIDATE_ARCHITECTURE (target_arch f)
      @ [BPF_STMT (BPF_RET + BPF_K) (action_code (default_action f))]"
    by (simp add: filter_try_into_def)
  have "code_at p 3 [BPF_STMT (BPF_RET + BPF_K) (action_code (default_action f))]"
    by (simp add: p VALIDATE_ARCHITECTURE_def)
  then show ?thesis
    using run_prologue [of p "target_arch f" d a] code_at_whole [of p]
    by (simp add: p filter_action_of_def True ret BPF_STMT_def action_code_def)
next
  case False
  obtain Cs where Cs: "\<And>acc n. append_chains (filter_rules f) (action_code (default_action f)) (acc, n)
              = Done (Err FilterTooLarge)
            \<or> append_chains (filter_rules f) (action_code (default_action f)) (acc, n)
              = Done (Ok (acc @ Cs, n + length (concat Cs)))"
    and chains: "\<And>p pc. code_at p pc (concat Cs) \<Longrightarrow>
           run p d pc (sd_nr d)
           = (case find (\<lambda>(nr, _). ucast nr = sd_nr d) (filter_rules f) of
                None \<Rightarrow> run p d (pc + length (concat Cs)) (sd_nr d)
              | Some (_, rs) \<Rightarrow> Some (action_code (chain_action d (default_action f) rs)))"
    using chains_code [OF wf, of "filter_rules f" "default_action f"] ok
    unfolding filter_args_ok_def by metis
  let ?ret = "[BPF_STMT (BPF_RET + BPF_K) (action_code (default_action f))]"
  have p: "p = VALIDATE_ARCHITECTURE (target_arch f) @ EXAMINE_SYSCALL @ concat Cs @ ?ret"
    using prog Cs [of "[EXAMINE_SYSCALL]" 1] False
    by (auto simp: filter_try_into_def Let_def split: if_splits)
  have l: "length (VALIDATE_ARCHITECTURE (target_arch f)) = 3" "length EXAMINE_SYSCALL = 1"
    by (simp_all add: VALIDATE_ARCHITECTURE_def EXAMINE_SYSCALL_def)
  have c: "code_at p 0 (VALIDATE_ARCHITECTURE (target_arch f))" "code_at p 3 EXAMINE_SYSCALL"
    "code_at p 4 (concat Cs)" "code_at p (4 + length (concat Cs)) ?ret"
    using code_at_whole [of p] unfolding p by (simp_all add: l)
  show ?thesis
    using run_prologue [OF c(1), of d a] run_examine [OF c(2), of d "sd_arch d"] chains [OF c(3)] c(4)
    by (auto simp: filter_action_of_def ret BPF_STMT_def action_code_def split: option.splits)
qed

end

section \<open>A machine\<close>

text \<open>
  An interpreter of the instructions the compiler emits. Jumps go forward only, so a program
  always ends; \<open>None\<close> is running off its end, loading out of the data, or an instruction the
  compiler never emits.
\<close>

function bpf_exec :: "BpfProgram \<Rightarrow> seccomp_data \<Rightarrow> nat \<Rightarrow> u32 \<Rightarrow> u32 option" where
  "bpf_exec p d pc a =
     (if length p \<le> pc then None
      else let i = p ! pc;
               jump = (\<lambda>b. bpf_exec p d (pc + 1 + unat (if b then sf_jt i else sf_jf i)) a)
           in if sf_code i = BPF_LD + BPF_W + BPF_ABS
              then if unat (sf_k i) + 4 \<le> 64
                   then bpf_exec p d (pc + 1) (sd_load d (unat (sf_k i))) else None
              else if sf_code i = BPF_ALU + BPF_AND + BPF_K
              then bpf_exec p d (pc + 1) (a AND sf_k i)
              else if sf_code i = BPF_JMP + BPF_JA then bpf_exec p d (pc + 1 + unat (sf_k i)) a
              else if sf_code i = BPF_JMP + BPF_JEQ + BPF_K then jump (a = sf_k i)
              else if sf_code i = BPF_JMP + BPF_JGT + BPF_K then jump (a > sf_k i)
              else if sf_code i = BPF_JMP + BPF_JGE + BPF_K then jump (a \<ge> sf_k i)
              else if sf_code i = BPF_RET + BPF_K then Some (sf_k i)
              else None)"
  by pat_completeness auto
termination
  by (relation "measure (\<lambda>(p, d, pc, a). length p - pc)") auto

declare bpf_exec.simps [simp del]

interpretation cbpf: bpf_machine bpf_exec
  by unfold_locales (subst bpf_exec.simps, simp add: bpf_defs Let_def)+

text \<open>
  (C2) A compiled filter does what the filter says: on every seccomp datum, any machine that obeys
  the BPF instruction laws returns, from the program \<open>filter_try_into\<close> builds, the code of the
  action of the first matching rule for the syscall (all conditions of the rule hold on the
  64-bit arguments, compared in 32-bit halves by the code), the default action when there is none,
  and kills the process on a foreign architecture.
\<close>

theorem seccomp_filter_correct:
  assumes "bpf_machine run" and "sd_wf d" and "filter_args_ok f"
    and "filter_try_into f = Done (Ok p)"
  shows "run p d 0 a = Some (action_code (filter_action_of d f))"
  using assms by (rule bpf_machine.filter_code)

definition sample_filter :: SeccompFilter where
  "sample_filter =
     \<lparr>filter_rules =
        [(1, [\<lparr>conditions = [\<lparr>arg_number = 2, arg_len = Qword, operator = Le,
                                cond_value = 4294967298\<rparr>],
               rule_action = Allow\<rparr>])],
      default_action = Errno 1, target_arch = x86_64\<rparr>"

definition sample_data :: seccomp_data where
  "sample_data = \<lparr>sd_nr = 1, sd_arch = get_audit_value x86_64, sd_instruction_pointer = 0,
                  sd_args = [0, 0, 4294967297, 0, 0, 0]\<rparr>"

lemma sample_filter_compiles: "\<exists>p. filter_try_into sample_filter = Done (Ok p)"
  by (simp add: sample_filter_def filter_try_into_def append_syscall_chain_def rule_into_def
      append_condition_def into_bpf_Done helper_jumps_def cond_code_defs value_segments_def
      VALIDATE_ARCHITECTURE_def EXAMINE_SYSCALL_def BPF_MAX_LEN_def checked_add_def
      CONDITION_MAX_LEN_def Let_def)

theorem seccomp_filter_correct_witness:
  "sd_wf sample_data \<and> filter_args_ok sample_filter
   \<and> (\<exists>p. filter_try_into sample_filter = Done (Ok p)
          \<and> bpf_exec p sample_data 0 0 = Some SECCOMP_RET_ALLOW)"
proof -
  have wf: "sd_wf sample_data" "filter_args_ok sample_filter"
    by (simp_all add: sd_wf_def sample_data_def filter_args_ok_def sample_filter_def
        rules_args_ok_def ARG_NUMBER_MAX_def)
  obtain p where p: "filter_try_into sample_filter = Done (Ok p)"
    using sample_filter_compiles by blast
  have "filter_action_of sample_data sample_filter = Allow"
    by (simp add: filter_action_of_def sample_data_def sample_filter_def chain_action_def
        rule_matches_def cond_matches_def)
  then show ?thesis
    using seccomp_filter_correct [OF cbpf.bpf_machine_axioms wf p, of 0] wf p
    by (simp add: action_code_def)
qed

text \<open>Compiling never panics, whatever the rules.\<close>

lemma append_condition_Done: "\<exists>st'. append_condition c st = Done st'"
proof (cases st)
  case (fields acc len off)
  show ?thesis
    by (cases rule: append_condition_cases [of off c acc len]) (auto simp: fields)
qed

lemma append_conditions_Done: "\<exists>st'. append_conditions cs st = Done st'"
proof (induction cs arbitrary: st)
  case Nil
  show ?case using append_conditions.simps(1) by blast
next
  case (Cons c cs)
  obtain st1 where "append_condition c st = Done st1" using append_condition_Done by blast
  then show ?case using Cons [of st1] by simp
qed

lemma rule_into_Done: "\<exists>R. rule_into r = Done R"
proof -
  obtain acc len off where "append_conditions (conditions r)
      ([[BPF_STMT (BPF_RET + BPF_K) (action_code (rule_action r))]], Suc 0, 1) = Done (acc, len, off)"
    using append_conditions_Done by fast
  then show ?thesis by (simp add: rule_into_def)
qed

lemma map_exec_Done: "(\<And>x. \<exists>y. f x = Done y) \<Longrightarrow> \<exists>ys. map_exec f xs = Done ys"
proof (induction xs)
  case (Cons x xs)
  obtain y ys where "f x = Done y" "map_exec f xs = Done ys" using Cons by blast
  then show ?case by simp
qed simp

lemma append_chains_Done:
  "append_chains rules k st = Done (Err FilterTooLarge) \<or> (\<exists>st'. append_chains rules k st = Done (Ok st'))"
proof (induction rules arbitrary: st)
  case Nil
  then show ?case by simp
next
  case (Cons x rules)
  obtain nr rs acc n where [simp]: "x = (nr, rs)" "st = (acc, n)" by (cases x, cases st) auto
  obtain Rs where "map_exec rule_into rs = Done Rs"
    using map_exec_Done rule_into_Done by metis
  then show ?case using Cons by (simp add: append_syscall_chain_def Let_def)
qed

text \<open>
  (C3) Compiling a filter always ends with a program shorter than the kernel's limit of 4096
  instructions or with the error that the filter is too large; the assertions and conversions of
  the code never panic, whatever the number of rules and conditions.
\<close>

theorem seccomp_filter_total:
  "(\<exists>p. filter_try_into f = Done (Ok p) \<and> length p < BPF_MAX_LEN)
   \<or> filter_try_into f = Done (Err FilterTooLarge)"
proof (cases "filter_rules f = []")
  case True
  then show ?thesis
    by (simp add: filter_try_into_def VALIDATE_ARCHITECTURE_def BPF_MAX_LEN_def)
next
  case False
  then show ?thesis
    using append_chains_Done [of "filter_rules f" "action_code (default_action f)" "([EXAMINE_SYSCALL], 1)"]
    by (auto simp: filter_try_into_def Let_def split: prod.splits)
qed

end
