(* ===== verification/SeccompCompiler.thy ===== *)
theory SeccompCompiler
  imports SyscallTable
begin

text \<open>
  The front end of the seccomp compiler, \<open>seccompiler/src/compiler.rs\<close>: the filters read from the
  JSON file, their validation, and their translation to the intermediate representation of
  \<open>Seccomp\<close>. A \<open>HashMap\<close> that is consumed by iteration is the list of its entries in the order of
  the iteration.
\<close>

section \<open>Data\<close>

datatype CompilerError =
    IdenticalActions
  | SeccompFilterError SeccompError
  | SyscallName string TargetArch

record SyscallRule =
  sr_syscall :: string
  sr_conditions :: "SeccompCondition list option"
  sr_comment :: "unit option"

record Filter =
  f_default_action :: SeccompAction
  f_filter_action :: SeccompAction
  f_filter :: "SyscallRule list"

record Compiler =
  c_arch :: TargetArch
  c_syscall_table :: SyscallTable

section \<open>Validation\<close>

fun err :: "'e + 'a \<Rightarrow> 'e option" where
  "err (Inl e) = Some e"
| "err (Inr _) = None"

text \<open>\<open>iter().filter_map(|x| f(x).err()).next()\<close>\<close>

definition first_err :: "('a \<Rightarrow> 'e + 'b) \<Rightarrow> 'a list \<Rightarrow> 'e option" where
  "first_err f xs = (case List.map_filter (\<lambda>x. err (f x)) xs of [] \<Rightarrow> None | e # _ \<Rightarrow> Some e)"

definition syscall_rule_validate :: "SyscallRule \<Rightarrow> CompilerError + unit" where
  "syscall_rule_validate r =
     (case sr_conditions r of
        Some cs \<Rightarrow>
          (case first_err cond_validate cs of
             None \<Rightarrow> Ok () | Some e \<Rightarrow> Err (SeccompFilterError e))
      | None \<Rightarrow> Ok ())"

definition filter_validate :: "Filter \<Rightarrow> CompilerError + unit" where
  "filter_validate f =
     (if f_default_action f = f_filter_action f then Err IdenticalActions
      else case first_err syscall_rule_validate (f_filter f) of
             None \<Rightarrow> Ok () | Some e \<Rightarrow> Err e)"

definition compiler_new :: "TargetArch \<Rightarrow> Compiler" where
  "compiler_new arch = \<lparr>c_arch = arch, c_syscall_table = syscall_table_new arch\<rparr>"

definition validate_filters :: "(string \<times> Filter) list \<Rightarrow> CompilerError + unit" where
  "validate_filters filters =
     (case first_err (\<lambda>(_, f). filter_validate f) filters of None \<Rightarrow> Ok () | Some e \<Rightarrow> Err e)"

section \<open>Translation\<close>

text \<open>
  \<open>map.entry(k).or_insert_with(|| d)\<close> followed by the update \<open>f\<close> of the entry, on the sorted
  entries of a \<open>BTreeMap\<close> with signed keys.
\<close>

fun btree_entry :: "i64 \<Rightarrow> 'v \<Rightarrow> ('v \<Rightarrow> 'v) \<Rightarrow> (i64 \<times> 'v) list \<Rightarrow> (i64 \<times> 'v) list" where
  "btree_entry k d f [] = [(k, f d)]"
| "btree_entry k d f ((k', v) # m) =
     (if k = k' then (k, f v) # m
      else if sint k < sint k' then (k, f d) # (k', v) # m
      else (k', v) # btree_entry k d f m)"

definition rule_new :: "SeccompCondition list \<Rightarrow> SeccompAction \<Rightarrow> SeccompRule" where
  "rule_new cs a = \<lparr>conditions = cs, rule_action = a\<rparr>"

fun make_rules ::
  "Compiler \<Rightarrow> SeccompAction \<Rightarrow> SyscallRule list \<Rightarrow> SeccompRuleMap \<Rightarrow>
   CompilerError + SeccompRuleMap" where
  "make_rules c action [] rule_map = Ok rule_map"
| "make_rules c action (r # rs) rule_map =
     rbind (ok_or (get_syscall_nr (c_syscall_table c) (sr_syscall r))
              (SyscallName (sr_syscall r) (c_arch c)))
       (\<lambda>syscall_nr.
          make_rules c action rs
            (btree_entry syscall_nr []
               (\<lambda>rule_accumulator.
                  case sr_conditions r of
                    Some cs \<Rightarrow> rule_accumulator @ [rule_new cs action]
                  | None \<Rightarrow> rule_accumulator @ [rule_new [] action])
               rule_map))"

definition map_err :: "('e \<Rightarrow> 'e2) \<Rightarrow> 'e + 'a \<Rightarrow> 'e2 + 'a" where
  "map_err f r = (case r of Inl e \<Rightarrow> Inl (f e) | Inr x \<Rightarrow> Inr x)"

definition make_seccomp_filter :: "Compiler \<Rightarrow> Filter \<Rightarrow> CompilerError + SeccompFilter" where
  "make_seccomp_filter c f =
     rbind (make_rules c (f_filter_action f) (f_filter f) [])
       (\<lambda>rule_map. map_err SeccompFilterError
          (filter_new rule_map (f_default_action f) (arch_to_string (c_arch c))))"

fun make_basic_rules ::
  "Compiler \<Rightarrow> SeccompAction \<Rightarrow> SyscallRule list \<Rightarrow> SeccompRuleMap \<Rightarrow>
   CompilerError + SeccompRuleMap" where
  "make_basic_rules c action [] rule_map = Ok rule_map"
| "make_basic_rules c action (r # rs) rule_map =
     rbind (ok_or (get_syscall_nr (c_syscall_table c) (sr_syscall r))
              (SyscallName (sr_syscall r) (c_arch c)))
       (\<lambda>syscall_nr.
          make_basic_rules c action rs
            (btree_entry syscall_nr [rule_new [] action] (\<lambda>rules. rules) rule_map))"

definition make_basic_seccomp_filter ::
  "Compiler \<Rightarrow> Filter \<Rightarrow> CompilerError + SeccompFilter" where
  "make_basic_seccomp_filter c f =
     rbind (make_basic_rules c (f_filter_action f) (f_filter f) [])
       (\<lambda>rule_map. map_err SeccompFilterError
          (filter_new rule_map (f_default_action f) (arch_to_string (c_arch c))))"

text \<open>One iteration of the loop of \<open>compile_blob\<close>: the program of one filter.\<close>

definition compile_filter :: "Compiler \<Rightarrow> bool \<Rightarrow> Filter \<Rightarrow> (CompilerError + BpfProgram) exec" where
  "compile_filter c is_basic f =
     (case (if is_basic then make_basic_seccomp_filter c f else make_seccomp_filter c f) of
        Inl e \<Rightarrow> Done (Err e)
      | Inr sf \<Rightarrow> ebind (filter_try_into sf) (\<lambda>r. Done (map_err SeccompFilterError r)))"

fun compile_filters ::
  "Compiler \<Rightarrow> bool \<Rightarrow> (string \<times> Filter) list \<Rightarrow> (string \<rightharpoonup> BpfProgram) \<Rightarrow>
   (CompilerError + (string \<rightharpoonup> BpfProgram)) exec" where
  "compile_filters c is_basic [] bpf_map = Done (Ok bpf_map)"
| "compile_filters c is_basic ((thread_name, f) # fs) bpf_map =
     ebind (compile_filter c is_basic f)
       (\<lambda>r. case r of
          Inl e \<Rightarrow> Done (Err e)
        | Inr p \<Rightarrow> compile_filters c is_basic fs (bpf_map(thread_name \<mapsto> p)))"

definition compile_blob ::
  "Compiler \<Rightarrow> (string \<times> Filter) list \<Rightarrow> bool \<Rightarrow>
   (CompilerError + (string \<rightharpoonup> BpfProgram)) exec" where
  "compile_blob c filters is_basic =
     (case validate_filters filters of
        Inl e \<Rightarrow> Done (Err e)
      | Inr _ \<Rightarrow> compile_filters c is_basic filters Map.empty)"

section \<open>What a filter of the JSON file means\<close>

text \<open>
  A syscall rule applies to the data when its name stands for the number of the call and, unless
  conditions are dropped, all its conditions hold. The order of the rules does not matter.
\<close>

definition syscall_rule_applies :: "SyscallTable \<Rightarrow> bool \<Rightarrow> seccomp_data \<Rightarrow> SyscallRule \<Rightarrow> bool" where
  "syscall_rule_applies t is_basic d r =
     (case get_syscall_nr t (sr_syscall r) of
        None \<Rightarrow> False
      | Some nr \<Rightarrow> ucast nr = sd_nr d
          \<and> (is_basic \<or> (case sr_conditions r of None \<Rightarrow> True
                         | Some cs \<Rightarrow> list_all (cond_matches d) cs)))"

definition filter_meaning :: "TargetArch \<Rightarrow> bool \<Rightarrow> seccomp_data \<Rightarrow> Filter \<Rightarrow> SeccompAction" where
  "filter_meaning arch is_basic d f =
     (if sd_arch d \<noteq> get_audit_value arch then KillProcess
      else if list_ex (syscall_rule_applies (syscall_table_new arch) is_basic d) (f_filter f)
      then f_filter_action f
      else f_default_action f)"

section \<open>Sorted maps\<close>

definition keys_sorted :: "(i64 \<times> 'v) list \<Rightarrow> bool" where
  "keys_sorted m = sorted_wrt (\<lambda>x y. sint x < sint y) (map fst m)"

lemma btree_entry_keys: "fst ` set (btree_entry k d f m) = insert k (fst ` set m)"
proof (induction m)
  case (Cons kv m)
  then show ?case by (cases kv) (simp add: insert_commute)
qed simp

lemma keys_sorted_Cons:
  "keys_sorted ((k, v) # m) \<longleftrightarrow> (\<forall>k' \<in> fst ` set m. sint k < sint k') \<and> keys_sorted m"
  by (auto simp: keys_sorted_def)

lemma keys_sorted_distinct: "keys_sorted m \<Longrightarrow> distinct (map fst m)"
proof (induction m)
  case (Cons kv m)
  then show ?case by (cases kv) (force simp: keys_sorted_Cons)
qed simp

lemma keys_sorted_btree_entry: "keys_sorted m \<Longrightarrow> keys_sorted (btree_entry k d f m)"
proof (induction m)
  case Nil
  then show ?case by (simp add: keys_sorted_def)
next
  case (Cons kv m)
  obtain k' v where kv: "kv = (k', v)" by fastforce
  have "sint k' < sint k" if "k \<noteq> k'" "\<not> sint k < sint k'"
    using that by (metis linorder_neqE_linordered_idom word_eq_iff_signed)
  then show ?case
    using Cons btree_entry_keys [of k d f m]
    by (fastforce simp: kv keys_sorted_Cons)
qed

lemma map_of_btree_entry:
  "keys_sorted m \<Longrightarrow>
   map_of (btree_entry k d f m) =
     (map_of m)(k \<mapsto> f (case map_of m k of None \<Rightarrow> d | Some v \<Rightarrow> v))"
proof (induction m)
  case Nil
  then show ?case by simp
next
  case (Cons kv m)
  obtain k' v where kv: "kv = (k', v)" by fastforce
  have "map_of m k = None" if "sint k < sint k'"
    using Cons.prems that by (force simp: kv keys_sorted_Cons map_of_eq_None_iff)
  then show ?case
    using Cons by (auto simp: kv keys_sorted_Cons fun_eq_iff)
qed

section \<open>The rules of a number\<close>

text \<open>The rules of a filter for a syscall number, in order.\<close>

definition rules_of :: "Compiler \<Rightarrow> SeccompAction \<Rightarrow> i64 \<Rightarrow> SyscallRule list \<Rightarrow> SeccompRule list" where
  "rules_of c action nr rs =
     map (\<lambda>r. rule_new (case sr_conditions r of None \<Rightarrow> [] | Some cs \<Rightarrow> cs) action)
       (filter (\<lambda>r. get_syscall_nr (c_syscall_table c) (sr_syscall r) = Some nr) rs)"

definition nonempty :: "'a list \<Rightarrow> 'a list option" where
  "nonempty xs = (if xs = [] then None else Some xs)"

lemma rbind_ok_or_Ok [simp]: "rbind (ok_or x e) f = Ok y \<longleftrightarrow> (\<exists>v. x = Some v \<and> f v = Ok y)"
  by (cases x) (simp_all add: ok_or_def rbind_def)

lemma make_rules_map:
  assumes "make_rules c action rs m = Ok m'" and "keys_sorted m"
  shows "map_of m' nr = (case map_of m nr of
           None \<Rightarrow> nonempty (rules_of c action nr rs)
         | Some v \<Rightarrow> Some (v @ rules_of c action nr rs))"
  using assms
proof (induction rs arbitrary: m)
  case Nil
  then show ?case by (auto simp: rules_of_def nonempty_def split: option.split)
next
  case (Cons r rs)
  then obtain n where n: "get_syscall_nr (c_syscall_table c) (sr_syscall r) = Some n"
    and step: "make_rules c action rs (btree_entry n [] (\<lambda>acc. case sr_conditions r of
                    Some cs \<Rightarrow> acc @ [rule_new cs action]
                  | None \<Rightarrow> acc @ [rule_new [] action]) m) = Ok m'"
    by auto
  show ?case
    using Cons.IH [OF step keys_sorted_btree_entry [OF Cons.prems(2)]]
    by (cases "n = nr")
      (auto simp: map_of_btree_entry [OF Cons.prems(2)] rules_of_def n nonempty_def
        split: option.splits)
qed

lemma make_rules_keys:
  assumes "make_rules c action rs m = Ok m'" and "keys_sorted m"
  shows "keys_sorted m'
    \<and> (\<forall>k \<in> fst ` set m'. k \<in> fst ` set m \<or> (\<exists>name. get_syscall_nr (c_syscall_table c) name = Some k))"
  using assms
proof (induction rs arbitrary: m)
  case (Cons r rs)
  then obtain n where n: "get_syscall_nr (c_syscall_table c) (sr_syscall r) = Some n"
    and step: "make_rules c action rs (btree_entry n [] (\<lambda>acc. case sr_conditions r of
                    Some cs \<Rightarrow> acc @ [rule_new cs action]
                  | None \<Rightarrow> acc @ [rule_new [] action]) m) = Ok m'"
    by auto
  show ?case
    using Cons.IH [OF step keys_sorted_btree_entry [OF Cons.prems(2)]] n
    unfolding btree_entry_keys by (metis insertE)
qed simp

lemma make_basic_rules_map:
  assumes "make_basic_rules c action rs m = Ok m'" and "keys_sorted m"
  shows "map_of m' nr = (case map_of m nr of
           None \<Rightarrow> if rules_of c action nr rs = [] then None else Some [rule_new [] action]
         | Some v \<Rightarrow> Some v)"
  using assms
proof (induction rs arbitrary: m)
  case Nil
  then show ?case by (auto simp: rules_of_def split: option.split)
next
  case (Cons r rs)
  then obtain n where n: "get_syscall_nr (c_syscall_table c) (sr_syscall r) = Some n"
    and step: "make_basic_rules c action rs (btree_entry n [rule_new [] action] (\<lambda>rules. rules) m) = Ok m'"
    by auto
  show ?case
    using Cons.IH [OF step keys_sorted_btree_entry [OF Cons.prems(2)]]
    by (cases "n = nr")
      (auto simp: map_of_btree_entry [OF Cons.prems(2)] rules_of_def n split: option.splits)
qed

lemma make_basic_rules_keys:
  assumes "make_basic_rules c action rs m = Ok m'" and "keys_sorted m"
  shows "keys_sorted m'
    \<and> (\<forall>k \<in> fst ` set m'. k \<in> fst ` set m \<or> (\<exists>name. get_syscall_nr (c_syscall_table c) name = Some k))"
  using assms
proof (induction rs arbitrary: m)
  case (Cons r rs)
  then obtain n where n: "get_syscall_nr (c_syscall_table c) (sr_syscall r) = Some n"
    and step: "make_basic_rules c action rs (btree_entry n [rule_new [] action] (\<lambda>rules. rules) m) = Ok m'"
    by auto
  show ?case
    using Cons.IH [OF step keys_sorted_btree_entry [OF Cons.prems(2)]] n
    unfolding btree_entry_keys by (metis insertE)
qed simp

section \<open>Correctness of the translation\<close>

lemma arch_round_trip: "arch_try_into (arch_to_string a) = Ok a"
  by (cases a) (simp_all add: arch_try_into_def arch_to_string_def char_to_lowercase_def)

lemma filter_new_Ok:
  "filter_new m act (arch_to_string a) = Ok f \<Longrightarrow>
   f = \<lparr>filter_rules = m, default_action = act, target_arch = a\<rparr>"
  by (auto simp: filter_new_def arch_round_trip rbind_def split: sum.splits)

lemma find_key: "find (\<lambda>(k, _). k = nr) m = map_option (Pair nr) (map_of m nr)"
  by (induction m) auto

lemma ucast_eq_small: "unat (k :: i64) < 2 ^ 32 \<Longrightarrow> ucast k = (n :: u32) \<longleftrightarrow> k = ucast n"
  using unat_bound [of n] by (auto simp: word_unat_eq_iff unat_ucast_mod unat_ucast_up)

lemma find_ucast_key:
  assumes "\<forall>k \<in> fst ` set m. unat k < 2 ^ 32"
  shows "find (\<lambda>(k, _). ucast k = (n :: u32)) (m :: (i64 \<times> 'v) list)
         = map_option (Pair (ucast n)) (map_of m (ucast n))"
proof -
  have "find (\<lambda>(k, _). ucast k = n) m = find (\<lambda>(k, _). k = ucast n) m"
  proof (rule find_cong [OF refl])
    fix x assume "x \<in> set m"
    then have "unat (fst x) < 2 ^ 32" using assms by blast
    then show "(case x of (k, _) \<Rightarrow> ucast k = n) \<longleftrightarrow> (case x of (k, _) \<Rightarrow> k = ucast n)"
      using ucast_eq_small [of "fst x" n] by (simp add: case_prod_unfold)
  qed
  then show ?thesis by (simp add: find_key)
qed

lemma chain_action_same:
  assumes "\<forall>r \<in> set rs. rule_action r = act"
  shows "chain_action d def rs = (if list_ex (rule_matches d) rs then act else def)"
  using assms by (induction rs) (auto simp: chain_action_def)

lemma err_None: "err r = None \<longleftrightarrow> (\<exists>y. r = Ok y)"
  by (cases r) auto

lemma first_err_None: "first_err f xs = None \<longleftrightarrow> (\<forall>x \<in> set xs. \<exists>y. f x = Ok y)"
proof -
  have "first_err f xs = None \<longleftrightarrow> (\<forall>x \<in> set xs. err (f x) = None)"
    by (induction xs) (auto simp: first_err_def List.map_filter_def split: list.splits option.splits)
  then show ?thesis by (simp add: err_None)
qed

text \<open>The conditions of a validated filter name arguments that exist.\<close>

lemma cond_validate_Ok: "cond_validate c = Ok u \<longleftrightarrow> arg_number c \<le> ARG_NUMBER_MAX"
  by (auto simp: cond_validate_def)

lemma rules_of_args:
  assumes "filter_validate f = Ok ()"
  shows "rules_args_ok (rules_of c act nr (f_filter f))"
proof -
  have "list_all (\<lambda>c. arg_number c \<le> ARG_NUMBER_MAX) (case sr_conditions r of None \<Rightarrow> [] | Some cs \<Rightarrow> cs)"
    if "r \<in> set (f_filter f)" for r
  proof -
    have "syscall_rule_validate r = Ok ()"
      using assms that
      by (auto simp: filter_validate_def first_err_None split: if_splits option.splits)
    then show ?thesis
      by (auto simp: syscall_rule_validate_def first_err_None cond_validate_Ok list_all_iff
          split: option.splits)
  qed
  then show ?thesis
    by (simp add: rules_args_ok_def rules_of_def list_all_iff rule_new_def) blast
qed

text \<open>
  What both translations give: sorted keys from the table, and for a number the rules of the
  filter for it, or a single rule without conditions.
\<close>

lemma rule_map_meaning:
  fixes f :: Filter and d :: seccomp_data and arch :: TargetArch
  defines "c \<equiv> compiler_new arch"
  assumes keys: "\<forall>k \<in> fst ` set m. \<exists>name. get_syscall_nr (c_syscall_table c) name = Some k"
    and rules: "\<And>nr. map_of m nr = (let rs = rules_of c (f_filter_action f) nr (f_filter f)
        in if rs = [] then None
           else Some (if is_basic then [rule_new [] (f_filter_action f)] else rs))"
  shows "filter_action_of d \<lparr>filter_rules = m, default_action = f_default_action f, target_arch = arch\<rparr>
         = filter_meaning arch is_basic d f"
proof -
  have small: "\<forall>k \<in> fst ` set m. unat k < 2 ^ 32"
    using keys get_syscall_nr_small by (auto simp: c_def compiler_new_def)
  let ?n = "ucast (sd_nr d) :: i64"
  let ?rs = "rules_of c (f_filter_action f) ?n (f_filter f)"
  have nr: "ucast k = sd_nr d \<longleftrightarrow> k = ?n" if "get_syscall_nr (c_syscall_table c) name = Some k" for k name
  proof -
    have "unat k < 2 ^ 32"
      using that get_syscall_nr_small by (auto simp: c_def compiler_new_def)
    then show ?thesis by (rule ucast_eq_small)
  qed
  have applies: "syscall_rule_applies (syscall_table_new arch) is_basic d r
      \<longleftrightarrow> get_syscall_nr (c_syscall_table c) (sr_syscall r) = Some ?n
          \<and> (is_basic \<or> rule_matches d (rule_new (case sr_conditions r of None \<Rightarrow> [] | Some cs \<Rightarrow> cs) act))"
    for r act
    using nr [of "sr_syscall r"]
    by (auto simp: syscall_rule_applies_def c_def compiler_new_def rule_matches_def rule_new_def
        split: option.splits)
  have ex: "list_ex (syscall_rule_applies (syscall_table_new arch) is_basic d) (f_filter f)
      \<longleftrightarrow> ?rs \<noteq> [] \<and> (is_basic \<or> list_ex (rule_matches d) ?rs)"
    by (auto simp: applies [where act = "f_filter_action f"] list_ex_iff rules_of_def filter_empty_conv)
  have same: "\<forall>r \<in> set ?rs. rule_action r = f_filter_action f"
    by (auto simp: rules_of_def rule_new_def)
  show ?thesis
    using ex chain_action_same [OF same, of d "f_default_action f"]
    by (auto simp: filter_action_of_def filter_meaning_def find_ucast_key [OF small] rules Let_def
        chain_action_def rule_matches_def rule_new_def split: if_splits)
qed

lemma ebind_Ok2:
  "ebind m (\<lambda>r. Done (case r of Inl e \<Rightarrow> Err (h e) | Inr x \<Rightarrow> Ok x)) = Done (Ok y)
   \<longleftrightarrow> m = Done (Ok y)"
  by (cases m) (auto split: sum.splits)

lemma compile_filter_correct:
  assumes mach: "bpf_machine run" and wf: "sd_wf d" and valid: "filter_validate f = Ok ()"
    and comp: "compile_filter (compiler_new arch) is_basic f = Done (Ok p)"
  shows "run p d 0 a = Some (action_code (filter_meaning arch is_basic d f))"
proof -
  let ?c = "compiler_new arch"
  let ?act = "f_filter_action f"
  have s0: "keys_sorted ([] :: SeccompRuleMap)" by (simp add: keys_sorted_def)
  obtain m where m: "(if is_basic then make_basic_rules ?c ?act (f_filter f) []
                      else make_rules ?c ?act (f_filter f) []) = Ok m"
    and p: "filter_try_into \<lparr>filter_rules = m, default_action = f_default_action f, target_arch = arch\<rparr>
            = Done (Ok p)"
  proof -
    obtain sf where sf: "(if is_basic then make_basic_seccomp_filter ?c f else make_seccomp_filter ?c f) = Ok sf"
      and p: "filter_try_into sf = Done (Ok p)"
      using comp
      by (auto simp: compile_filter_def map_err_def ebind_Ok2 split: sum.split_asm)
    then show thesis
      using that
      by (auto simp: make_basic_seccomp_filter_def make_seccomp_filter_def map_err_def rbind_def
          compiler_new_def dest!: filter_new_Ok split: if_splits sum.splits)
  qed
  have map: "map_of m nr = (let rs = rules_of ?c ?act nr (f_filter f)
        in if rs = [] then None else Some (if is_basic then [rule_new [] ?act] else rs))" for nr
    using m make_rules_map [OF _ s0, of ?c ?act "f_filter f" m nr]
      make_basic_rules_map [OF _ s0, of ?c ?act "f_filter f" m nr]
    by (auto simp: nonempty_def split: if_splits)
  have keys: "keys_sorted m" "\<forall>k \<in> fst ` set m. \<exists>name. get_syscall_nr (c_syscall_table ?c) name = Some k"
    using m make_rules_keys [OF _ s0, of ?c ?act "f_filter f" m]
      make_basic_rules_keys [OF _ s0, of ?c ?act "f_filter f" m]
    by (auto split: if_splits)
  have "rules_args_ok rs" if "(nr, rs) \<in> set m" for nr rs
  proof -
    have "map_of m nr = Some rs"
      using that keys_sorted_distinct [OF keys(1)] by (simp add: map_of_is_SomeI)
    then show ?thesis
      using map [of nr] rules_of_args [OF valid, of ?c ?act nr]
      by (auto simp: Let_def rules_args_ok_def rule_new_def split: if_splits)
  qed
  then have "filter_args_ok \<lparr>filter_rules = m, default_action = f_default_action f, target_arch = arch\<rparr>"
    by (auto simp: filter_args_ok_def list_all_iff)
  from bpf_machine.filter_code [OF mach wf this p] rule_map_meaning [OF keys(2) map]
  show ?thesis by simp
qed

lemma compile_filters_Ok:
  assumes "compile_filters c is_basic fs m0 = Done (Ok m)" and "distinct (map fst fs)"
  shows "(map_of fs t = None \<longrightarrow> m t = m0 t)
    \<and> (\<forall>f. map_of fs t = Some f \<longrightarrow>
          (\<exists>p. m t = Some p \<and> compile_filter c is_basic f = Done (Ok p)))"
  using assms
proof (induction fs arbitrary: m0)
  case Nil
  then show ?case by simp
next
  case (Cons tf fs)
  obtain t' f where tf: "tf = (t', f)" by fastforce
  with Cons.prems obtain p where p: "compile_filter c is_basic f = Done (Ok p)"
    and rest: "compile_filters c is_basic fs (m0(t' \<mapsto> p)) = Done (Ok m)"
    by (auto simp: ebind_Ok)
  have d: "distinct (map fst fs)" "t' \<notin> fst ` set fs" using Cons.prems(2) by (auto simp: tf)
  then have "map_of fs t' = None" by (simp add: map_of_eq_None_iff)
  then show ?case
    using Cons.IH [OF rest d(1)] p by (auto simp: tf split: option.splits)
qed

section \<open>Properties\<close>

text \<open>
  (C1) The seccomp compiler is correct from the JSON filters to BPF: when compiling the filters of
  the threads succeeds, every thread gets a program that, on any BPF machine and every seccomp
  datum, answers with the filter action exactly when some rule of the thread's filter names the
  system call (and, unless the filter is basic, all its conditions hold), with the default action
  otherwise, and kills the process on a foreign architecture.
\<close>

theorem compile_blob_correct:
  assumes "compile_blob (compiler_new arch) filters is_basic = Done (Ok bpf_map)"
    and "distinct (map fst filters)" and "(thread_name, f) \<in> set filters"
    and "bpf_machine run" and "sd_wf d"
  shows "\<exists>p. bpf_map thread_name = Some p
           \<and> run p d 0 a = Some (action_code (filter_meaning arch is_basic d f))"
proof -
  have valid: "\<forall>(t, f) \<in> set filters. filter_validate f = Ok ()"
    and comp: "compile_filters (compiler_new arch) is_basic filters Map.empty = Done (Ok bpf_map)"
    using assms(1)
    by (auto simp: compile_blob_def validate_filters_def first_err_None split: option.split_asm)
  have "map_of filters thread_name = Some f"
    using assms(2,3) by simp
  then obtain p where "bpf_map thread_name = Some p"
    and "compile_filter (compiler_new arch) is_basic f = Done (Ok p)"
    using compile_filters_Ok [OF comp assms(2), of thread_name] by auto
  moreover have "filter_validate f = Ok ()" using valid assms(3) by auto
  ultimately show ?thesis
    using compile_filter_correct [OF assms(4,5)] by blast
qed

definition sample_json :: "(string \<times> Filter) list" where
  "sample_json =
     [(''vcpu'', \<lparr>f_default_action = Trap, f_filter_action = Allow,
                  f_filter = [\<lparr>sr_syscall = ''writev'', sr_conditions = None, sr_comment = None\<rparr>]\<rparr>)]"

lemma insert_syscalls_last:
  "kvs \<noteq> [] \<Longrightarrow> last kvs = (k, v) \<Longrightarrow> insert_syscalls kvs m k = Some v"
proof (induction kvs rule: rev_induct)
  case (snoc kv kvs)
  then show ?case by (simp add: insert_syscalls_def)
qed simp

lemma last_syscall_aarch64: "last make_syscall_table_aarch64 = (''writev'', 66)"
  by (simp only: make_syscall_table_aarch64_def last.simps list.distinct if_False if_True simp_thms)

lemma get_writev: "get_syscall_nr (syscall_table_new aarch64) ''writev'' = Some 66"
proof -
  have "make_syscall_table_aarch64 \<noteq> []" by (simp only: make_syscall_table_aarch64_def) simp
  from insert_syscalls_last [OF this last_syscall_aarch64] show ?thesis
    by (simp add: get_syscall_nr_def syscall_table_new_def populate_map_def)
qed

lemma sample_json_compiles:
  "\<exists>m. compile_blob (compiler_new aarch64) sample_json False = Done (Ok m)"
  by (simp add: compile_blob_def sample_json_def validate_filters_def first_err_def
      List.map_filter_def filter_validate_def syscall_rule_validate_def compile_filter_def
      make_seccomp_filter_def compiler_new_def get_writev rbind_def ok_or_def map_err_def
      filter_new_def arch_round_trip filter_try_into_def append_syscall_chain_def rule_into_def
      rule_new_def VALIDATE_ARCHITECTURE_def EXAMINE_SYSCALL_def BPF_MAX_LEN_def Let_def)

theorem compile_blob_correct_witness:
  "\<exists>m p. compile_blob (compiler_new aarch64) sample_json False = Done (Ok m)
     \<and> m ''vcpu'' = Some p
     \<and> bpf_exec p (sample_data\<lparr>sd_nr := 66, sd_arch := AUDIT_ARCH_AARCH64\<rparr>) 0 0
       = Some SECCOMP_RET_ALLOW"
proof -
  let ?d = "sample_data\<lparr>sd_nr := 66, sd_arch := AUDIT_ARCH_AARCH64\<rparr>"
  obtain m where m: "compile_blob (compiler_new aarch64) sample_json False = Done (Ok m)"
    using sample_json_compiles by blast
  have "filter_meaning aarch64 False ?d (snd (hd sample_json)) = Allow"
    by (simp add: filter_meaning_def sample_data_def sample_json_def get_audit_value_def
        syscall_rule_applies_def get_writev)
  moreover have "distinct (map fst sample_json)" "(''vcpu'', snd (hd sample_json)) \<in> set sample_json"
    "sd_wf ?d"
    by (simp_all add: sample_json_def sd_wf_def sample_data_def)
  ultimately obtain p where "m ''vcpu'' = Some p" "bpf_exec p ?d 0 0 = Some SECCOMP_RET_ALLOW"
    using compile_blob_correct [OF m, of "''vcpu''" "snd (hd sample_json)" bpf_exec ?d 0]
      cbpf.bpf_machine_axioms
    by (auto simp: action_code_def simp del: map_map)
  then show ?thesis using m by blast
qed

end
