(* ===== verification/TxBuf.thy ===== *)
theory TxBuf
  imports Prelude
begin

text \<open>
  The ring buffer that holds the data a guest sent on a vsock connection until the host reads it,
  \<open>devices/src/virtio/vsock/csm/txbuf.rs\<close>, and the errors of \<open>csm/mod.rs\<close>. The buffer refines a
  byte queue.
\<close>

section \<open>The code\<close>

definition CONN_TX_BUF_SIZE :: u32 where
  "CONN_TX_BUF_SIZE = 64 * 1024"

definition SIZE :: nat where
  "SIZE = unat CONN_TX_BUF_SIZE"

text \<open>The errors of a connection; \<open>'e\<close> is \<open>std::io::Error\<close>.\<close>

datatype 'e CsmError = TxBufFull | TxBufFlush 'e | StreamWrite 'e

record TxBuf =
  tx_data :: "u8 list option"
  tx_head :: u32
  tx_tail :: u32

definition txbuf_new :: TxBuf where
  "txbuf_new = \<lparr>tx_data = None, tx_head = 0, tx_tail = 0\<rparr>"

definition txbuf_len :: "TxBuf \<Rightarrow> nat" where
  "txbuf_len b = unat (tx_head b - tx_tail b)"

definition txbuf_push :: "TxBuf \<Rightarrow> u8 list \<Rightarrow> (TxBuf \<times> ('e CsmError + unit)) exec" where
  "txbuf_push b src =
     (if txbuf_len b + length src > SIZE then Done (b, Err TxBufFull)
      else let data = (case tx_data b of None \<Rightarrow> replicate SIZE 0 | Some d \<Rightarrow> d);
               head_ofs = unat (tx_head b) mod SIZE;
               len = min (SIZE - head_ofs) (length src)
           in ebind (copy_from_slice data head_ofs (head_ofs + len) (take len src))
                (\<lambda>data.
              ebind (if len < length src
                     then copy_from_slice data 0 (length src - len) (drop len src)
                     else Done data)
                (\<lambda>data.
                  Done (b\<lparr>tx_data := Some data,
                          tx_head := tx_head b + of_nat (length src)\<rparr>, Ok ()))))"

definition txbuf_is_empty :: "TxBuf \<Rightarrow> bool" where
  "txbuf_is_empty b \<longleftrightarrow> txbuf_len b = 0"

text \<open>
  \<open>flush_to\<close> calls itself after a complete first write; a sink that claims to have written more
  than it was given could keep it going, so the recursion is partial: \<open>None\<close> is not returning.
  A sink is its state and its \<open>write\<close>.
\<close>

partial_function (option) txbuf_flush_to ::
  "('s \<Rightarrow> u8 list \<Rightarrow> 's \<times> ('e + nat)) \<Rightarrow> TxBuf \<Rightarrow> 's \<Rightarrow>
   (TxBuf \<times> 's \<times> ('e CsmError + nat)) exec option" where
  "txbuf_flush_to sink_write b sink =
     (if txbuf_is_empty b then Some (Done (b, sink, Ok 0))
      else let tail_ofs = unat (tx_tail b) mod SIZE;
               len_to_write = min (SIZE - tail_ofs) (txbuf_len b)
           in case tx_data b of
                None \<Rightarrow> Some Panic
              | Some data \<Rightarrow>
                  if length data < tail_ofs + len_to_write then Some Panic
                  else case sink_write sink (slice data tail_ofs len_to_write) of
                    (sink, Inl e) \<Rightarrow> Some (Done (b, sink, Err (TxBufFlush e)))
                  | (sink, Inr written) \<Rightarrow>
                      let b = b\<lparr>tx_tail := tx_tail b + of_nat written\<rparr>
                      in if written < len_to_write then Some (Done (b, sink, Ok written))
                         else Option.bind (txbuf_flush_to sink_write b sink)
                           (\<lambda>r. case r of
                              Panic \<Rightarrow> Some Panic
                            | Done (b, sink, res) \<Rightarrow>
                                Some (Done (b, sink,
                                  Ok (written + (case res of Inl _ \<Rightarrow> 0 | Inr n \<Rightarrow> n))))))"

text \<open>\<open>impl Write for TxBuf\<close>; the error is wrapped in an \<open>io::Error\<close>.\<close>

definition txbuf_write :: "TxBuf \<Rightarrow> u8 list \<Rightarrow> (TxBuf \<times> ('e CsmError + nat)) exec" where
  "txbuf_write b buf =
     ebind (txbuf_push b buf)
       (\<lambda>(b, r). Done (b, case r of Inl e \<Rightarrow> Err e | Inr _ \<Rightarrow> Ok (length buf)))"

section \<open>Rings\<close>

lemma mod_distance:
  assumes "a \<le> b" and "b < a + (n :: nat)"
  shows "(b mod n + n - a mod n) mod n = b - a"
proof -
  obtain c where b: "b = a + c" and c: "c < n"
    using assms by (metis le_Suc_ex nat_add_left_cancel_less)
  have "(a + c) mod n = (if a mod n + c < n then a mod n + c else a mod n + c - n)"
  proof -
    have "(a + c) mod n = (a mod n + c) mod n" by (simp add: mod_simps)
    moreover have "a mod n < n" using c by simp
    ultimately show ?thesis
      using c by (cases "a mod n + c < n") (simp_all add: le_mod_geq)
  qed
  moreover have "a mod n < n" using c by simp
  ultimately show ?thesis using c by (auto simp: b)
qed

text \<open>The position of the ring buffer's element \<open>i\<close>, and the list it holds.\<close>

definition ring :: "'a list \<Rightarrow> nat \<Rightarrow> nat \<Rightarrow> 'a list" where
  "ring d t n = map (\<lambda>i. d ! ((t + i) mod length d)) [0..<n]"

lemma length_ring [simp]: "length (ring d t n) = n"
  by (simp add: ring_def)

lemma nth_ring: "i < n \<Longrightarrow> ring d t n ! i = d ! ((t + i) mod length d)"
  by (simp add: ring_def)

lemma ring_mod: "ring d (t mod length d) n = ring d t n"
  by (simp add: ring_def mod_simps)

lemma ring_drop: "drop k (ring d t n) = ring d (t + k) (n - k)"
  by (rule nth_equalityI) (simp_all add: nth_ring ac_simps)

lemma ring_take_slice:
  assumes "t mod length d + k \<le> length d" and "k \<le> n"
  shows "take k (ring d t n) = slice d (t mod length d) k"
proof (rule nth_equalityI)
  show "length (take k (ring d t n)) = length (slice d (t mod length d) k)"
    using assms by (simp add: length_slice)
  fix i assume "i < length (take k (ring d t n))"
  then have i: "i < k" using assms by simp
  then have "(t + i) mod length d = t mod length d + i"
    using assms by (metis add_less_cancel_left mod_add_left_eq mod_less order_less_le_trans)
  then show "take k (ring d t n) ! i = slice d (t mod length d) k ! i"
    using i assms by (simp add: nth_ring nth_slice)
qed

text \<open>What the two copies leave at a position.\<close>

definition ring_write :: "'a list \<Rightarrow> nat \<Rightarrow> 'a list \<Rightarrow> 'a list" where
  "ring_write d h src =
     (let k = min (length d - h) (length src)
      in splice (splice d h (take k src)) 0 (drop k src))"

lemma length_ring_write [simp]:
  "h < length d \<Longrightarrow> length src \<le> length d \<Longrightarrow> length (ring_write d h src) = length d"
  by (simp add: ring_write_def Let_def)

lemma nth_ring_write:
  assumes "h < length d" and "length src \<le> length d" and "p < length d"
  shows "ring_write d h src ! p =
    (let j = (p + length d - h) mod length d in if j < length src then src ! j else d ! p)"
proof -
  have j: "(p + length d - h) mod length d = (if h \<le> p then p - h else p + length d - h)"
    using assms by (cases "h \<le> p") (simp_all add: le_mod_geq)
  show ?thesis
    unfolding j using assms
    by (auto simp: ring_write_def Let_def nth_splice min_def add.commute)
qed

lemma ring_ring_write:
  assumes "n + length src \<le> length d" and "d \<noteq> []"
  shows "ring (ring_write d ((t + n) mod length d) src) t (n + length src) = ring d t n @ src"
proof (rule nth_equalityI)
  let ?l = "length d"
  let ?h = "(t + n) mod ?l"
  have l: "?h < ?l" "length src \<le> ?l" using assms by simp_all
  show "length (ring (ring_write d ?h src) t (n + length src)) = length (ring d t n @ src)" by simp
  fix i assume "i < length (ring (ring_write d ?h src) t (n + length src))"
  then have i: "i < n + length src" by simp
  let ?p = "(t + i) mod ?l"
  have p: "?p < ?l" using assms by simp
  have "ring (ring_write d ?h src) t (n + length src) ! i = ring_write d ?h src ! ?p"
    using i l by (simp add: nth_ring)
  also have "\<dots> = (ring d t n @ src) ! i"
  proof (cases "i < n")
    case True
    then have "(?p + ?l - ?h) mod ?l = i + ?l - n"
      using mod_distance [of "t + n" "t + i + ?l" ?l] assms by simp
    moreover have "\<not> i + ?l - n < length src" using True assms by linarith
    ultimately show ?thesis
      using True by (simp add: nth_ring_write [OF l p] nth_append nth_ring Let_def)
  next
    case False
    then have "(?p + ?l - ?h) mod ?l = i - n"
      using mod_distance [of "t + n" "t + i" ?l] assms i by simp
    moreover have "i - n < length src" using False i by linarith
    ultimately show ?thesis
      using False by (simp add: nth_ring_write [OF l p] nth_append Let_def)
  qed
  finally show "ring (ring_write d ?h src) t (n + length src) ! i = (ring d t n @ src) ! i" .
qed

lemma append_eq_split:
  assumes "xs' @ ys' = xs @ ys" and "length ys = n + length ys'"
  shows "xs' = xs @ take n ys" "ys' = drop n ys"
proof -
  have "length xs' = length xs + n" using arg_cong [OF assms(1), of length] assms(2) by simp
  then have "xs' = take (length xs + n) (xs @ ys)" "ys' = drop (length xs + n) (xs @ ys)"
    using assms(1) by (metis append_eq_conv_conj)+
  then show "xs' = xs @ take n ys" "ys' = drop n ys" by simp_all
qed

section \<open>The buffer refines a byte queue\<close>

definition txbuf_inv :: "TxBuf \<Rightarrow> bool" where
  "txbuf_inv b \<longleftrightarrow>
     txbuf_len b \<le> SIZE
     \<and> (case tx_data b of None \<Rightarrow> txbuf_len b = 0 | Some d \<Rightarrow> length d = SIZE)"

definition txbuf_contents :: "TxBuf \<Rightarrow> u8 list" where
  "txbuf_contents b =
     (case tx_data b of None \<Rightarrow> [] | Some d \<Rightarrow> ring d (unat (tx_tail b)) (txbuf_len b))"

lemma SIZE_eq: "SIZE = 65536"
  by (simp add: SIZE_def CONN_TX_BUF_SIZE_def)

lemma length_contents: "txbuf_inv b \<Longrightarrow> length (txbuf_contents b) = txbuf_len b"
  by (auto simp: txbuf_inv_def txbuf_contents_def split: option.splits)

lemma txbuf_inv_new: "txbuf_inv txbuf_new" "txbuf_contents txbuf_new = []"
  by (simp_all add: txbuf_inv_def txbuf_new_def txbuf_len_def txbuf_contents_def)

text \<open>The capacity divides \<open>2 ^ 32\<close>, so the wrap of the offsets does not show in the ring.\<close>

lemma unat_u32_add_mod: "unat (x + y :: u32) mod SIZE = (unat x + unat y) mod SIZE"
  by (simp add: unat_word_ariths SIZE_eq mod_mod_cancel)

lemma head_mod:
  "unat (tx_head b) mod SIZE = (unat (tx_tail b) + txbuf_len b) mod SIZE"
  using unat_u32_add_mod [of "tx_tail b" "tx_head b - tx_tail b"] by (simp add: txbuf_len_def)

lemma push_copies:
  assumes "length data = SIZE" and "h < SIZE" and "length src \<le> SIZE"
  shows "ebind (copy_from_slice data h (h + min (SIZE - h) (length src))
                  (take (min (SIZE - h) (length src)) src))
           (\<lambda>data. ebind (if min (SIZE - h) (length src) < length src
                     then copy_from_slice data 0 (length src - min (SIZE - h) (length src))
                            (drop (min (SIZE - h) (length src)) src)
                     else Done data) f)
         = f (ring_write data h src)"
  using assms
  by (auto simp: copy_from_slice_def ring_write_def Let_def min_def)

lemma txbuf_len_head:
  "txbuf_len b + n \<le> SIZE \<Longrightarrow>
   txbuf_len (b\<lparr>tx_data := x, tx_head := tx_head b + of_nat n\<rparr>) = txbuf_len b + n"
proof -
  assume n: "txbuf_len b + n \<le> SIZE"
  then have "unat (of_nat n :: u32) = n" by (simp add: unat_of_nat SIZE_eq)
  moreover have "unat ((tx_head b - tx_tail b) + of_nat n)
      = unat (tx_head b - tx_tail b) + unat (of_nat n :: u32)"
    using n calculation by (intro unat_add_small) (simp add: txbuf_len_def SIZE_eq)
  moreover have "txbuf_len (b\<lparr>tx_data := x, tx_head := tx_head b + of_nat n\<rparr>)
      = unat ((tx_head b - tx_tail b) + of_nat n)"
    by (simp add: txbuf_len_def algebra_simps)
  ultimately show ?thesis by (simp only: txbuf_len_def)
qed

lemma txbuf_push_refines:
  assumes "txbuf_inv b"
  shows "\<exists>b' r. txbuf_push b src = Done (b', r) \<and> txbuf_inv b'
     \<and> (if length (txbuf_contents b) + length src \<le> SIZE
        then r = Ok () \<and> txbuf_contents b' = txbuf_contents b @ src
        else r = Err TxBufFull \<and> b' = b)"
proof (cases "txbuf_len b + length src \<le> SIZE")
  case False
  then show ?thesis
    using assms by (simp add: txbuf_push_def length_contents)
next
  case True
  define d where "d = (case tx_data b of None \<Rightarrow> replicate SIZE 0 | Some d \<Rightarrow> d)"
  define h where "h = unat (tx_head b) mod SIZE"
  let ?d = "ring_write d h src"
  let ?b = "b\<lparr>tx_data := Some ?d, tx_head := tx_head b + of_nat (length src)\<rparr>"
  have d: "length d = SIZE" using assms by (auto simp: d_def txbuf_inv_def split: option.splits)
  have h: "h < SIZE" by (simp add: h_def SIZE_eq)
  have ne: "d \<noteq> []" using d h by auto
  have len: "txbuf_len ?b = txbuf_len b + length src" using True by (rule txbuf_len_head)
  have push: "txbuf_push b src = Done (?b, Ok ())"
    using True push_copies [OF d h, of src]
    unfolding txbuf_push_def Let_def d_def [symmetric] h_def [symmetric] by simp
  have "txbuf_contents ?b = ring ?d (unat (tx_tail b)) (txbuf_len b + length src)"
    by (simp add: txbuf_contents_def len)
  also have "\<dots> = ring d (unat (tx_tail b)) (txbuf_len b) @ src"
    using ring_ring_write [of "txbuf_len b" src d "unat (tx_tail b)"] True d ne
    by (simp add: h_def head_mod)
  also have "ring d (unat (tx_tail b)) (txbuf_len b) = txbuf_contents b"
    using assms by (auto simp: d_def txbuf_contents_def txbuf_inv_def ring_def split: option.splits)
  finally have "txbuf_contents ?b = txbuf_contents b @ src" .
  moreover have "txbuf_inv ?b" using True d h len by (simp add: txbuf_inv_def)
  ultimately show ?thesis
    using push True assms by (simp add: length_contents) blast
qed

section \<open>Sinks\<close>

text \<open>
  What \<open>std::io::Write\<close> documents of \<open>write\<close>: on success it returns how many bytes it took from the
  front of the buffer, at most all of them; on an error it took none. \<open>taken\<close> is what a sink has
  taken so far.
\<close>

locale byte_sink =
  fixes sink_write :: "'s \<Rightarrow> u8 list \<Rightarrow> 's \<times> ('e + nat)"
    and taken :: "'s \<Rightarrow> u8 list"
  assumes write_Ok: "sink_write s buf = (s', Inr n) \<Longrightarrow>
            n \<le> length buf \<and> taken s' = taken s @ take n buf"
    and write_Err: "sink_write s buf = (s', Inl e) \<Longrightarrow> taken s' = taken s"
begin

text \<open>One write, of the part of the contents up to the end of the array.\<close>

lemma flush_once:
  assumes inv: "txbuf_inv b" and ne: "\<not> txbuf_is_empty b"
  obtains d k where "tx_data b = Some d" and "length d = SIZE"
    and "k = min (SIZE - unat (tx_tail b) mod SIZE) (txbuf_len b)" and "0 < k"
    and "slice d (unat (tx_tail b) mod SIZE) k = take k (txbuf_contents b)"
    and "unat (tx_tail b) mod SIZE + k \<le> SIZE"
proof -
  obtain d where d: "tx_data b = Some d" "length d = SIZE"
    using inv ne by (auto simp: txbuf_inv_def txbuf_is_empty_def split: option.splits)
  let ?k = "min (SIZE - unat (tx_tail b) mod SIZE) (txbuf_len b)"
  have t: "unat (tx_tail b) mod SIZE < SIZE" by (simp add: SIZE_eq)
  have "slice d (unat (tx_tail b) mod SIZE) ?k = take ?k (txbuf_contents b)"
    using ring_take_slice [of "unat (tx_tail b)" d ?k "txbuf_len b"] d t
    by (simp add: txbuf_contents_def)
  then show thesis
    using that [of d ?k] d ne t by (simp add: txbuf_is_empty_def)
qed

lemma advance_tail:
  assumes inv: "txbuf_inv b" and n: "n \<le> txbuf_len b"
  defines "b' \<equiv> b\<lparr>tx_tail := tx_tail b + of_nat n\<rparr>"
  shows "txbuf_inv b'" "txbuf_contents b' = drop n (txbuf_contents b)" "txbuf_len b' = txbuf_len b - n"
proof -
  have "n \<le> SIZE" using inv n by (simp add: txbuf_inv_def)
  then have u: "unat (of_nat n :: u32) = n" by (simp add: unat_of_nat SIZE_eq)
  have "of_nat n \<le> tx_head b - tx_tail b"
    using n u by (simp add: word_le_nat_alt txbuf_len_def)
  then have "unat ((tx_head b - tx_tail b) - of_nat n) = txbuf_len b - n"
    using u by (simp add: unat_sub_le txbuf_len_def)
  moreover have "txbuf_len b' = unat ((tx_head b - tx_tail b) - of_nat n)"
    by (simp add: txbuf_len_def b'_def algebra_simps)
  ultimately show len: "txbuf_len b' = txbuf_len b - n" by simp
  show "txbuf_inv b'"
    using inv len by (auto simp: txbuf_inv_def b'_def split: option.splits)
  show "txbuf_contents b' = drop n (txbuf_contents b)"
  proof (cases "tx_data b")
    case None
    then show ?thesis by (simp add: txbuf_contents_def b'_def)
  next
    case (Some d)
    then have "length d = SIZE" using inv by (simp add: txbuf_inv_def)
    then have "ring d (unat (tx_tail b + of_nat n)) m = ring d (unat (tx_tail b) + n) m" for m
      using ring_mod [of d "unat (tx_tail b + of_nat n)" m] ring_mod [of d "unat (tx_tail b) + n" m]
        unat_u32_add_mod [of "tx_tail b" "of_nat n"] u by simp
    with Some len show ?thesis
      by (simp add: txbuf_contents_def b'_def ring_drop)
  qed
qed

text \<open>
  Flushing ends, keeps the bytes in order and loses none; it counts the bytes it moved, and an
  error moves nothing.
\<close>

lemma flush_to_correct:
  assumes "txbuf_inv b"
  shows "\<exists>b' s' r. txbuf_flush_to sink_write b s = Some (Done (b', s', r)) \<and> txbuf_inv b'
     \<and> taken s' @ txbuf_contents b' = taken s @ txbuf_contents b
     \<and> (case r of Inl e \<Rightarrow> b' = b | Inr n \<Rightarrow> txbuf_len b = n + txbuf_len b')"
  using assms
proof (induction "txbuf_len b" arbitrary: b s rule: less_induct)
  case less
  show ?case
  proof (cases "txbuf_is_empty b")
    case True
    then show ?thesis
      using less.prems by (subst txbuf_flush_to.simps) (simp add: txbuf_is_empty_def)
  next
    case False
    then obtain d k where d: "tx_data b = Some d" "length d = SIZE"
      and k: "k = min (SIZE - unat (tx_tail b) mod SIZE) (txbuf_len b)" "0 < k"
      and sl: "slice d (unat (tx_tail b) mod SIZE) k = take k (txbuf_contents b)"
      and kb: "unat (tx_tail b) mod SIZE + k \<le> SIZE"
      using flush_once [OF less.prems] by metis
    have kl: "k \<le> txbuf_len b" using k by simp
    obtain s1 r where w: "sink_write s (take k (txbuf_contents b)) = (s1, r)" by fastforce
    show ?thesis
    proof (cases r)
      case (Inl e)
      with w have "txbuf_flush_to sink_write b s = Some (Done (b, s1, Err (TxBufFlush e)))"
        using False d kb by (subst txbuf_flush_to.simps) (simp add: k(1) [symmetric] sl)
      then show ?thesis using less.prems write_Err [OF w [unfolded Inl]] by simp
    next
      case (Inr n)
      let ?b = "b\<lparr>tx_tail := tx_tail b + of_nat n\<rparr>"
      have n: "n \<le> k" "taken s1 = taken s @ take n (txbuf_contents b)"
        using write_Ok [OF w [unfolded Inr]] by (simp_all add: min_absorb1)
      have adv: "txbuf_inv ?b" "txbuf_contents ?b = drop n (txbuf_contents b)"
        "txbuf_len ?b = txbuf_len b - n"
        using advance_tail [OF less.prems, of n] n(1) kl by simp_all
      show ?thesis
      proof (cases "n < k")
        case True
        with w Inr have "txbuf_flush_to sink_write b s = Some (Done (?b, s1, Ok n))"
          using False d kb by (subst txbuf_flush_to.simps) (simp add: k(1) [symmetric] sl)
        then show ?thesis using adv n kl by simp
      next
        case full: False
        with n have "n = k" by simp
        then have "txbuf_len ?b < txbuf_len b" using adv(3) k(2) kl by linarith
        then obtain b' s' r' where IH: "txbuf_flush_to sink_write ?b s1 = Some (Done (b', s', r'))"
          "txbuf_inv b'" "taken s' @ txbuf_contents b' = taken s1 @ txbuf_contents ?b"
          "case r' of Inl e \<Rightarrow> b' = ?b | Inr m \<Rightarrow> txbuf_len ?b = m + txbuf_len b'"
          using less.hyps adv(1) by blast
        let ?m = "n + (case r' of Inl _ \<Rightarrow> 0 | Inr m \<Rightarrow> m)"
        have "txbuf_flush_to sink_write b s = Some (Done (b', s', Ok ?m))"
          using False d kb w Inr full IH(1)
          by (subst txbuf_flush_to.simps) (simp add: k(1) [symmetric] sl)
        moreover have "txbuf_len b = ?m + txbuf_len b'"
          using IH(4) adv(3) n(1) kl by (auto split: sum.splits)
        ultimately show ?thesis using IH(2,3) adv(2) n(2) by simp
      qed
    qed
  qed
qed

text \<open>
  The life of a buffer: pushes and flushes in any order. \<open>acc\<close> is the data of the pushes that were
  accepted.
\<close>

end

datatype tx_op = Push "u8 list" | Flush

fun tx_steps ::
  "('s \<Rightarrow> u8 list \<Rightarrow> 's \<times> ('e + nat)) \<Rightarrow> tx_op list \<Rightarrow> TxBuf \<times> 's \<times> u8 list \<Rightarrow>
   (TxBuf \<times> 's \<times> u8 list) exec option" where
  "tx_steps w [] st = Some (Done st)"
| "tx_steps w (Push src # ops) (b, s, acc) =
     (case txbuf_push b src :: (TxBuf \<times> ('e CsmError + unit)) exec of
        Panic \<Rightarrow> Some Panic
      | Done (b, r) \<Rightarrow> tx_steps w ops (b, s, case r of Inl _ \<Rightarrow> acc | Inr _ \<Rightarrow> acc @ src))"
| "tx_steps w (Flush # ops) (b, s, acc) =
     (case txbuf_flush_to w b s of
        None \<Rightarrow> None
      | Some Panic \<Rightarrow> Some Panic
      | Some (Done (b, s, r)) \<Rightarrow> tx_steps w ops (b, s, acc))"

context byte_sink
begin

lemma stream:
  assumes "txbuf_inv b" and "taken s @ txbuf_contents b = acc"
  shows "\<exists>b' s' acc'. tx_steps sink_write ops (b, s, acc) = Some (Done (b', s', acc'))
    \<and> txbuf_inv b' \<and> taken s' @ txbuf_contents b' = acc'"
  using assms
proof (induction ops arbitrary: b s acc)
  case Nil
  then show ?case by simp
next
  case (Cons op ops)
  show ?case
  proof (cases op)
    case (Push src)
    obtain b' and r :: "'e CsmError + unit" where p: "txbuf_push b src = Done (b', r)" "txbuf_inv b'"
      "if length (txbuf_contents b) + length src \<le> SIZE
       then r = Ok () \<and> txbuf_contents b' = txbuf_contents b @ src
       else r = Err TxBufFull \<and> b' = b"
      using txbuf_push_refines [OF Cons.prems(1), of src] by blast
    have "taken s @ txbuf_contents b' = (case r of Inl _ \<Rightarrow> acc | Inr _ \<Rightarrow> acc @ src)"
      using p(3) Cons.prems(2) by (auto split: if_splits)
    from Cons.IH [OF p(2) this] show ?thesis by (simp add: Push p(1))
  next
    case Flush
    obtain b' s' r where f: "txbuf_flush_to sink_write b s = Some (Done (b', s', r))" "txbuf_inv b'"
      "taken s' @ txbuf_contents b' = taken s @ txbuf_contents b"
      using flush_to_correct [OF Cons.prems(1), of s] by blast
    have "taken s' @ txbuf_contents b' = acc" using f(3) Cons.prems(2) by simp
    from Cons.IH [OF f(2) this] show ?thesis by (simp add: Flush f(1))
  qed
qed

end

text \<open>
  A scripted sink: it answers each write with the next entry of its script, an error or the most
  bytes it takes, and with an error once the script is over.
\<close>

record script_sink =
  ss_taken :: "u8 list"
  ss_script :: "nat option list"

fun script_write :: "script_sink \<Rightarrow> u8 list \<Rightarrow> script_sink \<times> (unit + nat)" where
  "script_write s buf =
     (case ss_script s of
        [] \<Rightarrow> (s, Inl ())
      | None # rest \<Rightarrow> (s\<lparr>ss_script := rest\<rparr>, Inl ())
      | Some n # rest \<Rightarrow>
          (let k = min n (length buf)
           in (s\<lparr>ss_taken := ss_taken s @ take k buf, ss_script := rest\<rparr>, Inr k)))"

interpretation script: byte_sink script_write ss_taken
  by unfold_locales (auto simp: Let_def split: list.splits option.splits)

section \<open>Properties\<close>

text \<open>
  (C9) The vsock transmit buffer is a queue of bytes: whatever the pushes and flushes, starting from
  an empty buffer, and for any sink that keeps the contract of \<open>Write\<close>, every operation returns
  without a panic, and what the sink has taken followed by what the buffer holds is exactly the
  accepted data in order, across the wrap-around of the ring and of its 32-bit offsets.
\<close>

theorem txbuf_stream:
  assumes "byte_sink w taken" and "taken s = []"
  shows "\<exists>b' s' acc. tx_steps w ops (txbuf_new, s, []) = Some (Done (b', s', acc))
    \<and> taken s' @ txbuf_contents b' = acc \<and> length (txbuf_contents b') \<le> SIZE"
proof -
  obtain b' s' acc where "tx_steps w ops (txbuf_new, s, []) = Some (Done (b', s', acc))"
    "txbuf_inv b'" "taken s' @ txbuf_contents b' = acc"
    using byte_sink.stream [OF assms(1) txbuf_inv_new(1), of s "[]" ops] assms(2)
    by (auto simp: txbuf_inv_new(2))
  moreover from this have "length (txbuf_contents b') \<le> SIZE"
    by (simp add: length_contents) (simp add: txbuf_inv_def)
  ultimately show ?thesis by blast
qed

theorem txbuf_stream_witness:
  "\<exists>b' s' acc.
     tx_steps script_write [Push [1, 2, 3], Flush, Push [4], Flush]
       (txbuf_new, \<lparr>ss_taken = [], ss_script = [Some 2]\<rparr>, []) = Some (Done (b', s', acc))
     \<and> ss_taken s' @ txbuf_contents b' = acc"
  using txbuf_stream [OF script.byte_sink_axioms,
      of "\<lparr>ss_taken = [], ss_script = [Some 2]\<rparr>" "[Push [1, 2, 3], Flush, Push [4], Flush]"]
  by auto

text \<open>
  (C25) Flushing to a sink returns, and either moves a prefix of the contents to the sink and counts
  it, leaving the rest in order, or reports the error of the sink with the buffer unchanged.
\<close>

theorem txbuf_flush_correct:
  assumes "byte_sink w taken" and "txbuf_inv b"
  shows "\<exists>b' s' r. txbuf_flush_to w b s = Some (Done (b', s', r)) \<and> txbuf_inv b'
     \<and> (case r of
          Inl e \<Rightarrow> b' = b \<and> taken s' = taken s
        | Inr n \<Rightarrow> n \<le> txbuf_len b \<and> taken s' = taken s @ take n (txbuf_contents b)
                    \<and> txbuf_contents b' = drop n (txbuf_contents b))"
proof -
  obtain b' s' r where f: "txbuf_flush_to w b s = Some (Done (b', s', r))" "txbuf_inv b'"
    "taken s' @ txbuf_contents b' = taken s @ txbuf_contents b"
    "case r of Inl e \<Rightarrow> b' = b | Inr n \<Rightarrow> txbuf_len b = n + txbuf_len b'"
    using byte_sink.flush_to_correct [OF assms] by blast
  show ?thesis
  proof (cases r)
    case (Inl e)
    then show ?thesis using f by auto
  next
    case (Inr n)
    then have "length (txbuf_contents b) = n + length (txbuf_contents b')"
      using f(2,4) assms(2) by (simp add: length_contents)
    then have "taken s' = taken s @ take n (txbuf_contents b)"
      "txbuf_contents b' = drop n (txbuf_contents b)"
      using append_eq_split [OF f(3)] by simp_all
    then show ?thesis using Inr f(1,2,4) by simp
  qed
qed

theorem txbuf_flush_correct_witness:
  "\<exists>b' s' r. txbuf_flush_to script_write txbuf_new \<lparr>ss_taken = [], ss_script = []\<rparr>
             = Some (Done (b', s', r)) \<and> txbuf_inv b'"
  using txbuf_flush_correct [OF script.byte_sink_axioms txbuf_inv_new(1)] by blast

end
