(* ===== verification/VsockPacket.thy ===== *)
theory VsockPacket
  imports QueueFrame
begin

text \<open>
  Vsock packets over descriptor chains (\<open>devices/src/virtio/vsock/packet.rs\<close>): the header as a
  record and its packed layout, the checks that make a packet out of a chain, and the access to the
  data of a packet.
\<close>

section \<open>Errors and headers\<close>

text \<open>
  \<open>'ge\<close> is the \<open>GuestMemoryError\<close> of the crate, \<open>'io\<close> is \<open>std::io::Error\<close>. The errors of restoring a
  snapshot and of opening the host socket are not raised by the modelled code and are left out.
\<close>

datatype ('ge, 'io) VsockError =
  BufDescTooSmall | BufDescMissing | EmptyQueue | EventFdError 'io | GuestMemoryMmap 'ge
  | GuestMemoryBounds | HdrDescTooSmall u32 | InvalidPktLen u32 | NoData | PktBufMissing | UnreadableDescriptor
  | UnwritableDescriptor

record VsockPacketHeader =
  vh_src_cid :: u64
  vh_dst_cid :: u64
  vh_src_port :: u32
  vh_dst_port :: u32
  vh_len :: u32
  vh_type :: u16
  vh_op :: u16
  vh_flags :: u32
  vh_buf_alloc :: u32
  vh_fwd_cnt :: u32

definition VSOCK_PKT_HDR_SIZE :: nat where "VSOCK_PKT_HDR_SIZE = 44"
definition MAX_PKT_BUF_SIZE :: nat where "MAX_PKT_BUF_SIZE = 64 * 1024"

definition header_default :: VsockPacketHeader where
  "header_default =
     \<lparr>vh_src_cid = 0, vh_dst_cid = 0, vh_src_port = 0, vh_dst_port = 0, vh_len = 0, vh_type = 0,
      vh_op = 0, vh_flags = 0, vh_buf_alloc = 0, vh_fwd_cnt = 0\<rparr>"

text \<open>The packed layout.\<close>

definition header_bytes :: "VsockPacketHeader \<Rightarrow> u8 list" where
  "header_bytes h =
     le_bytes 8 (vh_src_cid h) @ le_bytes 8 (vh_dst_cid h) @ le_bytes 4 (vh_src_port h)
     @ le_bytes 4 (vh_dst_port h) @ le_bytes 4 (vh_len h) @ le_bytes 2 (vh_type h)
     @ le_bytes 2 (vh_op h) @ le_bytes 4 (vh_flags h) @ le_bytes 4 (vh_buf_alloc h)
     @ le_bytes 4 (vh_fwd_cnt h)"

definition header_of_bytes :: "u8 list \<Rightarrow> VsockPacketHeader" where
  "header_of_bytes bs =
     \<lparr>vh_src_cid = le_word (slice bs 0 8), vh_dst_cid = le_word (slice bs 8 8),
      vh_src_port = le_word (slice bs 16 4), vh_dst_port = le_word (slice bs 20 4),
      vh_len = le_word (slice bs 24 4), vh_type = le_word (slice bs 28 2),
      vh_op = le_word (slice bs 30 2), vh_flags = le_word (slice bs 32 4),
      vh_buf_alloc = le_word (slice bs 36 4), vh_fwd_cnt = le_word (slice bs 40 4)\<rparr>"

section \<open>Packets\<close>

record VsockPacket =
  hdr_addr :: u64
  hdr :: VsockPacketHeader
  buf_addr :: "u64 option"
  buf_size :: nat

text \<open>
  Two more operations of the guest memory: whether a range is in memory, and the region (its start
  and its length) an address lies in.
\<close>

record 'm RegionOps =
  check_range :: "'m \<Rightarrow> u64 \<Rightarrow> nat \<Rightarrow> bool"
  region_at :: "'m \<Rightarrow> u64 \<Rightarrow> (u64 \<times> u64) option"

definition pkt_len :: "VsockPacket \<Rightarrow> u32" where "pkt_len p = vh_len (hdr p)"
definition pkt_op :: "VsockPacket \<Rightarrow> u16" where "pkt_op p = vh_op (hdr p)"
definition pkt_flags :: "VsockPacket \<Rightarrow> u32" where "pkt_flags p = vh_flags (hdr p)"
definition pkt_src_cid :: "VsockPacket \<Rightarrow> u64" where "pkt_src_cid p = vh_src_cid (hdr p)"
definition pkt_dst_cid :: "VsockPacket \<Rightarrow> u64" where "pkt_dst_cid p = vh_dst_cid (hdr p)"
definition pkt_src_port :: "VsockPacket \<Rightarrow> u32" where "pkt_src_port p = vh_src_port (hdr p)"
definition pkt_dst_port :: "VsockPacket \<Rightarrow> u32" where "pkt_dst_port p = vh_dst_port (hdr p)"
definition pkt_type :: "VsockPacket \<Rightarrow> u16" where "pkt_type p = vh_type (hdr p)"
definition pkt_buf_alloc :: "VsockPacket \<Rightarrow> u32" where "pkt_buf_alloc p = vh_buf_alloc (hdr p)"
definition pkt_fwd_cnt :: "VsockPacket \<Rightarrow> u32" where "pkt_fwd_cnt p = vh_fwd_cnt (hdr p)"

definition set_src_cid :: "u64 \<Rightarrow> VsockPacket \<Rightarrow> VsockPacket" where
  "set_src_cid v p = p\<lparr>hdr := (hdr p)\<lparr>vh_src_cid := v\<rparr>\<rparr>"
definition set_dst_cid :: "u64 \<Rightarrow> VsockPacket \<Rightarrow> VsockPacket" where
  "set_dst_cid v p = p\<lparr>hdr := (hdr p)\<lparr>vh_dst_cid := v\<rparr>\<rparr>"
definition set_src_port :: "u32 \<Rightarrow> VsockPacket \<Rightarrow> VsockPacket" where
  "set_src_port v p = p\<lparr>hdr := (hdr p)\<lparr>vh_src_port := v\<rparr>\<rparr>"
definition set_dst_port :: "u32 \<Rightarrow> VsockPacket \<Rightarrow> VsockPacket" where
  "set_dst_port v p = p\<lparr>hdr := (hdr p)\<lparr>vh_dst_port := v\<rparr>\<rparr>"
definition set_len :: "u32 \<Rightarrow> VsockPacket \<Rightarrow> VsockPacket" where
  "set_len v p = p\<lparr>hdr := (hdr p)\<lparr>vh_len := v\<rparr>\<rparr>"
definition set_type :: "u16 \<Rightarrow> VsockPacket \<Rightarrow> VsockPacket" where
  "set_type v p = p\<lparr>hdr := (hdr p)\<lparr>vh_type := v\<rparr>\<rparr>"
definition set_op :: "u16 \<Rightarrow> VsockPacket \<Rightarrow> VsockPacket" where
  "set_op v p = p\<lparr>hdr := (hdr p)\<lparr>vh_op := v\<rparr>\<rparr>"
definition set_flags :: "u32 \<Rightarrow> VsockPacket \<Rightarrow> VsockPacket" where
  "set_flags v p = p\<lparr>hdr := (hdr p)\<lparr>vh_flags := v\<rparr>\<rparr>"
definition set_flag :: "u32 \<Rightarrow> VsockPacket \<Rightarrow> VsockPacket" where
  "set_flag v p = set_flags (pkt_flags p OR v) p"
definition set_buf_alloc :: "u32 \<Rightarrow> VsockPacket \<Rightarrow> VsockPacket" where
  "set_buf_alloc v p = p\<lparr>hdr := (hdr p)\<lparr>vh_buf_alloc := v\<rparr>\<rparr>"
definition set_fwd_cnt :: "u32 \<Rightarrow> VsockPacket \<Rightarrow> VsockPacket" where
  "set_fwd_cnt v p = p\<lparr>hdr := (hdr p)\<lparr>vh_fwd_cnt := v\<rparr>\<rparr>"

lemmas pkt_defs =
  pkt_len_def pkt_op_def pkt_flags_def pkt_src_cid_def pkt_dst_cid_def pkt_src_port_def
  pkt_dst_port_def pkt_type_def pkt_buf_alloc_def pkt_fwd_cnt_def set_src_cid_def set_dst_cid_def
  set_src_port_def set_dst_port_def set_len_def set_type_def set_op_def set_flags_def set_flag_def
  set_buf_alloc_def set_fwd_cnt_def

definition check_desc_write_only :: "DescriptorChain \<Rightarrow> bool \<Rightarrow> ('ge, 'io) VsockError + unit" where
  "check_desc_write_only desc expected_write_only =
     (if is_write_only desc \<noteq> expected_write_only
      then Err (if is_write_only desc then UnreadableDescriptor else UnwritableDescriptor)
      else Ok ())"

definition check_hdr_desc :: "'m RegionOps \<Rightarrow> 'm \<Rightarrow> DescriptorChain \<Rightarrow> bool \<Rightarrow> ('ge, 'io) VsockError + unit" where
  "check_hdr_desc R m hdr_desc expected_write_only =
     rbind (check_desc_write_only hdr_desc expected_write_only) (\<lambda>_.
       if \<not> check_range R m (dc_addr hdr_desc) VSOCK_PKT_HDR_SIZE then Err GuestMemoryBounds
       else if dc_len hdr_desc < of_nat VSOCK_PKT_HDR_SIZE then Err (HdrDescTooSmall (dc_len hdr_desc))
       else Ok ())"

definition init_buf ::
  "('m, 'ge) GuestMemory \<Rightarrow> 'm RegionOps \<Rightarrow> 'm \<Rightarrow> VsockPacket \<Rightarrow> DescriptorChain \<Rightarrow> bool \<Rightarrow>
   ('ge, 'io) VsockError + VsockPacket" where
  "init_buf G R m p hdr_desc expected_write_only =
     rbind (ok_or (next_descriptor G m hdr_desc) BufDescMissing) (\<lambda>buf_desc.
     rbind (check_desc_write_only buf_desc expected_write_only) (\<lambda>_.
       if \<not> check_range R m (dc_addr buf_desc) (unat (dc_len buf_desc)) then Err GuestMemoryBounds
       else Ok (p\<lparr>buf_addr := Some (dc_addr buf_desc), buf_size := unat (dc_len buf_desc)\<rparr>)))"

definition check_len :: "VsockPacket \<Rightarrow> ('ge, 'io) VsockError + unit" where
  "check_len p = (if pkt_len p > of_nat MAX_PKT_BUF_SIZE then Err (InvalidPktLen (pkt_len p)) else Ok ())"

definition from_tx_virtq_head ::
  "('m, 'ge) GuestMemory \<Rightarrow> 'm RegionOps \<Rightarrow> 'm \<Rightarrow> DescriptorChain \<Rightarrow> ('ge, 'io) VsockError + VsockPacket" where
  "from_tx_virtq_head G R m hdr_desc =
     rbind (check_hdr_desc R m hdr_desc False) (\<lambda>_.
       if \<not> check_range R m (dc_addr hdr_desc) VSOCK_PKT_HDR_SIZE then Err GuestMemoryBounds
       else rbind (map_sum GuestMemoryMmap id (gm_read G m (dc_addr hdr_desc) VSOCK_PKT_HDR_SIZE)) (\<lambda>bs.
         let p = \<lparr>hdr_addr = dc_addr hdr_desc, hdr = header_of_bytes bs, buf_addr = None, buf_size = 0\<rparr>
         in if pkt_len p = 0 then Ok p
            else rbind (check_len p) (\<lambda>_.
                 rbind (init_buf G R m p hdr_desc False) (\<lambda>p.
                   if buf_size p < unat (pkt_len p) then Err BufDescTooSmall else Ok p))))"

definition from_rx_virtq_head ::
  "('m, 'ge) GuestMemory \<Rightarrow> 'm RegionOps \<Rightarrow> 'm \<Rightarrow> DescriptorChain \<Rightarrow> ('ge, 'io) VsockError + VsockPacket" where
  "from_rx_virtq_head G R m hdr_desc =
     rbind (check_hdr_desc R m hdr_desc True) (\<lambda>_.
       init_buf G R m
         \<lparr>hdr_addr = dc_addr hdr_desc, hdr = header_default, buf_addr = None, buf_size = 0\<rparr> hdr_desc True)"

definition commit_hdr :: "('m, 'ge) GuestMemory \<Rightarrow> VsockPacket \<Rightarrow> 'm \<Rightarrow> 'm \<times> (('ge, 'io) VsockError + unit)" where
  "commit_hdr G p m =
     (case check_len p of
        Inl e \<Rightarrow> (m, Err e)
      | Inr _ \<Rightarrow>
          (case gm_write G m (hdr_addr p) (header_bytes (hdr p)) of
             (m, r) \<Rightarrow> (m, map_sum GuestMemoryMmap id r)))"

text \<open>The address of a slice of the data, which has to lie in one region and in the buffer.\<close>

definition buf_region_addr ::
  "'m RegionOps \<Rightarrow> 'm \<Rightarrow> VsockPacket \<Rightarrow> nat \<Rightarrow> nat \<Rightarrow> ('ge, 'io) VsockError + u64" where
  "buf_region_addr R m p offset count =
     rbind (ok_or (Option.bind (checked_nat_sub (buf_size p) offset)
              (\<lambda>remaining_size. checked_nat_sub remaining_size count)) GuestMemoryBounds) (\<lambda>_.
     rbind (ok_or (buf_addr p) PktBufMissing) (\<lambda>addr.
       ok_or (Option.bind (checked_add addr (of_nat offset)) (\<lambda>offset_addr.
              Option.bind (region_at R m offset_addr) (\<lambda>(start, len).
              Option.bind (checked_nat_sub count 1) (\<lambda>c.
                if unat (offset_addr - start) + c < unat len then Some offset_addr else None))))
         GuestMemoryBounds))"

section \<open>The contract of the two operations\<close>

locale region_memory = guest_memory G mem_byte
  for G :: "('m, 'ge) GuestMemory" and mem_byte :: "'m \<Rightarrow> u64 \<Rightarrow> u8" +
  fixes R :: "'m RegionOps"
  assumes check_range: "0 < n \<Longrightarrow> check_range R m a n = mapped G m a n"
    and region_mapped: "region_at R m a = Some (start, len) \<Longrightarrow> mapped G m start (unat len)"
begin

text \<open>A slice of a packet that has an address is in memory.\<close>

lemma buf_region_mapped:
  assumes "buf_region_addr R m p offset count = Ok a"
  shows "offset + count \<le> buf_size p" "mapped G m a count" "\<exists>b. buf_addr p = Some b \<and> a = b + of_nat offset"
proof -
  obtain b start len where b: "offset + count \<le> buf_size p" "0 < count" "buf_addr p = Some b"
    "checked_add b (of_nat offset) = Some a" "region_at R m a = Some (start, len)"
    "unat (a - start) + (count - 1) < unat len"
    using assms
    by (auto simp: buf_region_addr_def exec_simps bind_eq_Some_conv checked_nat_sub_def split: if_split_asm)
  have "mapped G m (start + of_nat (unat (a - start))) count"
    using b(2,6) by (intro mapped_part [OF region_mapped [OF b(5)]]) simp
  then show "mapped G m a count" by simp
  show "offset + count \<le> buf_size p" by (rule b(1))
  have "a = b + of_nat offset" using b(4) by (auto simp: checked_add_def split: if_split_asm)
  then show "\<exists>b. buf_addr p = Some b \<and> a = b + of_nat offset" using b(3) by blast
qed

end

lemma header_roundtrip: "header_of_bytes (header_bytes h) = h"
  by (simp add: header_of_bytes_def header_bytes_def slice_def le_word_le_bytes)

lemma length_header_bytes: "length (header_bytes h) = VSOCK_PKT_HDR_SIZE"
  by (simp add: header_bytes_def VSOCK_PKT_HDR_SIZE_def)

context region_memory
begin

lemma tx_packet_in_memory:
  assumes "from_tx_virtq_head G R m desc = Ok p"
  shows "\<not> is_write_only desc \<and> mapped G m (hdr_addr p) VSOCK_PKT_HDR_SIZE
    \<and> hdr p = header_of_bytes (map (\<lambda>i. mem_byte m (dc_addr desc + of_nat i)) [0..<VSOCK_PKT_HDR_SIZE])
    \<and> unat (pkt_len p) \<le> MAX_PKT_BUF_SIZE \<and> unat (pkt_len p) \<le> buf_size p
    \<and> (pkt_len p = 0 \<or> (\<exists>a. buf_addr p = Some a \<and> mapped G m a (unat (pkt_len p))))"
proof -
  have pos: "0 < VSOCK_PKT_HDR_SIZE" by (simp add: VSOCK_PKT_HDR_SIZE_def)
  have h: "\<not> is_write_only desc" "mapped G m (dc_addr desc) VSOCK_PKT_HDR_SIZE"
    using assms check_range [OF pos]
    by (auto simp: from_tx_virtq_head_def check_hdr_desc_def check_desc_write_only_def exec_simps
        split: if_split_asm)
  let ?bs = "map (\<lambda>i. mem_byte m (dc_addr desc + of_nat i)) [0..<VSOCK_PKT_HDR_SIZE]"
  let ?p = "\<lparr>hdr_addr = dc_addr desc, hdr = header_of_bytes ?bs, buf_addr = None, buf_size = 0\<rparr>"
  have rd: "gm_read G m (dc_addr desc) VSOCK_PKT_HDR_SIZE = Ok ?bs" using read_Ok [OF pos h(2)] .
  consider "p = ?p" "pkt_len ?p = 0"
    | a n where "p = ?p\<lparr>buf_addr := Some a, buf_size := n\<rparr>" "check_range R m a n"
        "\<not> pkt_len ?p > of_nat MAX_PKT_BUF_SIZE" "\<not> n < unat (pkt_len p)" "pkt_len p \<noteq> 0"
    using assms
    by (auto simp: from_tx_virtq_head_def rd init_buf_def check_len_def exec_simps Let_def pkt_defs split: if_split_asm)
  then show ?thesis
  proof cases
    case 1
    then show ?thesis using h by simp
  next
    case (2 a n)
    have "0 < n" using 2(4,5) by (auto simp: word_neq_0_conv word_less_nat_alt)
    then have "mapped G m a n" using 2(2) check_range by simp
    then have "mapped G m a (unat (pkt_len p))" using mapped_part [of G m a n 0] 2(4) by simp
    moreover have "unat (pkt_len p) \<le> MAX_PKT_BUF_SIZE"
      using 2(1,3) by (simp add: word_less_nat_alt pkt_defs MAX_PKT_BUF_SIZE_def)
    ultimately show ?thesis using 2 h by simp
  qed
qed

lemma commit_hdr_Ok:
  assumes "mapped G m (hdr_addr p) VSOCK_PKT_HDR_SIZE" and "unat (pkt_len p) \<le> MAX_PKT_BUF_SIZE"
  shows "\<exists>m'. commit_hdr G p m = (m', Ok () :: ('ge, 'io) VsockError + unit)
    \<and> header_of_bytes (map (\<lambda>i. mem_byte m' (hdr_addr p + of_nat i)) [0..<VSOCK_PKT_HDR_SIZE]) = hdr p"
proof -
  have "0 < length (header_bytes (hdr p))" by (simp add: length_header_bytes VSOCK_PKT_HDR_SIZE_def)
  then obtain m' where w: "gm_write G m (hdr_addr p) (header_bytes (hdr p)) = (m', Ok ())"
    "\<forall>i < length (header_bytes (hdr p)). mem_byte m' (hdr_addr p + of_nat i) = header_bytes (hdr p) ! i"
    using write_Ok [of "header_bytes (hdr p)" m "hdr_addr p"] assms(1) by (auto simp: length_header_bytes)
  have "map (\<lambda>i. mem_byte m' (hdr_addr p + of_nat i)) [0..<VSOCK_PKT_HDR_SIZE] = header_bytes (hdr p)"
    using w(2) by (intro nth_equalityI) (simp_all add: length_header_bytes)
  moreover have "check_len p = (Ok () :: ('ge, 'io) VsockError + unit)"
    using assms(2) by (simp add: check_len_def MAX_PKT_BUF_SIZE_def word_less_nat_alt)
  ultimately show ?thesis using w(1) by (simp add: commit_hdr_def header_roundtrip)
qed

end

text \<open>A memory whose first page is one region.\<close>

definition page_regions :: "byte_map RegionOps" where
  "page_regions =
     \<lparr>check_range = bm_mapped,
      region_at = (\<lambda>m a. if bm_mapped m 0 4096 \<and> a < 4096 then Some (0, 4096) else None)\<rparr>"

interpretation pr: region_memory byte_memory bm_byte page_regions
  by unfold_locales (auto simp: page_regions_def bm_mapped_iff split: if_split_asm)

section \<open>Properties\<close>

text \<open>
  (C18) A packet made from a chain of the transmit queue is safe to use: the header is the one the
  driver wrote, the length it states is at most 64 KiB and fits the buffer, and header and data lie
  in guest memory.
\<close>

theorem tx_packet_safe:
  assumes "region_memory G mb R" and "from_tx_virtq_head G R m desc = Ok p"
  shows "\<not> is_write_only desc \<and> mapped G m (hdr_addr p) VSOCK_PKT_HDR_SIZE
    \<and> hdr p = header_of_bytes (map (\<lambda>i. mb m (dc_addr desc + of_nat i)) [0..<VSOCK_PKT_HDR_SIZE])
    \<and> unat (pkt_len p) \<le> MAX_PKT_BUF_SIZE \<and> unat (pkt_len p) \<le> buf_size p
    \<and> (pkt_len p = 0 \<or> (\<exists>a. buf_addr p = Some a \<and> mapped G m a (unat (pkt_len p))))"
  using assms by (rule region_memory.tx_packet_in_memory)

text \<open>A chain of two readable descriptors: a header of an empty stream packet, and four bytes of data.\<close>

definition tx_mem :: byte_map where
  "tx_mem = page_mem [(1, 4), (8, 44), (12, 1), (14, 1), (17, 8), (24, 4), (1048, 4), (1052, 1), (1054, 5)]"

lemma page_read:
  assumes "unat a + n \<le> 4096"
  shows "gm_read byte_memory (page_mem bs) a n =
    Ok (map (\<lambda>i. case map_of bs (a + of_nat i) of None \<Rightarrow> 0 | Some b \<Rightarrow> b) [0..<n])"
proof -
  have "a + of_nat i < 0x8000" if "i < n" for i
    using assms that unat_offset [of a n i] by (simp add: word_less_nat_alt)
  then have "map (\<lambda>i. the (page_mem bs (a + of_nat i))) [0..<n]
    = map (\<lambda>i. case map_of bs (a + of_nat i) of None \<Rightarrow> 0 | Some b \<Rightarrow> b) [0..<n]"
    by (simp add: page_mem_def)
  then show ?thesis using page_mapped [OF assms, of bs] by (simp add: bm_mapped_iff)
qed

lemma tx_mem_chain:
  "checked_new byte_memory tx_mem 0 2 0 = Some
     \<lparr>dc_desc_table = 0, dc_queue_size = 2, dc_ttl = 2, dc_index = 0, dc_addr = 1024, dc_len = 44,
      dc_flags = 1, dc_next = 1\<rparr>"
  "checked_new byte_memory tx_mem 0 2 1 = Some
     \<lparr>dc_desc_table = 0, dc_queue_size = 2, dc_ttl = 2, dc_index = 1, dc_addr = 2048, dc_len = 4,
      dc_flags = 0, dc_next = 0\<rparr>"
  by (simp_all add: checked_new_def tx_mem_def page_read Let_def dc_is_valid_def has_next_def
      Descriptor_from_bytes_def slice_def upt_rec VIRTQ_DESC_F_NEXT_def del: byte_memory_simps(3))
    (simp_all add: page_mem_def word_le_nat_alt)

theorem tx_packet_safe_witness:
  "\<exists>desc p. checked_new byte_memory tx_mem 0 2 0 = Some desc
     \<and> from_tx_virtq_head byte_memory page_regions tx_mem desc = (Ok p :: (_, unit) VsockError + _)
     \<and> pkt_len p = 4 \<and> (\<exists>a. buf_addr p = Some a \<and> mapped byte_memory tx_mem a 4)"
proof -
  let ?d = "\<lparr>dc_desc_table = 0, dc_queue_size = 2, dc_ttl = 2, dc_index = 0, dc_addr = 1024, dc_len = 44,
      dc_flags = 1, dc_next = 1\<rparr>"
  have nxt: "next_descriptor byte_memory tx_mem ?d = Some
    \<lparr>dc_desc_table = 0, dc_queue_size = 2, dc_ttl = 1, dc_index = 1, dc_addr = 2048, dc_len = 4, dc_flags = 0, dc_next = 0\<rparr>"
    by (simp add: next_descriptor_def has_next_def VIRTQ_DESC_F_NEXT_def tx_mem_chain(2) word_less_nat_alt)
  have ranges: "check_range page_regions tx_mem 1024 44" "check_range page_regions tx_mem 2048 4"
    unfolding tx_mem_def page_regions_def by (simp_all add: bm_mapped_iff page_mapped)
  have rd: "gm_read byte_memory tx_mem 1024 44 =
      Ok [0, 0, 0, 0, 0, 0, 0, 0, 0, 0, 0, 0, 0, 0, 0, 0, 0, 0, 0, 0, 0, 0, 0, 0,
          4, 0, 0, 0, 1, 0, 5, 0, 0, 0, 0, 0, 0, 0, 0, 0, 0, 0, 0, 0]"
    unfolding tx_mem_def by (subst page_read) (simp_all add: upt_rec)
  obtain p where p: "from_tx_virtq_head byte_memory page_regions tx_mem ?d = (Ok p :: (_, unit) VsockError + _)" "pkt_len p = 4"
    using ranges
    by (simp add: from_tx_virtq_head_def check_hdr_desc_def check_desc_write_only_def is_write_only_def
        VIRTQ_DESC_F_WRITE_def VSOCK_PKT_HDR_SIZE_def rd init_buf_def nxt ok_or_def check_len_def
        MAX_PKT_BUF_SIZE_def pkt_len_def header_of_bytes_def slice_def Let_def del: byte_memory_simps(3))
  then show ?thesis
    using tx_packet_safe [OF pr.region_memory_axioms p(1)] tx_mem_chain(1) by auto
qed

text \<open>
  (C27) Committing a header writes it to the guest exactly: when the header area is in memory and the
  length is at most 64 KiB, a driver that decodes the area finds the header of the packet.
\<close>

theorem commit_hdr_roundtrip:
  assumes "region_memory G mb R" and "mapped G m (hdr_addr p) VSOCK_PKT_HDR_SIZE"
    and "unat (pkt_len p) \<le> MAX_PKT_BUF_SIZE"
  shows "\<exists>m'. commit_hdr G p m = (m', Ok ())
    \<and> header_of_bytes (map (\<lambda>i. mb m' (hdr_addr p + of_nat i)) [0..<VSOCK_PKT_HDR_SIZE]) = hdr p"
  using assms by (rule region_memory.commit_hdr_Ok)

theorem commit_hdr_roundtrip_witness:
  "\<exists>m'. commit_hdr byte_memory \<lparr>hdr_addr = 1024, hdr = header_default\<lparr>vh_op := 3\<rparr>, buf_addr = None, buf_size = 0\<rparr> tx_mem
      = (m', Ok ())
    \<and> vh_op (header_of_bytes (map (\<lambda>i. bm_byte m' (1024 + of_nat i)) [0..<44])) = 3"
proof -
  have "mapped byte_memory tx_mem 1024 44" unfolding tx_mem_def by (rule page_mapped) simp
  then show ?thesis
    using commit_hdr_roundtrip [OF pr.region_memory_axioms, of tx_mem
        "\<lparr>hdr_addr = 1024, hdr = header_default\<lparr>vh_op := 3\<rparr>, buf_addr = None, buf_size = 0\<rparr>"]
    by (auto simp: VSOCK_PKT_HDR_SIZE_def pkt_len_def header_default_def)
qed

end
