(* ===== verification/VsockConn.thy ===== *)
theory VsockConn
  imports VsockPacket TxBuf "HOL-Library.Sublist"
begin

text \<open>
  The state machine of a vsock connection (\<open>devices/src/virtio/vsock/csm/mod.rs\<close> and
  \<open>csm/connection.rs\<close>): packets for the guest are made from indications and from the data of a host
  stream, packets of the guest feed the stream through the transmit buffer, and both directions are
  under credit-based flow control.

  The host stream and the transfers between guest memory and a stream belong to the standard library
  and to \<open>vm-memory\<close>; they are a parameter, and \<open>host_stream\<close> states what is documented of them. The
  clock is an argument, in milliseconds: an operation reads it once. Metrics and log messages are left
  out.
\<close>

section \<open>Indications\<close>

definition CONN_CREDIT_UPDATE_THRESHOLD :: u32 where "CONN_CREDIT_UPDATE_THRESHOLD = 4 * 1024"
definition CONN_REQUEST_TIMEOUT_MS :: nat where "CONN_REQUEST_TIMEOUT_MS = 2000"
definition CONN_SHUTDOWN_TIMEOUT_MS :: nat where "CONN_SHUTDOWN_TIMEOUT_MS = 2000"

definition VSOCK_OP_REQUEST :: u16 where "VSOCK_OP_REQUEST = 1"
definition VSOCK_OP_RESPONSE :: u16 where "VSOCK_OP_RESPONSE = 2"
definition VSOCK_OP_RST :: u16 where "VSOCK_OP_RST = 3"
definition VSOCK_OP_SHUTDOWN :: u16 where "VSOCK_OP_SHUTDOWN = 4"
definition VSOCK_OP_RW :: u16 where "VSOCK_OP_RW = 5"
definition VSOCK_OP_CREDIT_UPDATE :: u16 where "VSOCK_OP_CREDIT_UPDATE = 6"
definition VSOCK_OP_CREDIT_REQUEST :: u16 where "VSOCK_OP_CREDIT_REQUEST = 7"
definition VSOCK_FLAGS_SHUTDOWN_RCV :: u32 where "VSOCK_FLAGS_SHUTDOWN_RCV = 1"
definition VSOCK_FLAGS_SHUTDOWN_SEND :: u32 where "VSOCK_FLAGS_SHUTDOWN_SEND = 2"
definition VSOCK_TYPE_STREAM :: u16 where "VSOCK_TYPE_STREAM = 1"
definition VSOCK_HOST_CID :: u64 where "VSOCK_HOST_CID = 2"

lemmas vsock_op_defs =
  VSOCK_OP_REQUEST_def VSOCK_OP_RESPONSE_def VSOCK_OP_RST_def VSOCK_OP_SHUTDOWN_def VSOCK_OP_RW_def
  VSOCK_OP_CREDIT_UPDATE_def VSOCK_OP_CREDIT_REQUEST_def

datatype ConnState =
  LocalInit | PeerInit | Established | LocalClosed | PeerClosed bool bool | Killed

datatype PendingRx = Request | Response | Rst | Rw | CreditUpdate

text \<open>\<open>self as u16\<close>\<close>

primrec PendingRx_index :: "PendingRx \<Rightarrow> nat" where
  "PendingRx_index Request = 0"
| "PendingRx_index Response = 1"
| "PendingRx_index Rst = 2"
| "PendingRx_index Rw = 3"
| "PendingRx_index CreditUpdate = 4"

definition into_mask :: "PendingRx \<Rightarrow> u16" where
  "into_mask it = push_bit (PendingRx_index it) 1"

type_synonym PendingRxSet = u16

definition rxset_insert :: "PendingRx \<Rightarrow> PendingRxSet \<Rightarrow> PendingRxSet" where
  "rxset_insert it s = s OR into_mask it"

definition rxset_contains :: "PendingRx \<Rightarrow> PendingRxSet \<Rightarrow> bool" where
  "rxset_contains it s \<longleftrightarrow> s AND into_mask it \<noteq> 0"

definition rxset_remove :: "PendingRx \<Rightarrow> PendingRxSet \<Rightarrow> PendingRxSet \<times> bool" where
  "rxset_remove it s = (s AND NOT (into_mask it), rxset_contains it s)"

definition rxset_is_empty :: "PendingRxSet \<Rightarrow> bool" where
  "rxset_is_empty s \<longleftrightarrow> s = 0"

definition rxset_from :: "PendingRx \<Rightarrow> PendingRxSet" where
  "rxset_from it = into_mask it"

text \<open>A set of indications as its clients see it.\<close>

locale indication_set =
  fixes ins :: "'i \<Rightarrow> 's \<Rightarrow> 's" and rem :: "'i \<Rightarrow> 's \<Rightarrow> 's \<times> bool" and has :: "'i \<Rightarrow> 's \<Rightarrow> bool"
    and isempty :: "'s \<Rightarrow> bool" and single :: "'i \<Rightarrow> 's" and abs :: "'s \<Rightarrow> 'i set" and inv :: "'s \<Rightarrow> bool"
  assumes abs_ins: "abs (ins i s) = insert i (abs s)"
    and abs_rem: "rem i s = (s', b) \<Longrightarrow> abs s' = abs s - {i} \<and> (b \<longleftrightarrow> i \<in> abs s)"
    and abs_has: "has i s \<longleftrightarrow> i \<in> abs s"
    and abs_empty: "inv s \<Longrightarrow> isempty s \<longleftrightarrow> abs s = {}"
    and abs_single: "abs (single i) = {i}"
    and inv_single: "inv (single i)"
    and inv_ins: "inv s \<Longrightarrow> inv (ins i s)"
    and inv_rem: "inv s \<Longrightarrow> rem i s = (s', b) \<Longrightarrow> inv s'"
begin

lemma not_empty_ins: "inv s \<Longrightarrow> \<not> isempty (ins i s)"
  using abs_empty [OF inv_ins] by (simp add: abs_ins)

end

definition rxset_abs :: "PendingRxSet \<Rightarrow> PendingRx set" where
  "rxset_abs s = {it. bit s (PendingRx_index it)}"

text \<open>Only the bits of the five indications are ever set.\<close>

definition rxset_inv :: "PendingRxSet \<Rightarrow> bool" where
  "rxset_inv s \<longleftrightarrow> s < 32"

lemma PendingRx_index_less: "PendingRx_index it < 5"
  by (cases it) simp_all

lemma PendingRx_index_less_16 [simp]: "PendingRx_index it < 16"
  using PendingRx_index_less [of it] by simp

lemma PendingRx_index_inj: "PendingRx_index a = PendingRx_index b \<longleftrightarrow> a = b"
  by (cases a; cases b) simp_all

lemma PendingRx_index_surj: "n < 5 \<Longrightarrow> \<exists>it. PendingRx_index it = n"
proof -
  assume "n < 5"
  then consider "n = 0" | "n = 1" | "n = 2" | "n = 3" | "n = 4" by linarith
  then show ?thesis
    by cases (metis PendingRx_index.simps)+
qed

lemma bit_into_mask: "bit (into_mask it) n \<longleftrightarrow> n = PendingRx_index it"
  using PendingRx_index_less [of it] by (auto simp: into_mask_def bit_simps)

lemma u16_zero_bits: "(w :: u16) = 0 \<longleftrightarrow> (\<forall>n. \<not> bit w n)"
  by (auto intro: bit_word_eqI)

lemma rxset_inv_iff: "rxset_inv s \<longleftrightarrow> (\<forall>n. bit s n \<longrightarrow> n < 5)"
proof -
  have "rxset_inv s \<longleftrightarrow> take_bit 5 s = s"
    by (simp add: rxset_inv_def word_less_nat_alt take_bit_eq_mod word_unat_eq_iff unat_mod)
      (metis mod_less mod_less_divisor zero_less_numeral)
  also have "\<dots> \<longleftrightarrow> (\<forall>n. bit s n \<longrightarrow> n < 5)"
    by (metis bit_take_bit_iff bit_word_eqI)
  finally show ?thesis .
qed

interpretation rxset: indication_set rxset_insert rxset_remove rxset_contains rxset_is_empty rxset_from
  rxset_abs rxset_inv
proof
  fix i :: PendingRx and s s' b
  show "rxset_abs (rxset_insert i s) = insert i (rxset_abs s)"
    by (auto simp: rxset_abs_def rxset_insert_def bit_or_iff bit_into_mask PendingRx_index_inj)
  have has: "rxset_contains i s \<longleftrightarrow> i \<in> rxset_abs s" for i s
    by (auto simp: rxset_abs_def rxset_contains_def u16_zero_bits bit_and_iff bit_into_mask)
  then show "rxset_contains i s \<longleftrightarrow> i \<in> rxset_abs s" .
  show "rxset_remove i s = (s', b) \<Longrightarrow> rxset_abs s' = rxset_abs s - {i} \<and> (b \<longleftrightarrow> i \<in> rxset_abs s)"
    using has [of i s]
    by (auto simp: rxset_abs_def rxset_remove_def bit_and_iff bit_not_iff bit_into_mask PendingRx_index_inj)
  show "rxset_inv s \<Longrightarrow> rxset_is_empty s \<longleftrightarrow> rxset_abs s = {}"
    using PendingRx_index_surj
    by (auto simp: rxset_inv_iff rxset_abs_def rxset_is_empty_def u16_zero_bits)
  show "rxset_abs (rxset_from i) = {i}"
    by (auto simp: rxset_abs_def rxset_from_def bit_into_mask PendingRx_index_inj)
  show "rxset_inv (rxset_from i)"
    using PendingRx_index_less by (simp add: rxset_inv_iff rxset_from_def bit_into_mask)
  show "rxset_inv s \<Longrightarrow> rxset_inv (rxset_insert i s)"
    using PendingRx_index_less by (auto simp: rxset_inv_iff rxset_insert_def bit_or_iff bit_into_mask)
  show "rxset_inv s \<Longrightarrow> rxset_remove i s = (s', b) \<Longrightarrow> rxset_inv s'"
    by (auto simp: rxset_inv_iff rxset_remove_def bit_and_iff)
qed

section \<open>Streams\<close>

text \<open>
  A host stream \<open>'s\<close> and the transfers of \<open>count\<close> bytes of guest memory at an address from a stream,
  to a stream and to a transmit buffer. \<open>io_error\<close> is the \<open>IOError\<close> a memory error wraps, if it does.
\<close>

record ('m, 'ge, 'io, 's) StreamOps =
  stream_write :: "'s \<Rightarrow> u8 list \<Rightarrow> 's \<times> ('io + nat)"
  region_read_from :: "'m \<Rightarrow> u64 \<Rightarrow> 's \<Rightarrow> nat \<Rightarrow> 'm \<times> 's \<times> ('ge + nat)"
  region_write_to :: "'m \<Rightarrow> u64 \<Rightarrow> 's \<Rightarrow> nat \<Rightarrow> 's \<times> ('ge + nat)"
  region_write_to_txbuf :: "'m \<Rightarrow> u64 \<Rightarrow> TxBuf \<Rightarrow> nat \<Rightarrow> (TxBuf \<times> ('ge + nat)) exec"
  io_error :: "'ge \<Rightarrow> 'io option"
  would_block :: "'io \<Rightarrow> bool"

definition read_at_offset_from ::
  "'m RegionOps \<Rightarrow> ('m, 'ge, 'io, 's) StreamOps \<Rightarrow> VsockPacket \<Rightarrow> 'm \<Rightarrow> nat \<Rightarrow> 's \<Rightarrow> nat \<Rightarrow>
   'm \<times> 's \<times> (('ge, 'io) VsockError + nat)" where
  "read_at_offset_from R S p m offset src count =
     (case buf_region_addr R m p offset count of
        Inl e \<Rightarrow> (m, src, Err e)
      | Inr a \<Rightarrow>
          (case region_read_from S m a src count of
             (m, src, r) \<Rightarrow> (m, src, map_sum GuestMemoryMmap id r)))"

definition write_from_offset_to ::
  "'m RegionOps \<Rightarrow> ('m, 'ge, 'io, 's) StreamOps \<Rightarrow> VsockPacket \<Rightarrow> 'm \<Rightarrow> nat \<Rightarrow> 's \<Rightarrow> nat \<Rightarrow>
   's \<times> (('ge, 'io) VsockError + nat)" where
  "write_from_offset_to R S p m offset dst count =
     (case buf_region_addr R m p offset count of
        Inl e \<Rightarrow> (dst, Err e)
      | Inr a \<Rightarrow>
          (case region_write_to S m a dst count of
             (dst, r) \<Rightarrow> (dst, map_sum GuestMemoryMmap id r)))"

text \<open>The same function at the type of a transmit buffer.\<close>

definition write_from_offset_to_txbuf ::
  "'m RegionOps \<Rightarrow> ('m, 'ge, 'io, 's) StreamOps \<Rightarrow> VsockPacket \<Rightarrow> 'm \<Rightarrow> nat \<Rightarrow> TxBuf \<Rightarrow> nat \<Rightarrow>
   (TxBuf \<times> (('ge, 'io) VsockError + nat)) exec" where
  "write_from_offset_to_txbuf R S p m offset dst count =
     (case buf_region_addr R m p offset count of
        Inl e \<Rightarrow> Done (dst, Err e)
      | Inr a \<Rightarrow>
          ebind (region_write_to_txbuf S m a dst count)
            (\<lambda>(dst, r). Done (dst, map_sum GuestMemoryMmap id r)))"

section \<open>Connections\<close>

record 's VsockConnection =
  vc_state :: ConnState
  vc_local_cid :: u64
  vc_peer_cid :: u64
  vc_local_port :: u32
  vc_peer_port :: u32
  vc_stream :: 's
  vc_tx_buf :: TxBuf
  vc_fwd_cnt :: u32
  vc_peer_buf_alloc :: u32
  vc_peer_fwd_cnt :: u32
  vc_rx_cnt :: u32
  vc_last_fwd_cnt_to_peer :: u32
  vc_pending_rx :: PendingRxSet
  vc_expiry :: "nat option"

definition new_peer_init :: "'s \<Rightarrow> u64 \<Rightarrow> u64 \<Rightarrow> u32 \<Rightarrow> u32 \<Rightarrow> u32 \<Rightarrow> 's VsockConnection" where
  "new_peer_init stream local_cid peer_cid local_port peer_port peer_buf_alloc =
     \<lparr>vc_state = PeerInit, vc_local_cid = local_cid, vc_peer_cid = peer_cid,
      vc_local_port = local_port, vc_peer_port = peer_port, vc_stream = stream,
      vc_tx_buf = txbuf_new, vc_fwd_cnt = 0, vc_peer_buf_alloc = peer_buf_alloc, vc_peer_fwd_cnt = 0,
      vc_rx_cnt = 0, vc_last_fwd_cnt_to_peer = 0, vc_pending_rx = rxset_from Response,
      vc_expiry = None\<rparr>"

definition new_local_init :: "'s \<Rightarrow> u64 \<Rightarrow> u64 \<Rightarrow> u32 \<Rightarrow> u32 \<Rightarrow> 's VsockConnection" where
  "new_local_init stream local_cid peer_cid local_port peer_port =
     \<lparr>vc_state = LocalInit, vc_local_cid = local_cid, vc_peer_cid = peer_cid,
      vc_local_port = local_port, vc_peer_port = peer_port, vc_stream = stream,
      vc_tx_buf = txbuf_new, vc_fwd_cnt = 0, vc_peer_buf_alloc = 0, vc_peer_fwd_cnt = 0,
      vc_rx_cnt = 0, vc_last_fwd_cnt_to_peer = 0, vc_pending_rx = rxset_from Request,
      vc_expiry = None\<rparr>"

definition will_expire :: "nat \<Rightarrow> 's VsockConnection \<Rightarrow> bool" where
  "will_expire now c = (case vc_expiry c of None \<Rightarrow> False | Some t \<Rightarrow> now < t)"

definition has_expired :: "nat \<Rightarrow> 's VsockConnection \<Rightarrow> bool" where
  "has_expired now c = (case vc_expiry c of None \<Rightarrow> False | Some t \<Rightarrow> t \<le> now)"

definition vc_insert_rx :: "PendingRx \<Rightarrow> 's VsockConnection \<Rightarrow> 's VsockConnection" where
  "vc_insert_rx it c = c\<lparr>vc_pending_rx := rxset_insert it (vc_pending_rx c)\<rparr>"

definition kill :: "'s VsockConnection \<Rightarrow> 's VsockConnection" where
  "kill c = vc_insert_rx Rst (c\<lparr>vc_state := Killed\<rparr>)"

definition has_pending_rx :: "'s VsockConnection \<Rightarrow> bool" where
  "has_pending_rx c \<longleftrightarrow> \<not> rxset_is_empty (vc_pending_rx c)"

definition peer_avail_credit :: "'s VsockConnection \<Rightarrow> nat" where
  "peer_avail_credit c = unat (vc_peer_buf_alloc c - (vc_rx_cnt c - vc_peer_fwd_cnt c))"

definition need_credit_update_from_peer :: "'s VsockConnection \<Rightarrow> bool" where
  "need_credit_update_from_peer c \<longleftrightarrow> peer_avail_credit c = 0"

definition peer_needs_credit_update :: "'s VsockConnection \<Rightarrow> bool" where
  "peer_needs_credit_update c \<longleftrightarrow>
     CONN_TX_BUF_SIZE - (vc_fwd_cnt c - vc_last_fwd_cnt_to_peer c) < CONN_CREDIT_UPDATE_THRESHOLD"

definition init_pkt :: "'s VsockConnection \<Rightarrow> VsockPacket \<Rightarrow> VsockPacket" where
  "init_pkt c p =
     set_fwd_cnt (vc_fwd_cnt c) (set_buf_alloc CONN_TX_BUF_SIZE (set_type VSOCK_TYPE_STREAM
       (set_dst_port (vc_peer_port c) (set_src_port (vc_local_port c)
         (set_dst_cid (vc_peer_cid c) (set_src_cid (vc_local_cid c) p))))))"

definition send_bytes_raw ::
  "('m, 'ge, 'io, 's) StreamOps \<Rightarrow> u8 list \<Rightarrow> 's VsockConnection \<Rightarrow>
   's VsockConnection \<times> ('io CsmError + nat)" where
  "send_bytes_raw S buf c =
     (case stream_write S (vc_stream c) buf of
        (s, r) \<Rightarrow> (c\<lparr>vc_stream := s\<rparr>, map_sum StreamWrite id r))"

text \<open>An error that only says that the stream would block.\<close>

definition blocked :: "('m, 'ge, 'io, 's) StreamOps \<Rightarrow> ('ge, 'io) VsockError \<Rightarrow> bool" where
  "blocked S e = (case e of
     GuestMemoryMmap ge \<Rightarrow> (case io_error S ge of None \<Rightarrow> False | Some io \<Rightarrow> would_block S io)
   | _ \<Rightarrow> False)"

text \<open>
  A data packet, when one is due; the last component is whether the packet is filled in, which it is
  not when the stream would block.
\<close>

definition recv_rw ::
  "'m RegionOps \<Rightarrow> ('m, 'ge, 'io, 's) StreamOps \<Rightarrow> nat \<Rightarrow> 'm \<Rightarrow> 's VsockConnection \<Rightarrow> VsockPacket \<Rightarrow>
   'm \<times> 's VsockConnection \<times> VsockPacket \<times> bool" where
  "recv_rw R S now m c p =
     (if \<not> (case vc_state c of Established \<Rightarrow> True | PeerClosed recv_off _ \<Rightarrow> \<not> recv_off | _ \<Rightarrow> False)
      then (m, c, set_op VSOCK_OP_RST p, True)
      else if need_credit_update_from_peer c
      then (m, c\<lparr>vc_last_fwd_cnt_to_peer := vc_fwd_cnt c\<rparr>, set_op VSOCK_OP_CREDIT_REQUEST p, True)
      else (case read_at_offset_from R S p m 0 (vc_stream c) (min (buf_size p) (peer_avail_credit c)) of
        (m, s, r) \<Rightarrow>
          let c = c\<lparr>vc_stream := s\<rparr>
          in case r of
               Inr read_cnt \<Rightarrow>
                 let (c, p) =
                   (if read_cnt = 0
                    then (c\<lparr>vc_state := LocalClosed, vc_expiry := Some (now + CONN_SHUTDOWN_TIMEOUT_MS)\<rparr>,
                          set_flag VSOCK_FLAGS_SHUTDOWN_SEND (set_flag VSOCK_FLAGS_SHUTDOWN_RCV
                            (set_op VSOCK_OP_SHUTDOWN p)))
                    else (c, set_len (of_nat read_cnt) (set_op VSOCK_OP_RW p)))
                 in (m, c\<lparr>vc_rx_cnt := vc_rx_cnt c + pkt_len p,
                          vc_last_fwd_cnt_to_peer := vc_fwd_cnt c\<rparr>, p, True)
             | Inl e \<Rightarrow>
                 if blocked S e then (m, c, p, False)
                 else (m, c\<lparr>vc_last_fwd_cnt_to_peer := vc_fwd_cnt c\<rparr>, set_op VSOCK_OP_RST p, True)))"

definition take_rx :: "PendingRx \<Rightarrow> 's VsockConnection \<Rightarrow> 's VsockConnection \<times> bool" where
  "take_rx it c = (case rxset_remove it (vc_pending_rx c) of (s, b) \<Rightarrow> (c\<lparr>vc_pending_rx := s\<rparr>, b))"

definition recv_credit_update ::
  "'m \<Rightarrow> 's VsockConnection \<Rightarrow> VsockPacket \<Rightarrow>
   'm \<times> 's VsockConnection \<times> VsockPacket \<times> (('ge, 'io) VsockError + unit)" where
  "recv_credit_update m c p =
     (case take_rx CreditUpdate c of (c, due) \<Rightarrow>
        if due \<and> \<not> has_pending_rx c
        then (m, c\<lparr>vc_last_fwd_cnt_to_peer := vc_fwd_cnt c\<rparr>, set_op VSOCK_OP_CREDIT_UPDATE p, Ok ())
        else (m, c, p, Err NoData))"

definition conn_recv_pkt ::
  "'m RegionOps \<Rightarrow> ('m, 'ge, 'io, 's) StreamOps \<Rightarrow> nat \<Rightarrow> 'm \<Rightarrow> 's VsockConnection \<Rightarrow> VsockPacket \<Rightarrow>
   'm \<times> 's VsockConnection \<times> VsockPacket \<times> (('ge, 'io) VsockError + unit)" where
  "conn_recv_pkt R S now m c p =
     (let p = init_pkt c p in
      case take_rx Rst c of (c, rst) \<Rightarrow>
      if rst then (m, c, set_op VSOCK_OP_RST p, Ok ())
      else case take_rx Response c of (c, response) \<Rightarrow>
      if response then (m, c\<lparr>vc_state := Established\<rparr>, set_op VSOCK_OP_RESPONSE p, Ok ())
      else case take_rx Request c of (c, request) \<Rightarrow>
      if request
      then (m, c\<lparr>vc_expiry := Some (now + CONN_REQUEST_TIMEOUT_MS)\<rparr>, set_op VSOCK_OP_REQUEST p, Ok ())
      else case take_rx Rw c of (c, rw) \<Rightarrow>
      if rw
      then (case recv_rw R S now m c p of (m, c, p, filled) \<Rightarrow>
              if filled then (m, c, p, Ok ()) else recv_credit_update m c p)
      else recv_credit_update m c p)"

definition send_bytes ::
  "'m RegionOps \<Rightarrow> ('m, 'ge, 'io, 's) StreamOps \<Rightarrow> 'm \<Rightarrow> VsockPacket \<Rightarrow> 's VsockConnection \<Rightarrow>
   ('s VsockConnection \<times> (('ge, 'io) VsockError + unit)) exec" where
  "send_bytes R S m p c =
     (let len = unat (pkt_len p);
          to_txbuf = (\<lambda>c offset.
            ebind (write_from_offset_to_txbuf R S p m offset (vc_tx_buf c) (len - offset))
              (\<lambda>(b, r). Done (c\<lparr>vc_tx_buf := b\<rparr>, map_sum id (\<lambda>_. ()) r)))
      in if \<not> txbuf_is_empty (vc_tx_buf c) then to_txbuf c 0
         else case write_from_offset_to R S p m 0 (vc_stream c) len of
           (s, r) \<Rightarrow>
             let c = c\<lparr>vc_stream := s\<rparr>
             in case (case r of Inr cnt \<Rightarrow> Ok cnt | Inl e \<Rightarrow> if blocked S e then Ok 0 else Err e) of
                  Inl e \<Rightarrow> Done (c, Err e)
                | Inr written \<Rightarrow>
                    let c = c\<lparr>vc_fwd_cnt := vc_fwd_cnt c + of_nat written\<rparr>
                    in if written < len then to_txbuf c written else Done (c, Ok ()))"

text \<open>\<open>Established | PeerClosed(_, false)\<close>: the guest may send data.\<close>

definition may_send :: "ConnState \<Rightarrow> bool" where
  "may_send st = (case st of Established \<Rightarrow> True | PeerClosed _ send_off \<Rightarrow> \<not> send_off | _ \<Rightarrow> False)"

definition shutdown_flags :: "VsockPacket \<Rightarrow> bool \<times> bool" where
  "shutdown_flags p =
     (pkt_flags p AND VSOCK_FLAGS_SHUTDOWN_RCV \<noteq> 0, pkt_flags p AND VSOCK_FLAGS_SHUTDOWN_SEND \<noteq> 0)"

text \<open>The packets that carry no data.\<close>

definition send_control_pkt :: "nat \<Rightarrow> VsockPacket \<Rightarrow> 's VsockConnection \<Rightarrow> 's VsockConnection" where
  "send_control_pkt now p c =
     (let op = pkt_op p in
      case vc_state c of
         LocalInit \<Rightarrow>
           if op = VSOCK_OP_RESPONSE then c\<lparr>vc_expiry := None, vc_state := Established\<rparr> else c
       | Established \<Rightarrow>
           if op = VSOCK_OP_SHUTDOWN then
             (case shutdown_flags p of (recv_off, send_off) \<Rightarrow>
                let c = c\<lparr>vc_state := PeerClosed recv_off send_off\<rparr>
                in if recv_off \<and> send_off
                   then (if txbuf_is_empty (vc_tx_buf c) then vc_insert_rx Rst c
                         else c\<lparr>vc_expiry := Some (now + CONN_SHUTDOWN_TIMEOUT_MS)\<rparr>)
                   else c)
           else if op = VSOCK_OP_CREDIT_REQUEST then vc_insert_rx CreditUpdate c
           else c
       | PeerClosed recv_off send_off \<Rightarrow>
           if op = VSOCK_OP_SHUTDOWN then
             (case shutdown_flags p of (recv, send) \<Rightarrow>
                let recv_off = (recv_off \<or> recv); send_off = (send_off \<or> send);
                    c = c\<lparr>vc_state := PeerClosed recv_off send_off\<rparr>
                in if recv_off \<and> send_off \<and> txbuf_is_empty (vc_tx_buf c) then vc_insert_rx Rst c else c)
           else if op = VSOCK_OP_CREDIT_REQUEST \<and> \<not> send_off then vc_insert_rx CreditUpdate c
           else c
       | PeerInit \<Rightarrow>
           if op = VSOCK_OP_CREDIT_REQUEST then vc_insert_rx CreditUpdate c else c
       | _ \<Rightarrow> c)"

definition conn_send_pkt ::
  "'m RegionOps \<Rightarrow> ('m, 'ge, 'io, 's) StreamOps \<Rightarrow> nat \<Rightarrow> 'm \<Rightarrow> VsockPacket \<Rightarrow> 's VsockConnection \<Rightarrow>
   's VsockConnection exec" where
  "conn_send_pkt R S now m p c =
     (let c = c\<lparr>vc_peer_buf_alloc := pkt_buf_alloc p, vc_peer_fwd_cnt := pkt_fwd_cnt p\<rparr>;
          op = pkt_op p
      in if may_send (vc_state c) \<and> op = VSOCK_OP_RW then
           (if buf_size p = 0 then Done c
            else ebind (send_bytes R S m p c) (\<lambda>(c, r).
              case r of
                Inl _ \<Rightarrow> Done (kill c)
              | Inr _ \<Rightarrow> Done (if peer_needs_credit_update c then vc_insert_rx CreditUpdate c else c)))
         else Done (send_control_pkt now p c))"

section \<open>Events\<close>

text \<open>An \<open>EventSet\<close> holds \<open>epoll\<close> flags.\<close>

type_synonym EventSet = u32

definition EPOLLIN :: EventSet where "EPOLLIN = 1"
definition EPOLLOUT :: EventSet where "EPOLLOUT = 4"

definition evset_contains :: "EventSet \<Rightarrow> EventSet \<Rightarrow> bool" where
  "evset_contains s f \<longleftrightarrow> s AND f = f"

definition conn_get_polled_evset :: "'s VsockConnection \<Rightarrow> EventSet" where
  "conn_get_polled_evset c =
     (let evset = (if \<not> txbuf_is_empty (vc_tx_buf c) then EPOLLOUT else 0)
      in if (case vc_state c of Killed \<Rightarrow> True | LocalClosed \<Rightarrow> True | PeerClosed recv_off _ \<Rightarrow> recv_off | _ \<Rightarrow> False)
            \<or> need_credit_update_from_peer c
         then evset else evset OR EPOLLIN)"

definition conn_notify ::
  "('m, 'ge, 'io, 's) StreamOps \<Rightarrow> EventSet \<Rightarrow> 's VsockConnection \<Rightarrow> 's VsockConnection exec option" where
  "conn_notify S evset c =
     (let c = (if evset_contains evset EPOLLIN then vc_insert_rx Rw c else c)
      in if \<not> evset_contains evset EPOLLOUT \<or> txbuf_is_empty (vc_tx_buf c) then Some (Done c)
         else Option.bind (txbuf_flush_to (stream_write S) (vc_tx_buf c) (vc_stream c)) (\<lambda>x.
           Some (ebind x (\<lambda>(b, s, r).
             let c = c\<lparr>vc_tx_buf := b, vc_stream := s\<rparr>;
                 (c, flushed) = (case r of
                     Inr n \<Rightarrow> (c, n)
                   | Inl e \<Rightarrow> (if (case e of TxBufFlush io \<Rightarrow> would_block S io | _ \<Rightarrow> False) then c else kill c, 0));
                 c = c\<lparr>vc_fwd_cnt := vc_fwd_cnt c + of_nat flushed\<rparr>
             in Done (if vc_state c = PeerClosed True True \<and> txbuf_is_empty (vc_tx_buf c) then vc_insert_rx Rst c
                      else if peer_needs_credit_update c then vc_insert_rx CreditUpdate c
                      else c)))))"

section \<open>The contract of a host stream\<close>

definition mem_bytes :: "('m \<Rightarrow> u64 \<Rightarrow> u8) \<Rightarrow> 'm \<Rightarrow> u64 \<Rightarrow> nat \<Rightarrow> u8 list" where
  "mem_bytes mb m a n = map (\<lambda>i. mb m (a + of_nat i)) [0..<n]"

lemma length_mem_bytes [simp]: "length (mem_bytes mb m a n) = n"
  by (simp add: mem_bytes_def)

lemma drop_mem_bytes: "k \<le> n \<Longrightarrow> drop k (mem_bytes mb m a n) = mem_bytes mb m (a + of_nat k) (n - k)"
  by (intro nth_equalityI) (simp_all add: mem_bytes_def less_diff_conv add.commute add.left_commute)

text \<open>
  A transfer to a sink hands the bytes of the memory to one \<open>write\<close> and wraps its error; a transfer
  from a stream is one \<open>read\<close> into the area: it fills at most \<open>count\<close> bytes of it and nothing else,
  and takes nothing from what was written to the stream.
\<close>

locale host_stream =
  region_memory G mem_byte R + sink: byte_sink "stream_write S" taken
  for G :: "('m, 'ge) GuestMemory" and mem_byte :: "'m \<Rightarrow> u64 \<Rightarrow> u8" and R :: "'m RegionOps"
    and S :: "('m, 'ge, 'io, 's) StreamOps" and taken :: "'s \<Rightarrow> u8 list" +
  assumes to_stream_Ok: "mapped G m a n \<Longrightarrow> stream_write S s (mem_bytes mem_byte m a n) = (s', Inr k) \<Longrightarrow>
      region_write_to S m a s n = (s', Inr k)"
    and to_stream_Err: "mapped G m a n \<Longrightarrow> stream_write S s (mem_bytes mem_byte m a n) = (s', Inl io) \<Longrightarrow>
      \<exists>e. region_write_to S m a s n = (s', Inl e) \<and> io_error S e = Some io"
    and to_txbuf_Ok: "mapped G m a n \<Longrightarrow>
      txbuf_write b (mem_bytes mem_byte m a n) = Done (b', Inr k :: 'io CsmError + nat) \<Longrightarrow>
      region_write_to_txbuf S m a b n = Done (b', Inr k)"
    and to_txbuf_Err: "mapped G m a n \<Longrightarrow>
      txbuf_write b (mem_bytes mem_byte m a n) = Done (b', Inl ce :: 'io CsmError + nat) \<Longrightarrow>
      \<exists>e. region_write_to_txbuf S m a b n = Done (b', Inl e)"
    and from_stream: "mapped G m a n \<Longrightarrow> region_read_from S m a s n = (m', s', r) \<Longrightarrow>
      taken s' = taken s \<and> (case r of Inl _ \<Rightarrow> True | Inr k \<Rightarrow> k \<le> n)
      \<and> (\<forall>x. address_in_range G m' x = address_in_range G m x)
      \<and> (\<forall>x. \<not> within a n x \<longrightarrow> mem_byte m' x = mem_byte m x)"
begin

text \<open>One step of data to the stream: what it takes is a prefix, and nothing on an error.\<close>

lemma write_from_stream:
  assumes "write_from_offset_to R S p m 0 s n = (s', r)"
  shows "case r of
      Inl e \<Rightarrow> taken s' = taken s
    | Inr k \<Rightarrow> k \<le> n \<and> (\<exists>a. buf_addr p = Some a \<and> taken s' = taken s @ take k (mem_bytes mem_byte m a n))"
proof (cases "buf_region_addr R m p 0 n :: ('ge, 'io) VsockError + u64")
  case (Inl e)
  then show ?thesis using assms by (auto simp: write_from_offset_to_def)
next
  case (Inr a)
  then have a: "buf_addr p = Some a" "mapped G m a n" using buf_region_mapped [OF Inr] by auto
  obtain s1 r1 where w: "stream_write S s (mem_bytes mem_byte m a n) = (s1, r1)" by fastforce
  show ?thesis
  proof (cases r1)
    case (Inl io)
    obtain e where "region_write_to S m a s n = (s1, Inl e)"
      using to_stream_Err [OF a(2) w [unfolded Inl]] by blast
    then show ?thesis using assms Inr sink.write_Err [OF w [unfolded Inl]]
      by (auto simp: write_from_offset_to_def)
  next
    case (Inr k)
    then show ?thesis
      using assms \<open>buf_region_addr R m p 0 n = Ok a\<close> sink.write_Ok [OF w [unfolded Inr]]
        to_stream_Ok [OF a(2) w [unfolded Inr]] a(1)
      by (auto simp: write_from_offset_to_def)
  qed
qed

text \<open>Data to the transmit buffer is appended whole or not at all.\<close>

lemma write_from_txbuf:
  assumes "txbuf_inv b"
  obtains b' r where "write_from_offset_to_txbuf R S p m k b n = Done (b', r :: ('ge, 'io) VsockError + nat)"
    and "txbuf_inv b'"
    and "case r of
      Inl e \<Rightarrow> b' = b
    | Inr _ \<Rightarrow> \<exists>a. buf_addr p = Some a
        \<and> txbuf_contents b' = txbuf_contents b @ mem_bytes mem_byte m (a + of_nat k) n"
proof (cases "buf_region_addr R m p k n :: ('ge, 'io) VsockError + u64")
  case (Inl e)
  then show thesis using that [of b "Inl e"] assms by (simp add: write_from_offset_to_txbuf_def)
next
  case (Inr a)
  then obtain c where a: "buf_addr p = Some c" "a = c + of_nat k" "mapped G m a n"
    using buf_region_mapped [OF Inr] by auto
  let ?bs = "mem_bytes mem_byte m a n"
  obtain b' and q :: "'io CsmError + unit" where p: "txbuf_push b ?bs = Done (b', q)" "txbuf_inv b'"
    "if length (txbuf_contents b) + length ?bs \<le> SIZE
     then q = Ok () \<and> txbuf_contents b' = txbuf_contents b @ ?bs else q = Err TxBufFull \<and> b' = b"
    using txbuf_push_refines [OF assms, of ?bs] by blast
  show thesis
  proof (cases q)
    case (Inl ce)
    have "txbuf_write b ?bs = Done (b', Inl ce :: 'io CsmError + nat)" using p(1) Inl by (simp add: txbuf_write_def)
    from to_txbuf_Err [OF a(3) this] show ?thesis
      using that [of b' "Inl (GuestMemoryMmap _)"] p(2,3) Inr Inl
      by (auto simp: write_from_offset_to_txbuf_def split: if_split_asm)
  next
    case (Inr u)
    have "txbuf_write b ?bs = Done (b', Inr n :: 'io CsmError + nat)" using p(1) Inr by (simp add: txbuf_write_def)
    from to_txbuf_Ok [OF a(3) this] show ?thesis
      using that [of b' "Inr n"] p(2,3) Inr \<open>buf_region_addr R m p k n = Ok a\<close> a(1,2)
      by (auto simp: write_from_offset_to_txbuf_def split: if_split_asm)
  qed
qed

end

section \<open>The bytes of the guest reach the host\<close>

definition conn_wf :: "'s VsockConnection \<Rightarrow> bool" where
  "conn_wf c \<longleftrightarrow> rxset_inv (vc_pending_rx c) \<and> txbuf_inv (vc_tx_buf c)"

definition payload :: "('m \<Rightarrow> u64 \<Rightarrow> u8) \<Rightarrow> 'm \<Rightarrow> VsockPacket \<Rightarrow> u8 list" where
  "payload mb m p = (case buf_addr p of None \<Rightarrow> [] | Some a \<Rightarrow> mem_bytes mb m a (unat (pkt_len p)))"

text \<open>What a connection owes to the host: what the stream took and what is still buffered.\<close>

definition conn_data :: "('s \<Rightarrow> u8 list) \<Rightarrow> 's VsockConnection \<Rightarrow> u8 list" where
  "conn_data taken c = taken (vc_stream c) @ txbuf_contents (vc_tx_buf c)"

text \<open>
  \<open>off\<close> stands for bytes written to the stream without being counted, which \<open>send_bytes_raw\<close> does.
\<close>

definition counts :: "u32 \<Rightarrow> ('s \<Rightarrow> u8 list) \<Rightarrow> 's VsockConnection \<Rightarrow> bool" where
  "counts off taken c \<longleftrightarrow> vc_fwd_cnt c + off = of_nat (length (taken (vc_stream c)))"

text \<open>
  \<open>acc\<close> is the data of the accepted packets. A connection that has been killed may have lost the end
  of it, and owes the guest a reset.
\<close>

definition stream_inv :: "u32 \<Rightarrow> ('s \<Rightarrow> u8 list) \<Rightarrow> 's VsockConnection \<Rightarrow> u8 list \<Rightarrow> bool" where
  "stream_inv off taken c acc \<longleftrightarrow>
     conn_wf c \<and> counts off taken c
     \<and> (if vc_state c = Killed then prefix (conn_data taken c) acc \<and> Rst \<in> rxset_abs (vc_pending_rx c)
        else conn_data taken c = acc)"

definition accepted :: "('m \<Rightarrow> u64 \<Rightarrow> u8) \<Rightarrow> 'm \<Rightarrow> VsockPacket \<Rightarrow> 's VsockConnection \<Rightarrow> u8 list" where
  "accepted mb m p c =
     (if may_send (vc_state c) \<and> pkt_op p = VSOCK_OP_RW \<and> buf_size p \<noteq> 0 then payload mb m p else [])"

lemma vc_insert_rx_simps [simp]:
  "vc_state (vc_insert_rx i c) = vc_state c" "vc_stream (vc_insert_rx i c) = vc_stream c"
  "vc_tx_buf (vc_insert_rx i c) = vc_tx_buf c" "vc_fwd_cnt (vc_insert_rx i c) = vc_fwd_cnt c"
  "vc_pending_rx (vc_insert_rx i c) = rxset_insert i (vc_pending_rx c)"
  "vc_rx_cnt (vc_insert_rx i c) = vc_rx_cnt c" "vc_peer_fwd_cnt (vc_insert_rx i c) = vc_peer_fwd_cnt c"
  "vc_peer_buf_alloc (vc_insert_rx i c) = vc_peer_buf_alloc c" "vc_expiry (vc_insert_rx i c) = vc_expiry c"
  by (simp_all add: vc_insert_rx_def)

lemma kill_simps [simp]:
  "vc_state (kill c) = Killed" "vc_stream (kill c) = vc_stream c"
  "vc_tx_buf (kill c) = vc_tx_buf c" "vc_fwd_cnt (kill c) = vc_fwd_cnt c"
  "vc_pending_rx (kill c) = rxset_insert Rst (vc_pending_rx c)" "vc_expiry (kill c) = vc_expiry c"
  by (simp_all add: kill_def)

text \<open>Inserting an indication, or a change of a field the invariant does not read, keeps the invariant.\<close>

lemma stream_inv_insert:
  "stream_inv off taken c acc \<Longrightarrow> stream_inv off taken (vc_insert_rx i c) acc"
  by (auto simp: stream_inv_def conn_wf_def counts_def conn_data_def rxset.inv_ins rxset.abs_ins)

lemma stream_inv_pending:
  assumes "stream_inv off taken c acc" and "vc_stream c' = vc_stream c" and "vc_tx_buf c' = vc_tx_buf c"
    and "vc_fwd_cnt c' = vc_fwd_cnt c" and "vc_state c' = Killed \<longleftrightarrow> vc_state c = Killed"
    and "vc_pending_rx c' = vc_pending_rx c \<or> (\<exists>i. vc_pending_rx c' = rxset_insert i (vc_pending_rx c))"
  shows "stream_inv off taken c' acc"
  using assms
  by (auto simp: stream_inv_def conn_wf_def counts_def conn_data_def rxset.inv_ins rxset.abs_ins)

lemma stream_inv_kill:
  assumes "conn_wf c" and "counts off taken c" and "prefix (conn_data taken c) acc"
  shows "stream_inv off taken (kill c) acc"
  using assms
  by (auto simp: stream_inv_def conn_wf_def counts_def conn_data_def rxset.inv_ins rxset.abs_ins)

text \<open>A packet without data only changes the state, the kill timer and the indications.\<close>

lemma send_control_pkt_simps:
  "vc_stream (send_control_pkt now p c) = vc_stream c"
  "vc_tx_buf (send_control_pkt now p c) = vc_tx_buf c"
  "vc_fwd_cnt (send_control_pkt now p c) = vc_fwd_cnt c"
  "vc_state (send_control_pkt now p c) = Killed \<longleftrightarrow> vc_state c = Killed"
  by (cases "vc_state c"; simp add: send_control_pkt_def shutdown_flags_def Let_def)+

lemma send_control_pkt_pending:
  "vc_pending_rx (send_control_pkt now p c) = vc_pending_rx c
   \<or> (\<exists>i. vc_pending_rx (send_control_pkt now p c) = rxset_insert i (vc_pending_rx c))"
  by (cases "vc_state c"; simp add: send_control_pkt_def shutdown_flags_def Let_def) blast+

lemma send_control:
  assumes "\<not> (may_send (vc_state c) \<and> pkt_op p = VSOCK_OP_RW \<and> buf_size p \<noteq> 0)"
  shows "\<exists>c'. conn_send_pkt R S now m p c = Done c' \<and> vc_stream c' = vc_stream c \<and> vc_tx_buf c' = vc_tx_buf c
    \<and> vc_fwd_cnt c' = vc_fwd_cnt c \<and> (vc_state c' = Killed \<longleftrightarrow> vc_state c = Killed)
    \<and> (vc_pending_rx c' = vc_pending_rx c \<or> (\<exists>i. vc_pending_rx c' = rxset_insert i (vc_pending_rx c)))"
proof -
  let ?c = "c\<lparr>vc_peer_buf_alloc := pkt_buf_alloc p, vc_peer_fwd_cnt := pkt_fwd_cnt p\<rparr>"
  have "conn_send_pkt R S now m p c = Done (if may_send (vc_state c) \<and> pkt_op p = VSOCK_OP_RW then ?c
      else send_control_pkt now p ?c)"
    using assms by (auto simp: conn_send_pkt_def Let_def)
  then show ?thesis
    using send_control_pkt_pending [of now p ?c] by (simp add: send_control_pkt_simps)
qed

context host_stream
begin

lemma txbuf_rest:
  assumes "txbuf_inv b" and "k \<le> unat (pkt_len p)"
    and "t @ txbuf_contents b = acc @ take k (payload mem_byte m p)"
  obtains b' r where "write_from_offset_to_txbuf R S p m k b (unat (pkt_len p) - k)
      = Done (b', r :: ('ge, 'io) VsockError + nat)" and "txbuf_inv b'"
    and "case r of Inl e \<Rightarrow> prefix (t @ txbuf_contents b') (acc @ payload mem_byte m p)
        | Inr _ \<Rightarrow> t @ txbuf_contents b' = acc @ payload mem_byte m p"
proof -
  obtain b' r where w: "write_from_offset_to_txbuf R S p m k b (unat (pkt_len p) - k)
      = Done (b', r :: ('ge, 'io) VsockError + nat)" "txbuf_inv b'"
    "case r of Inl e \<Rightarrow> b' = b
     | Inr _ \<Rightarrow> \<exists>a. buf_addr p = Some a
        \<and> txbuf_contents b' = txbuf_contents b @ mem_bytes mem_byte m (a + of_nat k) (unat (pkt_len p) - k)"
    by (rule write_from_txbuf [OF assms(1)])
  have "case r of Inl e \<Rightarrow> prefix (t @ txbuf_contents b') (acc @ payload mem_byte m p)
        | Inr _ \<Rightarrow> t @ txbuf_contents b' = acc @ payload mem_byte m p"
  proof (cases r)
    case (Inl e)
    then show ?thesis using w(3) assms(3) by (simp add: take_is_prefix)
  next
    case (Inr n)
    then have "txbuf_contents b' = txbuf_contents b @ drop k (payload mem_byte m p)"
      using w(3) assms(2) by (auto simp: payload_def drop_mem_bytes)
    then have "t @ txbuf_contents b' = (t @ txbuf_contents b) @ drop k (payload mem_byte m p)" by simp
    then show ?thesis unfolding assms(3) using Inr by simp
  qed
  with w show thesis by (intro that)
qed

lemma send_bytes_stream:
  assumes inv: "txbuf_inv (vc_tx_buf c)" "counts off taken c" "conn_data taken c = acc"
  obtains c' r where "send_bytes R S m p c = Done (c', r :: ('ge, 'io) VsockError + unit)"
    and "vc_state c' = vc_state c" and "vc_pending_rx c' = vc_pending_rx c"
    and "txbuf_inv (vc_tx_buf c')" and "counts off taken c'"
    and "case r of Inl e \<Rightarrow> prefix (conn_data taken c') (acc @ payload mem_byte m p)
        | Inr _ \<Rightarrow> conn_data taken c' = acc @ payload mem_byte m p"
proof (cases "txbuf_is_empty (vc_tx_buf c)")
  case False
  obtain b r where "write_from_offset_to_txbuf R S p m 0 (vc_tx_buf c) (unat (pkt_len p) - 0)
      = Done (b, r :: ('ge, 'io) VsockError + nat)" "txbuf_inv b"
    "case r of Inl e \<Rightarrow> prefix (taken (vc_stream c) @ txbuf_contents b) (acc @ payload mem_byte m p)
     | Inr _ \<Rightarrow> taken (vc_stream c) @ txbuf_contents b = acc @ payload mem_byte m p"
    using inv by (elim txbuf_rest [of "vc_tx_buf c" 0 p "taken (vc_stream c)" acc m, rotated -1])
      (simp_all add: conn_data_def)
  then show thesis
    using that [of "c\<lparr>vc_tx_buf := b\<rparr>" "map_sum id (\<lambda>_. ()) r"] False inv(2)
    by (cases r) (simp_all add: send_bytes_def counts_def conn_data_def)
next
  case True
  let ?pl = "payload mem_byte m p" and ?len = "unat (pkt_len p)"
  have e: "txbuf_contents (vc_tx_buf c) = []" "taken (vc_stream c) = acc"
    using True inv(1,3) by (simp_all add: conn_data_def txbuf_is_empty_def flip: length_contents)
  obtain s r where w: "write_from_offset_to R S p m 0 (vc_stream c) ?len
      = (s, r :: ('ge, 'io) VsockError + nat)" by fastforce
  define r' where "r' = (case r of Inr cnt \<Rightarrow> Ok cnt | Inl e \<Rightarrow> if blocked S e then Ok 0 else Err e)"
  have k: "case r' of Inl e \<Rightarrow> taken s = acc | Inr k \<Rightarrow> k \<le> ?len \<and> k \<le> length ?pl \<and> taken s = acc @ take k ?pl"
    using write_from_stream [OF w] e by (auto simp: r'_def payload_def split: sum.splits if_splits)
  show thesis
  proof (cases r')
    case (Inl x)
    then show thesis
      using that [of "c\<lparr>vc_stream := s\<rparr>" "Inl x"] True w k e inv
      by (simp add: send_bytes_def flip: r'_def) (simp add: counts_def conn_data_def)
  next
    case (Inr k)
    then have t: "k \<le> ?len" "k \<le> length ?pl" "taken s = acc @ take k ?pl" using k by simp_all
    let ?c = "c\<lparr>vc_stream := s, vc_fwd_cnt := vc_fwd_cnt c + of_nat k\<rparr>"
    have cnt: "vc_fwd_cnt c + of_nat k + off = of_nat (length (taken s))" using inv(2) t e by (simp add: counts_def)
    show thesis
    proof (cases "k < ?len")
      case less: True
      obtain b q where "write_from_offset_to_txbuf R S p m k (vc_tx_buf c) (?len - k)
          = Done (b, q :: ('ge, 'io) VsockError + nat)" "txbuf_inv b"
        "case q of Inl e \<Rightarrow> prefix (taken s @ txbuf_contents b) (acc @ ?pl)
         | Inr _ \<Rightarrow> taken s @ txbuf_contents b = acc @ ?pl"
        using inv t e by (elim txbuf_rest [of "vc_tx_buf c" k p "taken s" acc m, rotated -1]) simp_all
      then show thesis
        using that [of "?c\<lparr>vc_tx_buf := b\<rparr>" "map_sum id (\<lambda>_. ()) q"] True w less Inr cnt
        by (cases q) (simp_all add: send_bytes_def flip: r'_def, simp_all add: counts_def conn_data_def)
    next
      case False
      have "length ?pl \<le> ?len" by (simp add: payload_def split: option.split)
      then have "taken s = acc @ ?pl" using t False by simp
      then show thesis
        using that [of ?c "Inr ()"] True w False Inr cnt inv e
        by (simp add: send_bytes_def flip: r'_def) (simp add: counts_def conn_data_def)
    qed
  qed
qed

lemma send_pkt_stream:
  assumes inv: "stream_inv off taken c acc"
  obtains c' where "conn_send_pkt R S now m p c = Done c'"
    and "stream_inv off taken c' (acc @ accepted mem_byte m p c)"
proof (cases "may_send (vc_state c) \<and> pkt_op p = VSOCK_OP_RW \<and> buf_size p \<noteq> 0")
  case False
  obtain c' where c': "conn_send_pkt R S now m p c = Done c'" "vc_stream c' = vc_stream c"
    "vc_tx_buf c' = vc_tx_buf c" "vc_fwd_cnt c' = vc_fwd_cnt c" "vc_state c' = Killed \<longleftrightarrow> vc_state c = Killed"
    "vc_pending_rx c' = vc_pending_rx c \<or> (\<exists>i. vc_pending_rx c' = rxset_insert i (vc_pending_rx c))"
    using send_control [OF False, of R S now m] by blast
  have "accepted mem_byte m p c = []" using False by (auto simp: accepted_def)
  then show thesis using that [OF c'(1)] stream_inv_pending [OF inv c'(2-6)] by simp
next
  case True
  define c0 where "c0 = c\<lparr>vc_peer_buf_alloc := pkt_buf_alloc p, vc_peer_fwd_cnt := pkt_fwd_cnt p\<rparr>"
  have c0: "stream_inv off taken c0 acc" "vc_state c0 = vc_state c"
    by (rule stream_inv_pending [OF inv]) (simp_all add: c0_def)
  have nk: "vc_state c0 \<noteq> Killed" using True c0(2) by (auto simp: may_send_def)
  then obtain c' r where sb: "send_bytes R S m p c0 = Done (c', r :: ('ge, 'io) VsockError + unit)"
    "vc_state c' = vc_state c0" "vc_pending_rx c' = vc_pending_rx c0" "txbuf_inv (vc_tx_buf c')" "counts off taken c'"
    "case r of Inl e \<Rightarrow> prefix (conn_data taken c') (acc @ payload mem_byte m p)
      | Inr _ \<Rightarrow> conn_data taken c' = acc @ payload mem_byte m p"
    using c0(1) by (elim send_bytes_stream [of c0 off acc m p, rotated -1])
      (simp_all add: stream_inv_def conn_wf_def)
  have wf: "conn_wf c'" using c0(1) sb(3,4) by (simp add: stream_inv_def conn_wf_def)
  have acc: "accepted mem_byte m p c = payload mem_byte m p" using True by (simp add: accepted_def)
  have send: "conn_send_pkt R S now m p c = (case r of Inl _ \<Rightarrow> Done (kill c')
      | Inr _ \<Rightarrow> Done (if peer_needs_credit_update c' then vc_insert_rx CreditUpdate c' else c'))"
    using True sb(1) by (simp add: conn_send_pkt_def Let_def c0_def)
  show thesis
  proof (cases r)
    case (Inl e)
    then show thesis using that send stream_inv_kill [OF wf sb(5)] sb(6) acc by simp
  next
    case (Inr u)
    then have "stream_inv off taken c' (acc @ payload mem_byte m p)"
      using wf sb nk by (simp add: stream_inv_def)
    then show thesis
      using send Inr acc
      by (intro that [of "if peer_needs_credit_update c' then vc_insert_rx CreditUpdate c' else c'"])
        (simp_all add: stream_inv_insert)
  qed
qed

lemma notify_stream:
  assumes inv: "stream_inv off taken c acc"
  obtains c' where "conn_notify S ev c = Some (Done c')" and "stream_inv off taken c' acc"
proof -
  define c0 where "c0 = (if evset_contains ev EPOLLIN then vc_insert_rx Rw c else c)"
  have c0: "stream_inv off taken c0 acc" using inv by (simp add: c0_def stream_inv_insert)
  show thesis
  proof (cases "\<not> evset_contains ev EPOLLOUT \<or> txbuf_is_empty (vc_tx_buf c0)")
    case True
    then show thesis using that [of c0] c0 by (simp add: conn_notify_def Let_def c0_def [symmetric])
  next
    case False
    have tb: "txbuf_inv (vc_tx_buf c0)" using c0 by (simp add: stream_inv_def conn_wf_def)
    obtain b s r where f: "txbuf_flush_to (stream_write S) (vc_tx_buf c0) (vc_stream c0) = Some (Done (b, s, r))"
      "txbuf_inv b" "taken s @ txbuf_contents b = taken (vc_stream c0) @ txbuf_contents (vc_tx_buf c0)"
      "case r of Inl e \<Rightarrow> b = vc_tx_buf c0 | Inr n \<Rightarrow> txbuf_len (vc_tx_buf c0) = n + txbuf_len b"
      using sink.flush_to_correct [OF tb, of "vc_stream c0"] by blast
    define c1 where "c1 = c0\<lparr>vc_tx_buf := b, vc_stream := s\<rparr>"
    define c2 where "c2 = (case r of Inr n \<Rightarrow> c1
      | Inl e \<Rightarrow> if (case e of TxBufFlush io \<Rightarrow> would_block S io | _ \<Rightarrow> False) then c1 else kill c1)"
    define c3 where "c3 = c2\<lparr>vc_fwd_cnt := vc_fwd_cnt c2 + of_nat (case r of Inr n \<Rightarrow> n | Inl _ \<Rightarrow> 0)\<rparr>"
    have notify: "conn_notify S ev c = Some (Done
       (if vc_state c3 = PeerClosed True True \<and> txbuf_is_empty (vc_tx_buf c3) then vc_insert_rx Rst c3
        else if peer_needs_credit_update c3 then vc_insert_rx CreditUpdate c3 else c3))"
      using False f(1)
      by (simp add: conn_notify_def Let_def c0_def [symmetric] c1_def c2_def c3_def
          del: kill_simps split: sum.split)
    have len: "length (taken s) = length (taken (vc_stream c0)) + (case r of Inr n \<Rightarrow> n | Inl _ \<Rightarrow> 0)"
      using arg_cong [OF f(3), of length] f(2,4) tb by (cases r) (simp_all add: length_contents)
    have data: "taken s @ txbuf_contents b = conn_data taken c0" using f(3) by (simp add: conn_data_def)
    have "stream_inv off taken c3 acc"
    proof (cases "c2 = c1")
      case True
      have "conn_data taken c3 = conn_data taken c0" using f(3) by (simp add: conn_data_def c3_def True c1_def)
      moreover have "conn_wf c3" "counts off taken c3" "vc_state c3 = vc_state c0" "vc_pending_rx c3 = vc_pending_rx c0"
        using c0 f(2) len by (simp_all add: stream_inv_def conn_wf_def counts_def c3_def True c1_def)
      ultimately show ?thesis using c0 by (simp only: stream_inv_def simp_thms) (elim conjE, assumption)
    next
      case False
      then have "c2 = kill c1" "\<exists>e. r = Inl e" by (auto simp: c2_def split: sum.split_asm if_split_asm)
      moreover have "conn_wf c1" "counts off taken c1"
        using c0 f(2) len \<open>\<exists>e. r = Inl e\<close>
        by (auto simp: stream_inv_def conn_wf_def counts_def c1_def)
      moreover have "conn_data taken c1 = conn_data taken c0" using data by (simp add: conn_data_def c1_def)
      moreover have "prefix (conn_data taken c0) acc"
        using c0 by (simp add: stream_inv_def split: if_split_asm)
      ultimately have "stream_inv off taken c2 acc" by (simp add: stream_inv_kill)
      then show ?thesis
        by (rule stream_inv_pending) (use \<open>\<exists>e. r = Inl e\<close> in \<open>auto simp: c3_def\<close>)
    qed
    then show thesis using that [OF notify] by (simp add: stream_inv_insert)
  qed
qed

text \<open>Reading from the stream touches at most the part of the packet's buffer that was asked for.\<close>

lemma read_at_offset:
  assumes "read_at_offset_from R S p m 0 s n = (m', s', r :: ('ge, 'io) VsockError + nat)"
  shows "taken s' = taken s" "case r of Inl _ \<Rightarrow> True | Inr k \<Rightarrow> k \<le> n"
    "\<not> (\<exists>a. buf_addr p = Some a \<and> within a n x) \<Longrightarrow> mem_byte m' x = mem_byte m x"
proof -
  have "taken s' = taken s \<and> (case r of Inl _ \<Rightarrow> True | Inr k \<Rightarrow> k \<le> n)
    \<and> (\<forall>x. \<not> (\<exists>a. buf_addr p = Some a \<and> within a n x) \<longrightarrow> mem_byte m' x = mem_byte m x)"
  proof (cases "buf_region_addr R m p 0 n :: ('ge, 'io) VsockError + u64")
    case (Inl e)
    then show ?thesis using assms by (auto simp: read_at_offset_from_def)
  next
    case (Inr a)
    then have a: "buf_addr p = Some a" "mapped G m a n" using buf_region_mapped [OF Inr] by auto
    obtain m1 s1 r1 where rd: "region_read_from S m a s n = (m1, s1, r1)" by (metis prod_cases3)
    have "m' = m1" "s' = s1" "r = map_sum GuestMemoryMmap id r1"
      using assms Inr rd by (auto simp: read_at_offset_from_def)
    then show ?thesis using from_stream [OF a(2) rd] a(1) by (cases r1) auto
  qed
  then show "taken s' = taken s" "case r of Inl _ \<Rightarrow> True | Inr k \<Rightarrow> k \<le> n"
    "\<not> (\<exists>a. buf_addr p = Some a \<and> within a n x) \<Longrightarrow> mem_byte m' x = mem_byte m x"
    by blast+
qed

end

definition rxset_del :: "PendingRx \<Rightarrow> PendingRxSet \<Rightarrow> PendingRxSet" where
  "rxset_del i s = fst (rxset_remove i s)"

lemma rxset_del:
  "rxset_abs (rxset_del i s) = rxset_abs s - {i}" "rxset_inv s \<Longrightarrow> rxset_inv (rxset_del i s)"
  using rxset.abs_rem [of i s] rxset.inv_rem [of s i] by (simp_all add: rxset_del_def prod_eq_iff)

lemma take_rx_eq:
  "take_rx i c = (c\<lparr>vc_pending_rx := rxset_del i (vc_pending_rx c)\<rparr>, i \<in> rxset_abs (vc_pending_rx c))"
  using rxset.abs_has [of i "vc_pending_rx c"]
  by (simp add: take_rx_def rxset_del_def rxset_remove_def)

lemma recv_credit_update_effect:
  assumes "recv_credit_update m c p = (m', c', p', r)"
  shows "m' = m \<and> (\<exists>f. c' = c\<lparr>vc_pending_rx := rxset_del CreditUpdate (vc_pending_rx c), vc_last_fwd_cnt_to_peer := f\<rparr>)
    \<and> pkt_len p' = pkt_len p \<and> (r = Ok () \<or> r = Err NoData)"
proof (cases "snd (take_rx CreditUpdate c) \<and> \<not> has_pending_rx (fst (take_rx CreditUpdate c))")
  case True
  then show ?thesis
    using assms by (auto simp: recv_credit_update_def take_rx_eq set_op_def pkt_len_def)
next
  case False
  then show ?thesis
    using assms
    by (auto simp: recv_credit_update_def take_rx_eq split: if_split_asm
        intro!: exI [of _ "vc_last_fwd_cnt_to_peer c"])
qed

lemma within_mono: "within a n x \<Longrightarrow> n \<le> k \<Longrightarrow> within a k x"
  by (simp add: within_def)

lemma peer_avail_bound: "peer_avail_credit c < 2 ^ 32"
  using unat_bound [of "vc_peer_buf_alloc c - (vc_rx_cnt c - vc_peer_fwd_cnt c)"]
  by (simp add: peer_avail_credit_def)

lemma pkt_simps [simp]:
  "pkt_len (set_op v p) = pkt_len p" "pkt_len (set_flag f p) = pkt_len p" "pkt_len (set_len l p) = l"
  "pkt_len (init_pkt c p) = pkt_len p" "buf_size (set_op v p) = buf_size p"
  "buf_size (init_pkt c p) = buf_size p" "buf_addr (init_pkt c p) = buf_addr p"
  "pkt_op (set_op v p) = v" "pkt_op (set_len l p) = pkt_op p" "pkt_op (set_flag f p) = pkt_op p"
  by (simp_all add: pkt_defs init_pkt_def)

context host_stream
begin

lemma recv_rw_cases:
  assumes "recv_rw R S now m c p = (m', c', p', filled)"
  obtains (no_data) op f where "m' = m" and "c' = c\<lparr>vc_last_fwd_cnt_to_peer := f\<rparr>" and "p' = set_op op p"
  | (error) s e f where "vc_state c \<noteq> Killed"
      and "read_at_offset_from R S p m 0 (vc_stream c) (min (buf_size p) (peer_avail_credit c))
        = (m', s, Inl e :: ('ge, 'io) VsockError + nat)"
      and "c' = c\<lparr>vc_stream := s, vc_last_fwd_cnt_to_peer := f\<rparr>" and "pkt_len p' = pkt_len p"
  | (shutdown) s f t where "vc_state c \<noteq> Killed"
      and "read_at_offset_from R S p m 0 (vc_stream c) (min (buf_size p) (peer_avail_credit c))
        = (m', s, Inr 0 :: ('ge, 'io) VsockError + nat)" and "pkt_len p' = pkt_len p"
      and "c' = c\<lparr>vc_stream := s, vc_state := LocalClosed, vc_expiry := t,
             vc_rx_cnt := vc_rx_cnt c + pkt_len p, vc_last_fwd_cnt_to_peer := f\<rparr>"
  | (data) s k f where "vc_state c \<noteq> Killed"
      and "read_at_offset_from R S p m 0 (vc_stream c) (min (buf_size p) (peer_avail_credit c))
        = (m', s, Inr k :: ('ge, 'io) VsockError + nat)" and "pkt_len p' = of_nat k" and "filled"
      and "c' = c\<lparr>vc_stream := s, vc_rx_cnt := vc_rx_cnt c + of_nat k, vc_last_fwd_cnt_to_peer := f\<rparr>"
proof -
  define ok where "ok = (case vc_state c of Established \<Rightarrow> True | PeerClosed recv_off _ \<Rightarrow> \<not> recv_off | _ \<Rightarrow> False)"
  have nk: "ok \<Longrightarrow> vc_state c \<noteq> Killed" by (auto simp: ok_def)
  obtain m1 s r where rd: "read_at_offset_from R S p m 0 (vc_stream c) (min (buf_size p) (peer_avail_credit c))
      = (m1, s, r :: ('ge, 'io) VsockError + nat)" by (metis prod_cases3)
  note rw = assms [unfolded recv_rw_def ok_def [symmetric] rd]
  consider "\<not> ok" | "ok" "need_credit_update_from_peer c" | e where "ok" "\<not> need_credit_update_from_peer c" "r = Inl e"
    | "ok" "\<not> need_credit_update_from_peer c" "r = Inr 0"
    | k where "ok" "\<not> need_credit_update_from_peer c" "r = Inr k" "k \<noteq> 0"
    by (cases r) auto
  then show thesis
  proof cases
    case 1
    then show thesis using rw by (intro no_data [of "vc_last_fwd_cnt_to_peer c" VSOCK_OP_RST]) simp_all
  next
    case 2
    then show thesis using rw by (intro no_data [of "vc_fwd_cnt c" VSOCK_OP_CREDIT_REQUEST]) simp_all
  next
    case (3 e)
    then show thesis
      using rw rd nk by (intro error [of s e "if blocked S e then vc_last_fwd_cnt_to_peer c else vc_fwd_cnt c"])
        (auto simp: Let_def split: if_split_asm)
  next
    case 4
    then show thesis
      using rw rd nk by (intro shutdown [of s "vc_fwd_cnt c" "Some (now + CONN_SHUTDOWN_TIMEOUT_MS)"]) (auto simp: Let_def)
  next
    case (5 k)
    then show thesis using rw rd nk by (intro data [of s k "vc_fwd_cnt c"]) (auto simp: Let_def)
  qed
qed

lemma recv_rw_effect:
  assumes "recv_rw R S now m c p = (m', c', p', filled)"
  shows "taken (vc_stream c') = taken (vc_stream c) \<and> vc_tx_buf c' = vc_tx_buf c \<and> vc_fwd_cnt c' = vc_fwd_cnt c
    \<and> vc_pending_rx c' = vc_pending_rx c \<and> (vc_state c' = Killed \<longleftrightarrow> vc_state c = Killed)"
  using assms
proof (cases rule: recv_rw_cases)
  case (error s e f)
  then show ?thesis using read_at_offset(1) [OF error(2)] by simp
next
  case (shutdown s f t)
  then show ?thesis using read_at_offset(1) [OF shutdown(2)] by simp
next
  case (data s k f)
  then show ?thesis using read_at_offset(1) [OF data(2)] by simp
qed simp

lemma recv_rw_frame:
  assumes "recv_rw R S now m c p = (m', c', p', filled)"
    and "\<not> (\<exists>a. buf_addr p = Some a \<and> within a (buf_size p) x)"
  shows "mem_byte m' x = mem_byte m x"
proof -
  have "\<not> (\<exists>a. buf_addr p = Some a \<and> within a (min (buf_size p) (peer_avail_credit c)) x)"
    using assms(2) within_mono by fastforce
  note outside = this
  show ?thesis
    using assms(1)
    by (cases rule: recv_rw_cases) (simp, (erule read_at_offset(3) [OF _ outside])+)
qed

lemma recv_rw_credit:
  assumes "recv_rw R S now m c p = (m', c', p', filled)" and "pkt_len p = 0"
  shows "\<exists>k. vc_rx_cnt c' = vc_rx_cnt c + of_nat k \<and> pkt_len p' = of_nat k \<and> (k \<noteq> 0 \<longrightarrow> filled)
    \<and> k \<le> peer_avail_credit c \<and> k \<le> buf_size p
    \<and> vc_peer_buf_alloc c' = vc_peer_buf_alloc c \<and> vc_peer_fwd_cnt c' = vc_peer_fwd_cnt c"
  using assms(1)
proof (cases rule: recv_rw_cases)
  case (data s k f)
  then show ?thesis using read_at_offset(2) [OF data(2)] by (intro exI [of _ k]) simp
qed (use assms(2) in \<open>auto intro!: exI [of _ 0]\<close>)

text \<open>What \<open>recv_pkt\<close> does, when no reset is due: the indications only lose elements.\<close>

lemma recv_pkt_cases:
  assumes "conn_recv_pkt R S now m c p = (m', c', p', r :: ('ge, 'io) VsockError + unit)"
    and "Rst \<notin> rxset_abs (vc_pending_rx c)"
  obtains (control) s st ex f where "m' = m"
      and "c' = c\<lparr>vc_pending_rx := s, vc_state := st, vc_expiry := ex, vc_last_fwd_cnt_to_peer := f\<rparr>"
      and "st = vc_state c \<or> st = Established \<and> Response \<in> rxset_abs (vc_pending_rx c)"
      and "rxset_abs s \<subseteq> rxset_abs (vc_pending_rx c)"
      and "rxset_inv (vc_pending_rx c) \<Longrightarrow> rxset_inv s" and "pkt_len p' = pkt_len p"
      and "r = Ok () \<or> r = Err NoData \<and> rxset_abs s = {}"
  | (rw) s cr pr filled s' f where "recv_rw R S now m (c\<lparr>vc_pending_rx := s\<rparr>) (init_pkt c p) = (m', cr, pr, filled)"
      and "c' = cr\<lparr>vc_pending_rx := s', vc_last_fwd_cnt_to_peer := f\<rparr>"
      and "rxset_abs s' \<subseteq> rxset_abs (vc_pending_rx c)"
      and "rxset_inv (vc_pending_rx c) \<Longrightarrow> rxset_inv s'" and "pkt_len p' = pkt_len pr"
      and "r = Ok () \<or> r = Err NoData \<and> rxset_abs s' = {}" and "filled \<Longrightarrow> r = Ok ()"
proof -
  let ?P = "vc_pending_rx c"
  let ?s1 = "rxset_del Rst ?P" let ?s2 = "rxset_del Response ?s1" let ?s3 = "rxset_del Request ?s2"
  let ?s4 = "rxset_del Rw ?s3" let ?s5 = "rxset_del CreditUpdate ?s4"
  have empty: "rxset_abs ?s5 = {}" by (auto simp: rxset_del) (metis PendingRx.exhaust)
  note recv = assms(1) [unfolded conn_recv_pkt_def, simplified take_rx_eq rxset_del Let_def]
  consider "Response \<in> rxset_abs ?P" | "Response \<notin> rxset_abs ?P" "Request \<in> rxset_abs ?P"
    | "Response \<notin> rxset_abs ?P" "Request \<notin> rxset_abs ?P" "Rw \<in> rxset_abs ?P"
    | "Response \<notin> rxset_abs ?P" "Request \<notin> rxset_abs ?P" "Rw \<notin> rxset_abs ?P" by blast
  then show thesis
  proof cases
    case 1
    then show thesis
      using recv assms(2)
      by (intro control [where s = ?s2 and st = Established and ex = "vc_expiry c" and f = "vc_last_fwd_cnt_to_peer c"]) (auto simp: rxset_del)
  next
    case 2
    then show thesis
      using recv assms(2)
      by (intro control [where s = ?s3 and st = "vc_state c" and ex = "Some (now + CONN_REQUEST_TIMEOUT_MS)"
          and f = "vc_last_fwd_cnt_to_peer c"])
        (auto simp: rxset_del)
  next
    case 3
    obtain m1 c1 p1 filled where rr: "recv_rw R S now m (c\<lparr>vc_pending_rx := ?s4\<rparr>) (init_pkt c p) = (m1, c1, p1, filled)"
      by (metis prod_cases4)
    have p1: "vc_pending_rx c1 = ?s4" using recv_rw_effect [OF rr] by simp
    show thesis
    proof (cases filled)
      case True
      then show thesis
        using recv assms(2) 3 rr p1
        by (intro rw [where s = ?s4 and cr = c1 and pr = p1 and filled = filled and s' = ?s4
              and f = "vc_last_fwd_cnt_to_peer c1"]) (auto simp: rxset_del)
    next
      case False
      then have "recv_credit_update m1 c1 p1 = (m', c', p', r)"
        using recv assms(2) 3 rr by (simp add: rxset_del)
      from recv_credit_update_effect [OF this] obtain f where cu: "m' = m1"
        "c' = c1\<lparr>vc_pending_rx := ?s5, vc_last_fwd_cnt_to_peer := f\<rparr>" "pkt_len p' = pkt_len p1"
        "r = Ok () \<or> r = Err NoData" using p1 by auto
      then show thesis
        using rr empty False
        by (intro rw [where s = ?s4 and cr = c1 and pr = p1 and filled = filled and s' = ?s5 and f = f])
          (auto simp: rxset_del)
    qed
  next
    case 4
    then have "recv_credit_update m (c\<lparr>vc_pending_rx := ?s4\<rparr>) (init_pkt c p) = (m', c', p', r)"
      using recv assms(2) by (simp add: rxset_del)
    from recv_credit_update_effect [OF this] obtain f where cu: "m' = m"
      "c' = c\<lparr>vc_pending_rx := ?s5, vc_last_fwd_cnt_to_peer := f\<rparr>" "pkt_len p' = pkt_len p"
      "r = Ok () \<or> r = Err NoData" by auto
    then show thesis
      using empty by (intro control [where s = ?s5 and st = "vc_state c" and ex = "vc_expiry c" and f = f]) (auto simp: rxset_del)
  qed
qed

lemma recv_pkt_rst:
  assumes "Rst \<in> rxset_abs (vc_pending_rx c)"
  shows "conn_recv_pkt R S now m c p =
    (m, c\<lparr>vc_pending_rx := rxset_del Rst (vc_pending_rx c)\<rparr>, set_op VSOCK_OP_RST (init_pkt c p), Ok ())"
  using assms by (simp add: conn_recv_pkt_def take_rx_eq)

lemma recv_pkt_stream:
  assumes recv: "conn_recv_pkt R S now m c p = (m', c', p', r :: ('ge, 'io) VsockError + unit)"
    and inv: "stream_inv off taken c acc"
  shows "r = Ok () \<and> pkt_op p' = VSOCK_OP_RST \<or> stream_inv off taken c' acc"
proof (cases "Rst \<in> rxset_abs (vc_pending_rx c)")
  case True
  then show ?thesis using recv by (auto simp: recv_pkt_rst)
next
  case False
  then have c: "vc_state c \<noteq> Killed" "conn_wf c" "counts off taken c" "conn_data taken c = acc"
    using inv by (auto simp: stream_inv_def split: if_split_asm)
  from recv False have "stream_inv off taken c' acc"
  proof (cases rule: recv_pkt_cases)
    case (control s st ex f)
    then have "vc_state c' \<noteq> Killed" "conn_wf c'" "counts off taken c'" "conn_data taken c' = acc"
      using c by (auto simp: conn_wf_def counts_def conn_data_def)
    then show ?thesis by (simp add: stream_inv_def)
  next
    case (rw s cr pr filled s' f)
    have "vc_state c' \<noteq> Killed" "conn_wf c'" "counts off taken c'" "conn_data taken c' = acc"
      using c recv_rw_effect [OF rw(1)] rw(2,4) by (simp_all add: conn_wf_def counts_def conn_data_def)
    then show ?thesis by (simp add: stream_inv_def)
  qed
  then show ?thesis ..
qed

text \<open>The bytes of a packet that is handed to the guest are counted, and stay within the credit.\<close>

lemma recv_pkt_credit:
  assumes recv: "conn_recv_pkt R S now m c p = (m', c', p', r :: ('ge, 'io) VsockError + unit)"
    and len: "pkt_len p = 0"
  obtains k where "vc_rx_cnt c' = vc_rx_cnt c + of_nat k" and "pkt_len p' = of_nat k" and "k \<noteq> 0 \<longrightarrow> r = Ok ()"
    and "k \<le> peer_avail_credit c" and "k \<le> buf_size p"
    and "vc_peer_buf_alloc c' = vc_peer_buf_alloc c" and "vc_peer_fwd_cnt c' = vc_peer_fwd_cnt c"
proof (cases "Rst \<in> rxset_abs (vc_pending_rx c)")
  case True
  then show thesis using recv len by (intro that [of 0]) (auto simp: recv_pkt_rst)
next
  case False
  with recv show thesis
  proof (cases rule: recv_pkt_cases)
    case (control s st ex f)
    then show thesis using len by (intro that [of 0]) simp_all
  next
    case (rw s cr pr filled s' f)
    obtain k where "vc_rx_cnt cr = vc_rx_cnt c + of_nat k" "pkt_len pr = of_nat k" "k \<noteq> 0 \<longrightarrow> filled"
      "k \<le> peer_avail_credit c" "k \<le> buf_size p"
      "vc_peer_buf_alloc cr = vc_peer_buf_alloc c" "vc_peer_fwd_cnt cr = vc_peer_fwd_cnt c"
      using recv_rw_credit [OF rw(1)] len by (auto simp: peer_avail_credit_def)
    then show thesis using rw(2,5,7) by (intro that [of k]) auto
  qed
qed

lemma recv_pkt_frame_mem:
  assumes recv: "conn_recv_pkt R S now m c p = (m', c', p', r :: ('ge, 'io) VsockError + unit)"
    and out: "\<not> (\<exists>a. buf_addr p = Some a \<and> within a (buf_size p) x)"
  shows "mem_byte m' x = mem_byte m x"
proof (cases "Rst \<in> rxset_abs (vc_pending_rx c)")
  case True
  then show ?thesis using recv by (auto simp: recv_pkt_rst)
next
  case False
  with recv show ?thesis
  proof (cases rule: recv_pkt_cases)
    case (rw s cr pr filled s' f)
    then show ?thesis using recv_rw_frame [OF rw(1), of x] out by simp
  qed simp
qed

lemma recv_pkt_error:
  assumes recv: "conn_recv_pkt R S now m c p = (m', c', p', r :: ('ge, 'io) VsockError + unit)"
    and "rxset_inv (vc_pending_rx c)"
  shows "rxset_inv (vc_pending_rx c') \<and> (\<forall>e. r = Err e \<longrightarrow> e = NoData \<and> \<not> has_pending_rx c')"
proof (cases "Rst \<in> rxset_abs (vc_pending_rx c)")
  case True
  then show ?thesis using assms by (auto simp: recv_pkt_rst rxset_del)
next
  case False
  with recv show ?thesis
    using assms(2) by (cases rule: recv_pkt_cases) (auto simp: has_pending_rx_def rxset.abs_empty)
qed

end

section \<open>The life of a connection\<close>

text \<open>
  What happens to a connection: packets of the guest with the memory their data is in, events of the
  stream, packets for the guest, and a forced termination. \<open>acc\<close> collects the data of the accepted
  packets. A reset packet ends the connection: the multiplexer drops it then.
\<close>

datatype 'm conn_op =
  SendPkt nat 'm VsockPacket | Notify EventSet | RecvPkt nat 'm VsockPacket | Kill

fun conn_run ::
  "('m \<Rightarrow> u64 \<Rightarrow> u8) \<Rightarrow> 'm RegionOps \<Rightarrow> ('m, 'ge, 'io, 's) StreamOps \<Rightarrow> 'm conn_op list \<Rightarrow>
   's VsockConnection \<times> u8 list \<Rightarrow> ('s VsockConnection \<times> u8 list) exec option" where
  "conn_run mb R S [] st = Some (Done st)"
| "conn_run mb R S (SendPkt now m p # ops) (c, acc) =
     (case conn_send_pkt R S now m p c of
        Panic \<Rightarrow> Some Panic
      | Done c' \<Rightarrow> conn_run mb R S ops (c', acc @ accepted mb m p c))"
| "conn_run mb R S (Notify ev # ops) (c, acc) =
     (case conn_notify S ev c of
        None \<Rightarrow> None
      | Some Panic \<Rightarrow> Some Panic
      | Some (Done c') \<Rightarrow> conn_run mb R S ops (c', acc))"
| "conn_run mb R S (RecvPkt now m p # ops) (c, acc) =
     (case conn_recv_pkt R S now m c p of
        (m', c', p', r) \<Rightarrow>
          if r = Ok () \<and> pkt_op p' = VSOCK_OP_RST then Some (Done (c, acc))
          else conn_run mb R S ops (c', acc))"
| "conn_run mb R S (Kill # ops) (c, acc) = conn_run mb R S ops (kill c, acc)"

context host_stream
begin

lemma run_stream:
  assumes "stream_inv off taken c acc"
  shows "\<exists>c' acc'. conn_run mem_byte R S ops (c, acc) = Some (Done (c', acc')) \<and> stream_inv off taken c' acc'"
  using assms
proof (induction ops arbitrary: c acc)
  case Nil
  then show ?case by simp
next
  case (Cons op ops)
  show ?case
  proof (cases op)
    case (SendPkt now m p)
    then show ?thesis by (rule_tac send_pkt_stream [OF Cons.prems, of now m p]) (simp add: Cons.IH)
  next
    case (Notify ev)
    then show ?thesis by (rule_tac notify_stream [OF Cons.prems, of ev]) (simp add: Cons.IH)
  next
    case (RecvPkt now m p)
    obtain m' c' p' r where rp: "conn_recv_pkt R S now m c p = (m', c', p', r)" by (metis prod_cases4)
    show ?thesis
      using RecvPkt rp recv_pkt_stream [OF rp Cons.prems] Cons.prems Cons.IH by auto
  next
    case Kill
    have "stream_inv off taken (kill c) acc"
      using Cons.prems by (intro stream_inv_kill) (auto simp: stream_inv_def split: if_split_asm)
    then show ?thesis using Kill Cons.IH by simp
  qed
qed

end

section \<open>Credit\<close>

text \<open>
  What the guest knows of the flow towards it: the bytes it was handed, how many of them it has
  announced as taken, and the buffer it announced.
\<close>

record GuestCredit =
  gc_received :: nat
  gc_taken :: nat
  gc_alloc :: u32

definition delivered :: "VsockPacket \<Rightarrow> ('ge, 'io) VsockError + unit \<Rightarrow> nat" where
  "delivered p r = (if r = Ok () then unat (pkt_len p) else 0)"

text \<open>
  A connection and a guest that keeps to the protocol: the counts it announces are of bytes it was
  handed, and it does not announce less room than what is under way takes. Packets for the guest start
  out empty.
\<close>

inductive credit_step ::
  "'m RegionOps \<Rightarrow> ('m, 'ge, 'io, 's) StreamOps \<Rightarrow> 's VsockConnection \<times> GuestCredit \<Rightarrow> 's VsockConnection \<times> GuestCredit \<Rightarrow> bool"
  for R :: "'m RegionOps" and S :: "('m, 'ge, 'io, 's) StreamOps" where
  recv: "conn_recv_pkt R S now m c p = (m', c', p', r) \<Longrightarrow> pkt_len p = 0 \<Longrightarrow>
    credit_step R S (c, g) (c', g\<lparr>gc_received := gc_received g + delivered p' r\<rparr>)"
| send: "conn_send_pkt R S now m p c = Done c' \<Longrightarrow> pkt_fwd_cnt p = of_nat n \<Longrightarrow> n \<le> gc_received g \<Longrightarrow>
    gc_received g \<le> n + unat (pkt_buf_alloc p) \<Longrightarrow>
    credit_step R S (c, g) (c', g\<lparr>gc_taken := n, gc_alloc := pkt_buf_alloc p\<rparr>)"
| event: "conn_notify S ev c = Some (Done c') \<Longrightarrow> credit_step R S (c, g) (c', g)"
| kill: "credit_step R S (c, g) (kill c, g)"

inductive_cases credit_stepE: "credit_step R S (c, g) y"

text \<open>The counters of the connection are the guest's, and what is under way has room.\<close>

definition credit_fields :: "'s VsockConnection \<Rightarrow> u32 \<times> u32 \<times> u32" where
  "credit_fields c = (vc_rx_cnt c, vc_peer_fwd_cnt c, vc_peer_buf_alloc c)"

definition credit_inv :: "'s VsockConnection \<times> GuestCredit \<Rightarrow> bool" where
  "credit_inv = (\<lambda>(c, g). credit_fields c = (of_nat (gc_received g), of_nat (gc_taken g), gc_alloc g)
     \<and> gc_taken g \<le> gc_received g \<and> gc_received g \<le> gc_taken g + unat (gc_alloc g))"

lemma credit_fields_simps [simp]:
  "credit_fields (kill c) = credit_fields c" "credit_fields (vc_insert_rx i c) = credit_fields c"
  by (simp_all add: credit_fields_def kill_def vc_insert_rx_def)

lemma send_bytes_credit: "send_bytes R S m p c = Done (c', r) \<Longrightarrow> credit_fields c' = credit_fields c"
  by (auto simp: send_bytes_def credit_fields_def ebind_Done Let_def split: if_split_asm sum.split_asm prod.split_asm)

lemma send_control_credit: "credit_fields (send_control_pkt now p c) = credit_fields c"
  by (cases "vc_state c"; simp add: send_control_pkt_def shutdown_flags_def Let_def) (simp_all add: credit_fields_def vc_insert_rx_def)

lemma send_pkt_credit:
  fixes S :: "('m, 'ge, 'io, 's) StreamOps"
  assumes "conn_send_pkt R S now m p c = Done c'"
  shows "credit_fields c' = (vc_rx_cnt c, pkt_fwd_cnt p, pkt_buf_alloc p)"
proof -
  let ?c = "c\<lparr>vc_peer_buf_alloc := pkt_buf_alloc p, vc_peer_fwd_cnt := pkt_fwd_cnt p\<rparr>"
  have "credit_fields c' = credit_fields ?c"
  proof (cases "may_send (vc_state c) \<and> pkt_op p = VSOCK_OP_RW \<and> buf_size p \<noteq> 0")
    case False
    then show ?thesis
      using assms send_control_credit [of now p ?c] by (auto simp: conn_send_pkt_def Let_def split: if_split_asm)
  next
    case True
    then obtain c1 and r :: "('ge, 'io) VsockError + unit" where sb: "send_bytes R S m p ?c = Done (c1, r)"
      using assms by (cases "send_bytes R S m p ?c") (auto simp: conn_send_pkt_def)
    then show ?thesis
      using assms True send_bytes_credit [OF sb] by (cases r) (auto simp: conn_send_pkt_def)
  qed
  then show ?thesis by (simp add: credit_fields_def)
qed

lemma notify_credit:
  assumes "conn_notify S ev c = Some (Done c')"
  shows "credit_fields c' = credit_fields c"
proof -
  define c0 where "c0 = (if evset_contains ev EPOLLIN then vc_insert_rx Rw c else c)"
  have "credit_fields c' = credit_fields c0"
  proof (cases "\<not> evset_contains ev EPOLLOUT \<or> txbuf_is_empty (vc_tx_buf c0)")
    case True
    then show ?thesis using assms by (simp add: conn_notify_def Let_def c0_def [symmetric])
  next
    case False
    then obtain b s r where "txbuf_flush_to (stream_write S) (vc_tx_buf c0) (vc_stream c0) = Some (Done (b, s, r))"
      using assms by (auto simp: conn_notify_def Let_def c0_def [symmetric] ebind_Done bind_eq_Some_conv)
    then show ?thesis
      using assms False
      by (auto simp: conn_notify_def Let_def c0_def [symmetric] credit_fields_def vc_insert_rx_def kill_def
          split: sum.split_asm if_split_asm)
  qed
  then show ?thesis by (simp add: c0_def)
qed

lemma avail_credit_room:
  assumes "credit_inv (c, g)"
  shows "peer_avail_credit c = gc_taken g + unat (gc_alloc g) - gc_received g"
proof -
  let ?n = "gc_received g - gc_taken g"
  have c: "vc_rx_cnt c = of_nat (gc_received g)" "vc_peer_fwd_cnt c = of_nat (gc_taken g)"
    "vc_peer_buf_alloc c = gc_alloc g" "gc_taken g \<le> gc_received g" "?n \<le> unat (gc_alloc g)"
    using assms by (auto simp: credit_inv_def credit_fields_def)
  have "vc_rx_cnt c - vc_peer_fwd_cnt c = of_nat ?n" using c(4) by (simp add: c(1,2) of_nat_diff)
  moreover have "unat (of_nat ?n :: u32) = ?n"
    using c(5) unat_bound [of "gc_alloc g"] by (simp add: unat_of_nat del: of_nat_diff)
  ultimately show ?thesis
    using c(3-5) by (simp add: peer_avail_credit_def unat_sub word_le_nat_alt)
qed

context host_stream
begin

lemma credit_step_inv:
  assumes "credit_step R S x y" and "credit_inv x"
  shows "credit_inv y"
  using assms
proof cases
  case (recv now m c p m' c' p' r g)
  obtain k where k: "vc_rx_cnt c' = vc_rx_cnt c + of_nat k" "pkt_len p' = of_nat k" "k \<noteq> 0 \<longrightarrow> r = Ok ()"
    "k \<le> peer_avail_credit c" "vc_peer_buf_alloc c' = vc_peer_buf_alloc c" "vc_peer_fwd_cnt c' = vc_peer_fwd_cnt c"
    using recv_pkt_credit [OF recv(3,4)] by metis
  have "unat (of_nat k :: u32) = k" using k(4) peer_avail_bound [of c] by (simp add: unat_of_nat)
  then have "delivered p' r = k" using k(2,3) by (auto simp: delivered_def)
  then show ?thesis
    using assms(2) k(1,4-6) avail_credit_room [of c g] recv(1,2) by (auto simp: credit_inv_def credit_fields_def)
next
  case (send now m p c c' n g)
  then show ?thesis using assms(2) send_pkt_credit [OF send(3)] by (simp add: credit_inv_def credit_fields_def)
next
  case (event ev c c' g)
  then show ?thesis using assms(2) notify_credit [OF event(3)] by (simp add: credit_inv_def)
next
  case (kill c g)
  then show ?thesis using assms(2) by (simp add: credit_inv_def)
qed

lemma credit_steps_inv: "(credit_step R S)\<^sup>*\<^sup>* x y \<Longrightarrow> credit_inv x \<Longrightarrow> credit_inv y"
  by (induction rule: rtranclp_induct) (auto intro: credit_step_inv)

end

text \<open>A stream that never fails for good, and data that lies in one region.\<close>

definition only_blocks :: "('m, 'ge, 'io, 's) StreamOps \<Rightarrow> bool" where
  "only_blocks S \<longleftrightarrow> (\<forall>s buf s' e. stream_write S s buf = (s', Inl e) \<longrightarrow> would_block S e)"

definition in_region :: "'m RegionOps \<Rightarrow> 'm \<Rightarrow> VsockPacket \<Rightarrow> bool" where
  "in_region R m p \<longleftrightarrow>
     (\<exists>a start len. buf_addr p = Some a \<and> region_at R m a = Some (start, len)
       \<and> unat (a - start) + buf_size p \<le> unat len \<and> unat a + buf_size p \<le> 2 ^ 64
       \<and> (\<forall>k < buf_size p. region_at R m (a + of_nat k) = Some (start, len)))"

lemma in_region_addr:
  assumes "in_region R m p" and "n \<le> buf_size p" and "k < n"
  shows "\<exists>a. buf_region_addr R m p k (n - k) = (Ok a :: ('ge, 'io) VsockError + u64)"
proof -
  obtain a start len where a: "buf_addr p = Some a" "region_at R m (a + of_nat k) = Some (start, len)"
    "unat (a - start) + buf_size p \<le> unat len" "unat a + buf_size p \<le> 2 ^ 64"
    using assms by (fastforce simp: in_region_def)
  have k: "unat (of_nat k :: u64) = k" using a(4) assms(2,3) by (simp add: unat_of_nat)
  have "unat (a - start + of_nat k) = unat (a - start) + k"
    using a(3) assms(2,3) k unat_bound [of len] by (subst unat_add_small) simp_all
  moreover have "a + of_nat k - start = a - start + of_nat k" by simp
  ultimately have "unat (a + of_nat k - start) = unat (a - start) + k" by (simp only:)
  moreover have "checked_add a (of_nat k) = Some (a + of_nat k)"
    using a(4) assms(2,3) k by (simp add: checked_add_def)
  moreover have "k \<le> buf_size p" "n - k \<le> buf_size p - k" "1 \<le> n - k"
    "unat (a - start) + k + (n - k - 1) < unat len" using a(3) assms(2,3) by linarith+
  ultimately show ?thesis
    using a(1,2) by (simp add: buf_region_addr_def checked_nat_sub_def ok_or_def)
qed

context host_stream
begin

text \<open>Data that fits the transmit buffer is accepted.\<close>

lemma write_txbuf_fits:
  assumes "txbuf_inv b" and "buf_region_addr R m p k n = (Ok a :: ('ge, 'io) VsockError + u64)"
    and "length (txbuf_contents b) + n \<le> SIZE"
  shows "\<exists>b'. write_from_offset_to_txbuf R S p m k b n = Done (b', Ok n :: ('ge, 'io) VsockError + nat)"
proof -
  let ?bs = "mem_bytes mem_byte m a n"
  obtain b' and q :: "'io CsmError + unit" where "txbuf_push b ?bs = Done (b', q)" "q = Ok ()"
    using txbuf_push_refines [OF assms(1), of ?bs] assms(3) by fastforce
  then have "txbuf_write b ?bs = Done (b', Inr n :: 'io CsmError + nat)" by (simp add: txbuf_write_def)
  from to_txbuf_Ok [OF buf_region_mapped(2) [OF assms(2)] this]
  show ?thesis using assms(2) by (simp add: write_from_offset_to_txbuf_def)
qed

lemma write_stream_blocks:
  assumes "only_blocks S" and "buf_region_addr R m p k n = (Ok a :: ('ge, 'io) VsockError + u64)"
    and "write_from_offset_to R S p m k s n = (s', Inl e :: ('ge, 'io) VsockError + nat)"
  shows "blocked S e"
proof -
  have a: "mapped G m a n" by (rule buf_region_mapped(2) [OF assms(2)])
  obtain s1 r1 where w: "stream_write S s (mem_bytes mem_byte m a n) = (s1, r1)" by fastforce
  show ?thesis
  proof (cases r1)
    case (Inl io)
    then obtain ge where "region_write_to S m a s n = (s1, Inl ge)" "io_error S ge = Some io"
      using to_stream_Err [OF a w [unfolded Inl]] by blast
    then show ?thesis
      using assms w Inl by (auto simp: write_from_offset_to_def blocked_def only_blocks_def)
  next
    case (Inr j)
    then show ?thesis
      using assms(2,3) to_stream_Ok [OF a w [unfolded Inr]] by (simp add: write_from_offset_to_def)
  qed
qed

lemma send_bytes_fits:
  assumes blocks: "only_blocks S"
    and inv: "txbuf_inv (vc_tx_buf c)"
    and reg: "\<forall>k < unat (pkt_len p). \<exists>a. buf_region_addr R m p k (unat (pkt_len p) - k) = (Ok a :: ('ge, 'io) VsockError + u64)"
    and pos: "0 < pkt_len p"
    and fits: "length (txbuf_contents (vc_tx_buf c)) + unat (pkt_len p) \<le> SIZE"
  shows "\<exists>c'. send_bytes R S m p c = Done (c', Ok () :: ('ge, 'io) VsockError + unit)"
proof -
  let ?len = "unat (pkt_len p)"
  have len: "0 < ?len" using pos by (simp add: word_less_nat_alt)
  then obtain a where a: "buf_region_addr R m p 0 ?len = (Ok a :: ('ge, 'io) VsockError + u64)" using reg by force
  show ?thesis
  proof (cases "txbuf_is_empty (vc_tx_buf c)")
    case False
    then show ?thesis using write_txbuf_fits [OF inv a fits] by (auto simp: send_bytes_def)
  next
    case True
    obtain s r where w: "write_from_offset_to R S p m 0 (vc_stream c) ?len = (s, r :: ('ge, 'io) VsockError + nat)"
      by fastforce
    obtain k where k: "(case r of Inr cnt \<Rightarrow> Ok cnt | Inl e \<Rightarrow> if blocked S e then Ok 0 else Err e) = Ok k"
      using write_stream_blocks [OF blocks a, of "vc_stream c" s] w by (cases r) auto
    show ?thesis
    proof (cases "k < ?len")
      case less: True
      then obtain ak where "buf_region_addr R m p k (?len - k) = (Ok ak :: ('ge, 'io) VsockError + u64)" using reg by blast
      then obtain b' where "write_from_offset_to_txbuf R S p m k (vc_tx_buf c) (?len - k)
          = Done (b', Ok (?len - k) :: ('ge, 'io) VsockError + nat)"
        using write_txbuf_fits [OF inv, of m p k "?len - k" ak] fits less by fastforce
      then show ?thesis using True w k less by (simp add: send_bytes_def)
    next
      case False
      then show ?thesis using True w k by (simp add: send_bytes_def)
    qed
  qed
qed

text \<open>
  A guest that has seen the count \<open>seen\<close> of forwarded bytes and keeps what it has sent beyond it within
  the buffer we announce.
\<close>

lemma send_honest:
  assumes "only_blocks S" and inv: "stream_inv off taken c acc" and "may_send (vc_state c)"
    and p: "pkt_op p = VSOCK_OP_RW" "0 < pkt_len p" "unat (pkt_len p) \<le> buf_size p" "in_region R m p"
    and seen: "seen \<le> length (taken (vc_stream c))" "length acc + unat (pkt_len p) \<le> seen + unat CONN_TX_BUF_SIZE"
  shows "\<exists>c'. conn_send_pkt R S now m p c = Done c' \<and> vc_state c' = vc_state c
    \<and> conn_data taken c' = acc @ payload mem_byte m p"
proof -
  define c0 where "c0 = c\<lparr>vc_peer_buf_alloc := pkt_buf_alloc p, vc_peer_fwd_cnt := pkt_fwd_cnt p\<rparr>"
  have st: "vc_state c \<noteq> Killed" using assms(3) by (auto simp: may_send_def)
  have c0: "txbuf_inv (vc_tx_buf c0)" "counts off taken c0" "conn_data taken c0 = acc"
    using inv st by (simp_all add: c0_def stream_inv_def conn_wf_def counts_def conn_data_def)
  have "length (txbuf_contents (vc_tx_buf c0)) + unat (pkt_len p) \<le> SIZE"
    using seen arg_cong [OF c0(3), of length] by (simp add: conn_data_def c0_def SIZE_def)
  then obtain c1 where sb: "send_bytes R S m p c0 = Done (c1, Ok () :: ('ge, 'io) VsockError + unit)"
    using send_bytes_fits [OF assms(1) c0(1) _ p(2)] in_region_addr [OF p(4,3)] by blast
  obtain c' r where c': "send_bytes R S m p c0 = Done (c', r :: ('ge, 'io) VsockError + unit)"
    "vc_state c' = vc_state c0"
    "case r of Inl e \<Rightarrow> prefix (conn_data taken c') (acc @ payload mem_byte m p)
      | Inr _ \<Rightarrow> conn_data taken c' = acc @ payload mem_byte m p"
    by (rule send_bytes_stream [OF c0, of m p]) blast
  have "vc_state c1 = vc_state c" "conn_data taken c1 = acc @ payload mem_byte m p"
    using c' sb by (simp_all add: c0_def)
  moreover have "0 < buf_size p" using p(2,3) by (simp add: word_less_nat_alt)
  moreover have "conn_send_pkt R S now m p c = Done (if peer_needs_credit_update c1 then vc_insert_rx CreditUpdate c1 else c1)"
    using assms(3) p(1) sb \<open>0 < buf_size p\<close> by (simp add: conn_send_pkt_def Let_def c0_def)
  ultimately show ?thesis by (simp add: conn_data_def)
qed

end

section \<open>A stream\<close>

text \<open>
  The scripted sink as a host stream over a memory of one page: a failing write would block, and a read
  finds the stream closed.
\<close>

definition script_stream :: "(byte_map, unit, unit, script_sink) StreamOps" where
  "script_stream =
     \<lparr>stream_write = script_write,
      region_read_from = (\<lambda>m a s n. (m, s, Inr 0)),
      region_write_to = (\<lambda>m a s n. script_write s (mem_bytes bm_byte m a n)),
      region_write_to_txbuf = (\<lambda>m a b n.
        case txbuf_write b (mem_bytes bm_byte m a n) of
          Panic \<Rightarrow> Panic
        | Done (b', r) \<Rightarrow> Done (b', case r of Inl (ce :: unit CsmError) \<Rightarrow> Inl () | Inr k \<Rightarrow> Inr k)),
      io_error = Some, would_block = (\<lambda>_. True)\<rparr>"

interpretation ss: host_stream byte_memory bm_byte page_regions script_stream ss_taken
proof
  show "stream_write script_stream s buf = (s', Inr n) \<Longrightarrow> n \<le> length buf \<and> ss_taken s' = ss_taken s @ take n buf"
    for s buf s' n using script.write_Ok by (simp add: script_stream_def)
  show "stream_write script_stream s buf = (s', Inl e) \<Longrightarrow> ss_taken s' = ss_taken s"
    for s buf s' e using script.write_Err by (simp add: script_stream_def)
qed (simp_all add: script_stream_def)

section \<open>Properties\<close>

text \<open>
  (C7) A connection carries the bytes of the guest to the host in order: for any stream that keeps the
  contract of \<open>Write\<close> and whatever the packets, events and terminations, every operation returns
  without a panic, the count of forwarded bytes is that of the bytes the stream took modulo \<open>2 ^ 32\<close>,
  and what the stream took followed by what is buffered is the data of the accepted packets, of which
  only a killed connection may miss the end.
\<close>

theorem vsock_stream:
  assumes "host_stream G mb R S taken" and "taken s = []"
    and "c = new_peer_init s lcid pcid lport pport alloc \<or> c = new_local_init s lcid pcid lport pport"
  shows "\<exists>c' acc. conn_run mb R S ops (c, []) = Some (Done (c', acc))
    \<and> vc_fwd_cnt c' = of_nat (length (taken (vc_stream c')))
    \<and> prefix (taken (vc_stream c') @ txbuf_contents (vc_tx_buf c')) acc
    \<and> (vc_state c' \<noteq> Killed \<longrightarrow> taken (vc_stream c') @ txbuf_contents (vc_tx_buf c') = acc)"
proof -
  have "stream_inv 0 taken c []"
    using assms(2,3)
    by (auto simp: new_peer_init_def new_local_init_def stream_inv_def conn_wf_def counts_def conn_data_def
        txbuf_inv_new rxset.inv_single)
  from host_stream.run_stream [OF assms(1) this, of ops] show ?thesis
    by (auto simp: stream_inv_def counts_def conn_data_def split: if_split_asm)
qed

definition sample_conn :: "script_sink VsockConnection" where
  "sample_conn = new_peer_init \<lparr>ss_taken = [], ss_script = [Some 2, None]\<rparr> 2 3 1024 5 65536"

definition sample_pkt :: VsockPacket where
  "sample_pkt = \<lparr>hdr_addr = 1024, hdr = header_default\<lparr>vh_len := 4, vh_op := 5\<rparr>, buf_addr = Some 2048, buf_size = 4\<rparr>"

theorem vsock_stream_witness:
  "\<exists>c' acc. conn_run bm_byte page_regions script_stream
      [RecvPkt 0 tx_mem sample_pkt, SendPkt 1 tx_mem sample_pkt, Notify EPOLLOUT] (sample_conn, []) = Some (Done (c', acc))
    \<and> prefix (ss_taken (vc_stream c') @ txbuf_contents (vc_tx_buf c')) acc"
proof -
  have "ss_taken \<lparr>ss_taken = [], ss_script = [Some 2, None]\<rparr> = []" by simp
  from vsock_stream [OF ss.host_stream_axioms this disjI1 [OF refl], where lcid = 2 and pcid = 3 and lport = 1024
      and pport = 5 and alloc = 65536 and ops = "[RecvPkt 0 tx_mem sample_pkt, SendPkt 1 tx_mem sample_pkt, Notify EPOLLOUT]"]
  show ?thesis unfolding sample_conn_def by blast
qed

text \<open>
  (C20) A connection never sends the guest more than it has room for. Whatever packets, events and
  terminations a connection sees from its creation on, as long as the guest announces counts of bytes
  it was really handed and does not shrink its buffer below what is under way, the bytes of all the
  packets handed to it so far are at most the bytes it has announced as taken plus the buffer it has
  announced. Each packet filled in next is within what is left of that and no longer than its buffer,
  and no other byte of guest memory changes.
\<close>

theorem vsock_credit:
  assumes "host_stream G mb R S taken"
    and "c0 = new_peer_init s lcid pcid lport pport alloc \<or> c0 = new_local_init s lcid pcid lport pport \<and> alloc = 0"
    and "(credit_step R S)\<^sup>*\<^sup>* (c0, \<lparr>gc_received = 0, gc_taken = 0, gc_alloc = alloc\<rparr>) (c, g)"
  shows "gc_received g \<le> gc_taken g + unat (gc_alloc g)
    \<and> (\<forall>now m p m' c' p' r. conn_recv_pkt R S now m c p = (m', c', p', r) \<and> pkt_len p = 0 \<longrightarrow>
         gc_received g + delivered p' r \<le> gc_taken g + unat (gc_alloc g)
         \<and> unat (pkt_len p') \<le> buf_size p
         \<and> (\<forall>x. (\<nexists>a. buf_addr p = Some a \<and> within a (buf_size p) x) \<longrightarrow> mb m' x = mb m x))"
proof -
  have "credit_inv (c0, \<lparr>gc_received = 0, gc_taken = 0, gc_alloc = alloc\<rparr>)"
    using assms(2) by (auto simp: credit_inv_def credit_fields_def new_peer_init_def new_local_init_def)
  then have inv: "credit_inv (c, g)" by (rule host_stream.credit_steps_inv [OF assms(1,3)])
  have "gc_received g + delivered p' r \<le> gc_taken g + unat (gc_alloc g) \<and> unat (pkt_len p') \<le> buf_size p
      \<and> (\<forall>x. (\<nexists>a. buf_addr p = Some a \<and> within a (buf_size p) x) \<longrightarrow> mb m' x = mb m x)"
    if p: "conn_recv_pkt R S now m c p = (m', c', p', r)" "pkt_len p = 0" for now m p m' c' p' r
  proof -
    have "credit_inv (c', g\<lparr>gc_received := gc_received g + delivered p' r\<rparr>)"
      by (rule host_stream.credit_step_inv [OF assms(1) credit_step.recv [OF p] inv])
    then have sum: "gc_received g + delivered p' r \<le> gc_taken g + unat (gc_alloc g)" by (simp add: credit_inv_def)
    obtain k where k: "pkt_len p' = of_nat k" "k \<le> buf_size p"
      using host_stream.recv_pkt_credit [OF assms(1) p] by metis
    have "unat (of_nat k :: u32) \<le> k" by (simp add: unat_of_nat)
    then have "unat (pkt_len p') \<le> buf_size p" using k by simp
    with sum show ?thesis using host_stream.recv_pkt_frame_mem [OF assms(1) p(1)] by blast
  qed
  moreover have "gc_received g \<le> gc_taken g + unat (gc_alloc g)" using inv by (simp add: credit_inv_def)
  ultimately show ?thesis by blast
qed

text \<open>
  A stream whose reads find three bytes, or as many as were asked for, and a guest with a buffer of four
  bytes: it is sent three bytes, then one.
\<close>

definition talk_stream :: "(byte_map, unit, unit, script_sink) StreamOps" where
  "talk_stream = script_stream\<lparr>region_read_from := (\<lambda>m a s n. (m, s, Inr (min 3 n)))\<rparr>"

interpretation talk: host_stream byte_memory bm_byte page_regions talk_stream ss_taken
proof
  show "stream_write talk_stream s buf = (s', Inr n) \<Longrightarrow> n \<le> length buf \<and> ss_taken s' = ss_taken s @ take n buf"
    for s buf s' n using script.write_Ok by (simp add: talk_stream_def script_stream_def)
  show "stream_write talk_stream s buf = (s', Inl e) \<Longrightarrow> ss_taken s' = ss_taken s"
    for s buf s' e using script.write_Err by (simp add: talk_stream_def script_stream_def)
qed (auto simp: talk_stream_def script_stream_def)

definition talk_conn :: "script_sink VsockConnection" where
  "talk_conn = new_peer_init \<lparr>ss_taken = [], ss_script = []\<rparr> 2 3 1024 5 4"

definition empty_pkt :: VsockPacket where
  "empty_pkt = sample_pkt\<lparr>hdr := header_default\<rparr>"

lemma empty_pkt_size: "buf_size empty_pkt = 4"
  by (simp add: empty_pkt_def sample_pkt_def)

lemma empty_pkt_region:
  assumes "0 < n" and "n \<le> 4"
  shows "buf_region_addr page_regions tx_mem (init_pkt c empty_pkt) 0 n = (Ok 2048 :: (unit, unit) VsockError + u64)"
proof -
  have "bm_mapped tx_mem 0 4096" using page_mapped [of 0 4096] unfolding tx_mem_def by (simp add: bm_mapped_iff)
  then show ?thesis
    using assms by (simp add: buf_region_addr_def checked_nat_sub_def checked_add_def page_regions_def empty_pkt_def
        sample_pkt_def init_pkt_def pkt_defs ok_or_def)
qed

definition talk_open :: "PendingRxSet \<Rightarrow> u32 \<Rightarrow> script_sink VsockConnection" where
  "talk_open s k = talk_conn\<lparr>vc_state := Established, vc_pending_rx := s, vc_rx_cnt := k\<rparr>"

definition talk_credit :: "nat \<Rightarrow> GuestCredit" where
  "talk_credit n = \<lparr>gc_received = n, gc_taken = 0, gc_alloc = 4\<rparr>"

lemma talk_response: "credit_step page_regions talk_stream (talk_conn, talk_credit 0) (talk_open 0 0, talk_credit 0)"
proof -
  have len: "pkt_len empty_pkt = 0" by (simp add: empty_pkt_def pkt_defs header_default_def)
  have "conn_recv_pkt page_regions talk_stream 0 tx_mem talk_conn empty_pkt
      = (tx_mem, talk_open 0 0, set_op VSOCK_OP_RESPONSE (init_pkt talk_conn empty_pkt), Ok ())"
    by (simp add: conn_recv_pkt_def take_rx_def rxset_remove_def rxset_contains_def rxset_from_def into_mask_def
        talk_open_def talk_conn_def new_peer_init_def)
  from credit_step.recv [OF this len, of "talk_credit 0"] show ?thesis by (simp add: delivered_def len talk_credit_def)
qed

lemma talk_event: "credit_step page_regions talk_stream (talk_open 0 k, g) (talk_open 8 k, g)"
proof -
  have "txbuf_is_empty txbuf_new" using length_contents [of txbuf_new] txbuf_inv_new by (simp add: txbuf_is_empty_def)
  then have "conn_notify talk_stream EPOLLIN (talk_open 0 k) = Some (Done (talk_open 8 k))"
    by (simp add: conn_notify_def EPOLLIN_def EPOLLOUT_def evset_contains_def vc_insert_rx_def rxset_insert_def
        into_mask_def talk_open_def talk_conn_def new_peer_init_def)
  then show ?thesis by (rule credit_step.event)
qed

lemma talk_read:
  assumes k: "k = 0 \<and> n = 3 \<or> k = 3 \<and> n = 1"
  shows "credit_step page_regions talk_stream (talk_open 8 k, talk_credit (unat k)) (talk_open 0 (k + n), talk_credit (unat k + unat n))"
proof -
  let ?c = "talk_open 8 k"
  have len: "pkt_len empty_pkt = 0" by (simp add: empty_pkt_def pkt_defs header_default_def)
  have c: "vc_pending_rx ?c = 8" "vc_state ?c = Established" "vc_rx_cnt ?c = k" "vc_fwd_cnt ?c = 0"
    "vc_peer_buf_alloc ?c = 4" "vc_peer_fwd_cnt ?c = 0"
    by (simp_all add: talk_open_def talk_conn_def new_peer_init_def)
  then have av: "0 < peer_avail_credit ?c" "min 3 (min 4 (peer_avail_credit ?c)) = unat n"
    using k by (auto simp: peer_avail_credit_def)
  then have rd: "read_at_offset_from page_regions talk_stream (init_pkt ?c empty_pkt) tx_mem 0 (vc_stream ?c)
      (min (buf_size empty_pkt) (peer_avail_credit ?c)) = (tx_mem, vc_stream ?c, Ok (unat n) :: (unit, unit) VsockError + nat)"
    by (simp add: read_at_offset_from_def empty_pkt_region empty_pkt_size talk_stream_def)
  define c1 where "c1 = ?c\<lparr>vc_pending_rx := 0\<rparr>"
  have c1: "vc_state c1 = Established" "peer_avail_credit c1 = peer_avail_credit ?c" "vc_stream c1 = vc_stream ?c"
    "vc_fwd_cnt c1 = 0" "vc_rx_cnt c1 = k"
    using c by (simp_all add: c1_def peer_avail_credit_def)
  let ?p = "set_len n (set_op VSOCK_OP_RW (init_pkt ?c empty_pkt))"
  have "recv_rw page_regions talk_stream 0 tx_mem c1 (init_pkt ?c empty_pkt)
      = (tx_mem, c1\<lparr>vc_rx_cnt := k + n, vc_last_fwd_cnt_to_peer := 0\<rparr>, ?p, True)"
    using c1 rd av(1) k by (auto simp: recv_rw_def need_credit_update_from_peer_def Let_def)
  moreover have "c1\<lparr>vc_rx_cnt := k + n, vc_last_fwd_cnt_to_peer := 0\<rparr> = talk_open 0 (k + n)"
    by (simp add: c1_def talk_open_def talk_conn_def new_peer_init_def)
  ultimately have "conn_recv_pkt page_regions talk_stream 0 tx_mem ?c empty_pkt = (tx_mem, talk_open 0 (k + n), ?p, Ok ())"
    using c(1) by (simp add: conn_recv_pkt_def take_rx_def rxset_remove_def rxset_contains_def into_mask_def c1_def)
  from credit_step.recv [OF this len, of "talk_credit (unat k)"] show ?thesis
    by (simp add: delivered_def talk_credit_def)
qed

theorem vsock_credit_witness:
  "\<exists>c g. (credit_step page_regions talk_stream)\<^sup>*\<^sup>* (talk_conn, \<lparr>gc_received = 0, gc_taken = 0, gc_alloc = 4\<rparr>) (c, g)
    \<and> gc_received g = 4 \<and> gc_received g \<le> gc_taken g + unat (gc_alloc g)"
proof -
  let ?st = "credit_step page_regions talk_stream"
  have "?st (talk_open 8 0, talk_credit 0) (talk_open 0 3, talk_credit 3)"
    "?st (talk_open 8 3, talk_credit 3) (talk_open 0 4, talk_credit 4)"
    using talk_read [of 0 3] talk_read [of 3 1] by simp_all
  then have "?st\<^sup>*\<^sup>* (talk_conn, talk_credit 0) (talk_open 0 4, talk_credit 4)"
    using talk_response talk_event by (meson converse_rtranclp_into_rtranclp rtranclp.rtrancl_refl)
  then have run: "?st\<^sup>*\<^sup>* (talk_conn, \<lparr>gc_received = 0, gc_taken = 0, gc_alloc = 4\<rparr>) (talk_open 0 4, talk_credit 4)"
    by (simp add: talk_credit_def)
  from vsock_credit [OF talk.host_stream_axioms disjI1 [OF talk_conn_def] this]
  have "gc_received (talk_credit 4) \<le> gc_taken (talk_credit 4) + unat (gc_alloc (talk_credit 4))" by blast
  with run show ?thesis by (intro exI conjI) (auto simp: talk_credit_def)
qed

text \<open>
  (C21) A guest that respects the credit it is given is served: as long as the bytes it sent beyond the
  forwarded count it has seen fit the announced buffer and the stream at most blocks, its packet is
  accepted whole and the connection stays as it is.
\<close>

theorem vsock_honest_guest:
  assumes "host_stream G mb R S taken" and "only_blocks S" and "stream_inv off taken c acc"
    and "may_send (vc_state c)" and "pkt_op p = VSOCK_OP_RW" and "0 < pkt_len p"
    and "unat (pkt_len p) \<le> buf_size p" and "in_region R m p"
    and "seen \<le> length (taken (vc_stream c))"
    and "length acc + unat (pkt_len p) \<le> seen + unat CONN_TX_BUF_SIZE"
  shows "\<exists>c'. conn_send_pkt R S now m p c = Done c' \<and> vc_state c' = vc_state c
    \<and> taken (vc_stream c') @ txbuf_contents (vc_tx_buf c') = acc @ payload mb m p"
  using host_stream.send_honest [OF assms] by (simp add: conn_data_def)

lemma sample_in_region: "in_region page_regions tx_mem sample_pkt"
proof -
  have "bm_mapped tx_mem 0 4096" using page_mapped [of 0 4096] unfolding tx_mem_def by (simp add: bm_mapped_iff)
  moreover have "(2048 + of_nat k :: u64) < 4096" if "k < 4" for k
    using that unat_offset [of 2048 4 k] by (simp add: word_less_nat_alt)
  ultimately show ?thesis by (simp add: in_region_def page_regions_def sample_pkt_def)
qed

theorem vsock_honest_guest_witness:
  "\<exists>c'. conn_send_pkt page_regions script_stream 1 tx_mem sample_pkt (sample_conn\<lparr>vc_state := Established\<rparr>) = Done c'
    \<and> vc_state c' = Established
    \<and> ss_taken (vc_stream c') @ txbuf_contents (vc_tx_buf c') = payload bm_byte tx_mem sample_pkt"
proof -
  let ?c = "sample_conn\<lparr>vc_state := Established\<rparr>"
  have "only_blocks script_stream" by (simp add: only_blocks_def script_stream_def)
  moreover have "stream_inv 0 ss_taken ?c []"
    by (simp add: sample_conn_def new_peer_init_def stream_inv_def conn_wf_def counts_def conn_data_def
        txbuf_inv_new rxset.inv_single)
  moreover have "may_send (vc_state ?c)" by (simp add: may_send_def)
  moreover have "pkt_op sample_pkt = VSOCK_OP_RW" "0 < pkt_len sample_pkt" "unat (pkt_len sample_pkt) \<le> buf_size sample_pkt"
    "unat (pkt_len sample_pkt) = 4"
    by (simp_all add: sample_pkt_def pkt_len_def pkt_op_def header_default_def VSOCK_OP_RW_def)
  ultimately show ?thesis
    using vsock_honest_guest [OF ss.host_stream_axioms, of 0 ?c "[]" sample_pkt tx_mem 0 1] sample_in_region
    by (simp add: CONN_TX_BUF_SIZE_def)
qed

text \<open>The next packet of a connection is a data packet, for which the guest has room.\<close>

definition data_due :: "'s VsockConnection \<Rightarrow> bool" where
  "data_due c \<longleftrightarrow> rxset_abs (vc_pending_rx c) \<inter> {Rst, Response, Request} = {} \<and> Rw \<in> rxset_abs (vc_pending_rx c)
     \<and> (vc_state c = Established \<or> (\<exists>send_off. vc_state c = PeerClosed False send_off))
     \<and> \<not> need_credit_update_from_peer c"

lemma recv_no_buffer:
  assumes "conn_recv_pkt R S now m c p = (m', c', p', r)" and "buf_addr p = None" and "data_due c"
  shows "r = Ok () \<and> pkt_op p' = VSOCK_OP_RST \<and> m' = m"
proof -
  have none: "buf_region_addr R m q 0 (min (buf_size q) n) = Err PktBufMissing" if "buf_addr q = None" for q n
    using that by (simp add: buf_region_addr_def checked_nat_sub_def ok_or_def)
  have rw: "recv_rw R S now m d q = (m, d\<lparr>vc_last_fwd_cnt_to_peer := vc_fwd_cnt d\<rparr>, set_op VSOCK_OP_RST q, True)"
    if "vc_state d = vc_state c" "need_credit_update_from_peer d = need_credit_update_from_peer c" "buf_addr q = None" for d q
    using that assms(3)
    by (auto simp: recv_rw_def data_due_def read_at_offset_from_def none blocked_def Let_def)
  show ?thesis
    using assms
    by (auto simp: conn_recv_pkt_def take_rx_eq rxset_del data_due_def rw need_credit_update_from_peer_def
        peer_avail_credit_def)
qed

text \<open>
  (C29) Receiving a packet only fails for want of data, and then no indication is left; the indications
  stay among the five of the code. In particular a packet without a data buffer is no error when data
  is due: the connection answers with a reset.
\<close>

theorem vsock_recv_nodata:
  assumes "host_stream G mb R S taken" and "rxset_inv (vc_pending_rx c)"
    and "conn_recv_pkt R S now m c p = (m', c', p', r)"
  shows "rxset_inv (vc_pending_rx c') \<and> (\<forall>e. r = Err e \<longrightarrow> e = NoData \<and> \<not> has_pending_rx c')
    \<and> (buf_addr p = None \<and> data_due c \<longrightarrow> r = Ok () \<and> pkt_op p' = VSOCK_OP_RST \<and> m' = m)"
  using host_stream.recv_pkt_error [OF assms(1,3,2)] recv_no_buffer [OF assms(3)] by blast

theorem vsock_recv_nodata_witness:
  "(\<exists>m' c' p'. conn_recv_pkt page_regions script_stream 0 tx_mem (sample_conn\<lparr>vc_pending_rx := 0\<rparr>) sample_pkt
      = (m', c', p', Err NoData :: (unit, unit) VsockError + unit) \<and> \<not> has_pending_rx c')
   \<and> (let c = sample_conn\<lparr>vc_pending_rx := rxset_from Rw, vc_state := Established\<rparr>
      in data_due c \<and> (\<exists>c' p'. conn_recv_pkt page_regions script_stream 0 tx_mem c (sample_pkt\<lparr>buf_addr := None\<rparr>)
           = (tx_mem, c', p', Ok () :: (unit, unit) VsockError + unit) \<and> pkt_op p' = VSOCK_OP_RST))"
proof -
  have recv: "conn_recv_pkt page_regions script_stream 0 tx_mem (sample_conn\<lparr>vc_pending_rx := 0\<rparr>) sample_pkt
    = (tx_mem, sample_conn\<lparr>vc_pending_rx := 0\<rparr>, init_pkt (sample_conn\<lparr>vc_pending_rx := 0\<rparr>) sample_pkt,
       Err NoData :: (unit, unit) VsockError + unit)"
    by (simp add: conn_recv_pkt_def take_rx_def rxset_remove_def rxset_contains_def recv_credit_update_def)
  have "rxset_inv (vc_pending_rx (sample_conn\<lparr>vc_pending_rx := 0\<rparr>))" by (simp add: rxset_inv_def)
  note quiet = vsock_recv_nodata [OF ss.host_stream_axioms this recv]
  let ?c = "sample_conn\<lparr>vc_pending_rx := rxset_from Rw, vc_state := Established\<rparr>"
  have due: "data_due ?c"
    by (simp add: data_due_def rxset.abs_single sample_conn_def new_peer_init_def need_credit_update_from_peer_def peer_avail_credit_def)
  obtain m' c' p' and r :: "(unit, unit) VsockError + unit" where
    rp: "conn_recv_pkt page_regions script_stream 0 tx_mem ?c (sample_pkt\<lparr>buf_addr := None\<rparr>) = (m', c', p', r)"
    by (metis prod_cases4)
  have "rxset_inv (vc_pending_rx ?c)" by (simp add: rxset.inv_single)
  from vsock_recv_nodata [OF ss.host_stream_axioms this rp] due
  have "r = Ok ()" "pkt_op p' = VSOCK_OP_RST" "m' = tx_mem" by simp_all
  then show ?thesis using recv quiet rp due by (auto simp: Let_def)
qed

end
