(* ===== verification/VsockMuxer.thy ===== *)
theory VsockMuxer
  imports VsockConn PortRequest
begin

text \<open>
  The multiplexer of the vsock device (\<open>devices/src/virtio/vsock/unix/muxer.rs\<close>,
  \<open>muxer_rxq.rs\<close>, \<open>muxer_killq.rs\<close>): the connection pool, the queue of packets for the guest, the
  queue of connections to terminate and the listeners of the epoll instance.

  The operating system (sockets and epoll) is a state of its own with the operations the code calls; so
  is the order in which a hash map is walked. The clock is read once per operation, and sorting by kill
  time is stable.
\<close>

section \<open>The queue of packets for the guest\<close>

definition MAX_CONNECTIONS :: nat where "MAX_CONNECTIONS = 1023"
definition MUXER_RXQ_SIZE :: nat where "MUXER_RXQ_SIZE = 256"
definition MUXER_KILLQ_SIZE :: nat where "MUXER_KILLQ_SIZE = 128"

record ConnMapKey =
  key_local_port :: u32
  key_peer_port :: u32

datatype MuxerRx = ConnRx ConnMapKey | RstPkt u32 u32

record MuxerRxQ =
  rxq_q :: "MuxerRx list"
  rxq_synced :: bool

definition rxq_new :: MuxerRxQ where
  "rxq_new = \<lparr>rxq_q = [], rxq_synced = True\<rparr>"

text \<open>The loop over the connection pool, given as the list of its entries.\<close>

fun rxq_collect :: "(ConnMapKey \<times> 's VsockConnection) list \<Rightarrow> MuxerRx list \<Rightarrow> MuxerRxQ" where
  "rxq_collect [] q = \<lparr>rxq_q = q, rxq_synced = True\<rparr>"
| "rxq_collect ((key, conn) # rest) q =
     (if \<not> has_pending_rx conn then rxq_collect rest q
      else if MUXER_RXQ_SIZE \<le> length q then \<lparr>rxq_q = q, rxq_synced = False\<rparr>
      else rxq_collect rest (q @ [ConnRx key]))"

definition rxq_from_conn_map :: "(ConnMapKey \<times> 's VsockConnection) list \<Rightarrow> MuxerRxQ" where
  "rxq_from_conn_map pool = rxq_collect pool []"

definition rxq_is_full :: "MuxerRxQ \<Rightarrow> bool" where
  "rxq_is_full q \<longleftrightarrow> length (rxq_q q) = MUXER_RXQ_SIZE"

definition rxq_is_empty :: "MuxerRxQ \<Rightarrow> bool" where
  "rxq_is_empty q \<longleftrightarrow> length (rxq_q q) = 0"

text \<open>Replace the first connection of a list.\<close>

fun replace_conn :: "MuxerRx \<Rightarrow> MuxerRx list \<Rightarrow> MuxerRx list option" where
  "replace_conn rx [] = None"
| "replace_conn rx (ConnRx _ # qs) = Some (rx # qs)"
| "replace_conn rx (RstPkt l p # qs) = map_option ((#) (RstPkt l p)) (replace_conn rx qs)"

definition rxq_push :: "MuxerRx \<Rightarrow> MuxerRxQ \<Rightarrow> MuxerRxQ \<times> bool" where
  "rxq_push rx q =
     (if rxq_synced q \<and> \<not> rxq_is_full q then (q\<lparr>rxq_q := rxq_q q @ [rx]\<rparr>, True)
      else case rx of
        RstPkt _ _ \<Rightarrow>
          (case replace_conn rx (rev (rxq_q q)) of
             Some q' \<Rightarrow> (q\<lparr>rxq_q := rev q', rxq_synced := False\<rparr>, True)
           | None \<Rightarrow> (q, False))
      | ConnRx _ \<Rightarrow> (q\<lparr>rxq_synced := False\<rparr>, False))"

definition rxq_peek :: "MuxerRxQ \<Rightarrow> MuxerRx option" where
  "rxq_peek q = (case rxq_q q of [] \<Rightarrow> None | rx # _ \<Rightarrow> Some rx)"

definition rxq_pop :: "MuxerRxQ \<Rightarrow> MuxerRxQ \<times> MuxerRx option" where
  "rxq_pop q = (case rxq_q q of [] \<Rightarrow> (q, None) | rx # rest \<Rightarrow> (q\<lparr>rxq_q := rest\<rparr>, Some rx))"

section \<open>The queue of connections to terminate\<close>

record MuxerKillQItem =
  ki_key :: ConnMapKey
  ki_kill_time :: nat

record MuxerKillQ =
  killq_q :: "MuxerKillQItem list"
  killq_synced :: bool

definition killq_new :: MuxerKillQ where
  "killq_new = \<lparr>killq_q = [], killq_synced = True\<rparr>"

definition killq_is_full :: "MuxerKillQ \<Rightarrow> bool" where
  "killq_is_full q \<longleftrightarrow> length (killq_q q) = MUXER_KILLQ_SIZE"

definition killq_is_empty :: "MuxerKillQ \<Rightarrow> bool" where
  "killq_is_empty q \<longleftrightarrow> length (killq_q q) = 0"

fun killq_collect ::
  "nat \<Rightarrow> (ConnMapKey \<times> 's VsockConnection) list \<Rightarrow> MuxerKillQItem list \<Rightarrow> (MuxerKillQItem list \<times> bool) exec" where
  "killq_collect now [] q = Done (q, True)"
| "killq_collect now ((key, conn) # rest) q =
     (if \<not> will_expire now conn then killq_collect now rest q
      else if MUXER_KILLQ_SIZE \<le> length q then Done (q, False)
      else case vc_expiry conn of
        None \<Rightarrow> Panic
      | Some t \<Rightarrow> killq_collect now rest (q @ [\<lparr>ki_key = key, ki_kill_time = t\<rparr>]))"

definition killq_from_conn_map :: "nat \<Rightarrow> (ConnMapKey \<times> 's VsockConnection) list \<Rightarrow> MuxerKillQ exec" where
  "killq_from_conn_map now pool =
     ebind (killq_collect now pool [])
       (\<lambda>(q_buf, synced). Done \<lparr>killq_q = sort_key ki_kill_time q_buf, killq_synced = synced\<rparr>)"

definition killq_push :: "ConnMapKey \<Rightarrow> nat \<Rightarrow> MuxerKillQ \<Rightarrow> MuxerKillQ" where
  "killq_push key kill_time q =
     (if \<not> killq_synced q \<or> killq_is_full q then q\<lparr>killq_synced := False\<rparr>
      else q\<lparr>killq_q := killq_q q @ [\<lparr>ki_key = key, ki_kill_time = kill_time\<rparr>]\<rparr>)"

definition killq_pop :: "nat \<Rightarrow> MuxerKillQ \<Rightarrow> MuxerKillQ \<times> ConnMapKey option" where
  "killq_pop now q =
     (case killq_q q of
        [] \<Rightarrow> (q, None)
      | item # rest \<Rightarrow>
          if ki_kill_time item < now then (q\<lparr>killq_q := rest\<rparr>, Some (ki_key item)) else (q, None))"

section \<open>The multiplexer\<close>

type_synonym RawFd = int

datatype 's EpollListener = Connection ConnMapKey EventSet | HostSock | LocalStream 's

datatype ControlOperation = Add | Modify | Delete

record ('s, 'io, 'w) MuxerEnv =
  epoll_ctl :: "'w \<Rightarrow> ControlOperation \<Rightarrow> RawFd \<Rightarrow> EventSet \<Rightarrow> 'w \<times> ('io + unit)"
  bind_listener :: "'w \<Rightarrow> u8 list \<Rightarrow> 'w \<times> ('io + RawFd)"
  listener_nonblocking :: "RawFd \<Rightarrow> 'io + unit"
  epoll_create :: "'w \<Rightarrow> 'w \<times> ('io + unit)"
  epoll_wait :: "'w \<Rightarrow> 'w \<times> ('io + (RawFd \<times> u32) list)"
  evset_from_bits :: "u32 \<Rightarrow> EventSet option"
  accept :: "'w \<Rightarrow> 'w \<times> ('io + 's)"
  connect :: "'w \<Rightarrow> u8 list \<Rightarrow> 'w \<times> ('io + 's)"
  set_nonblocking :: "'s \<Rightarrow> 'io + unit"
  as_raw_fd :: "'s \<Rightarrow> RawFd"
  read_exact :: "'s \<Rightarrow> nat \<Rightarrow> 's \<times> ('io + u8 list)"
  conn_iter :: "(ConnMapKey \<rightharpoonup> 's VsockConnection) \<Rightarrow> (ConnMapKey \<times> 's VsockConnection) list"

record ('s, 'w) VsockMuxer =
  mx_cid :: u64
  mx_conn_map :: "ConnMapKey \<rightharpoonup> 's VsockConnection"
  mx_listener_map :: "RawFd \<rightharpoonup> 's EpollListener"
  mx_rxq :: MuxerRxQ
  mx_killq :: MuxerKillQ
  mx_os :: 'w
  mx_host_sock_path :: "u8 list"
  mx_local_port_set :: "u32 set"
  mx_local_port_last :: u32

text \<open>Sequencing for operations that may panic or not return.\<close>

definition xbind :: "'a exec option \<Rightarrow> ('a \<Rightarrow> 'b exec option) \<Rightarrow> 'b exec option" where
  "xbind x f = (case x of None \<Rightarrow> None | Some Panic \<Rightarrow> Some Panic | Some (Done a) \<Rightarrow> f a)"

lemma xbind_simps [simp]:
  "xbind None f = None" "xbind (Some Panic) f = Some Panic" "xbind (Some (Done a)) f = f a"
  by (simp_all add: xbind_def)

definition add_listener ::
  "('s, 'io, 'w) MuxerEnv \<Rightarrow> RawFd \<Rightarrow> 's EpollListener \<Rightarrow> ('s, 'w) VsockMuxer \<Rightarrow>
   ('s, 'w) VsockMuxer \<times> ('io MuxerError + unit)" where
  "add_listener E fd listener mx =
     (let evset = (case listener of Connection _ evset \<Rightarrow> evset | LocalStream _ \<Rightarrow> EPOLLIN | HostSock \<Rightarrow> EPOLLIN)
      in case epoll_ctl E (mx_os mx) Add fd evset of
           (os, Inl e) \<Rightarrow> (mx\<lparr>mx_os := os\<rparr>, Err (EpollAdd e))
         | (os, Inr _) \<Rightarrow> (mx\<lparr>mx_os := os, mx_listener_map := (mx_listener_map mx)(fd \<mapsto> listener)\<rparr>, Ok ()))"

definition remove_listener ::
  "('s, 'io, 'w) MuxerEnv \<Rightarrow> RawFd \<Rightarrow> ('s, 'w) VsockMuxer \<Rightarrow> ('s, 'w) VsockMuxer \<times> 's EpollListener option" where
  "remove_listener E fd mx =
     (case mx_listener_map mx fd of
        None \<Rightarrow> (mx, None)
      | Some l \<Rightarrow>
          (mx\<lparr>mx_listener_map := (mx_listener_map mx)(fd := None),
              mx_os := fst (epoll_ctl E (mx_os mx) Delete fd 0)\<rparr>, Some l))"

definition mx_push_rx :: "MuxerRx \<Rightarrow> ('s, 'w) VsockMuxer \<Rightarrow> ('s, 'w) VsockMuxer" where
  "mx_push_rx rx mx = mx\<lparr>mx_rxq := fst (rxq_push rx (mx_rxq mx))\<rparr>"

definition enq_rst :: "u32 \<Rightarrow> u32 \<Rightarrow> ('s, 'w) VsockMuxer \<Rightarrow> ('s, 'w) VsockMuxer" where
  "enq_rst local_port peer_port mx = mx_push_rx (RstPkt local_port peer_port) mx"

definition free_local_port :: "u32 \<Rightarrow> ('s, 'w) VsockMuxer \<Rightarrow> ('s, 'w) VsockMuxer" where
  "free_local_port port mx = mx\<lparr>mx_local_port_set := mx_local_port_set mx - {port}\<rparr>"

definition remove_connection ::
  "('s, 'io, 'w) MuxerEnv \<Rightarrow> ConnMapKey \<Rightarrow> ('s, 'w) VsockMuxer \<Rightarrow> ('s, 'w) VsockMuxer" where
  "remove_connection E key mx =
     (let mx = (case mx_conn_map mx key of
          None \<Rightarrow> mx
        | Some conn \<Rightarrow>
            fst (remove_listener E (as_raw_fd E (vc_stream conn))
              (mx\<lparr>mx_conn_map := (mx_conn_map mx)(key := None)\<rparr>)))
      in free_local_port (key_local_port key) mx)"

definition kill_connection :: "ConnMapKey \<Rightarrow> ('s, 'w) VsockMuxer \<Rightarrow> ('s, 'w) VsockMuxer" where
  "kill_connection key mx =
     (let (mx, had_rx) = (case mx_conn_map mx key of
          None \<Rightarrow> (mx, False)
        | Some conn \<Rightarrow> (mx\<lparr>mx_conn_map := (mx_conn_map mx)(key \<mapsto> kill conn)\<rparr>, has_pending_rx conn))
      in if had_rx then mx else mx_push_rx (ConnRx key) mx)"

text \<open>\<open>format!("OK {}\n", port)\<close>\<close>

definition ack_msg :: "u32 \<Rightarrow> u8 list" where
  "ack_msg port = [79, 75, 32] @ dec_digits (unat port) @ [10]"

text \<open>The acknowledgement of a connection of the host that has just been established.\<close>

definition ack_connection ::
  "('m, 'ge, 'io, 's) StreamOps \<Rightarrow> ConnMapKey \<Rightarrow> 's VsockConnection \<Rightarrow> 's VsockConnection" where
  "ack_connection S key conn =
     (let msg = ack_msg (key_local_port key)
      in case send_bytes_raw S msg conn of
           (conn, Inr written) \<Rightarrow> if written = length msg then conn else kill conn
         | (conn, Inl _) \<Rightarrow> kill conn)"

text \<open>Bring the listener of a connection up to date with the events it wants.\<close>

definition update_listener ::
  "('s, 'io, 'w) MuxerEnv \<Rightarrow> ConnMapKey \<Rightarrow> 's VsockConnection \<Rightarrow> ('s, 'w) VsockMuxer \<Rightarrow> ('s, 'w) VsockMuxer" where
  "update_listener E key conn mx =
     (let fd = as_raw_fd E (vc_stream conn); new_evset = conn_get_polled_evset conn
      in if new_evset = 0 then fst (remove_listener E fd mx)
         else case mx_listener_map mx fd of
           Some (Connection k evset) \<Rightarrow>
             if evset \<noteq> new_evset then
               (let mx = mx\<lparr>mx_listener_map := (mx_listener_map mx)(fd \<mapsto> Connection k new_evset)\<rparr>
                in case epoll_ctl E (mx_os mx) Modify fd new_evset of
                     (os, Inr _) \<Rightarrow> mx\<lparr>mx_os := os\<rparr>
                   | (os, Inl _) \<Rightarrow> kill_connection key (mx\<lparr>mx_os := os\<rparr>))
             else mx
         | _ \<Rightarrow>
             (case add_listener E fd (Connection key new_evset) mx of
                (mx, Inr _) \<Rightarrow> mx
              | (mx, Inl _) \<Rightarrow> kill_connection key mx))"

definition apply_conn_mutation ::
  "('s, 'io, 'w) MuxerEnv \<Rightarrow> ('m, 'ge, 'io, 's) StreamOps \<Rightarrow> nat \<Rightarrow> ConnMapKey \<Rightarrow>
   ('s VsockConnection \<Rightarrow> ('s VsockConnection \<times> 'r) exec option) \<Rightarrow> 'r \<Rightarrow> ('s, 'w) VsockMuxer \<Rightarrow>
   (('s, 'w) VsockMuxer \<times> 'r) exec option" where
  "apply_conn_mutation E S now key mut_fn dflt mx =
     (case mx_conn_map mx key of
        None \<Rightarrow> Some (Done (mx, dflt))
      | Some conn \<Rightarrow>
          let had_rx = has_pending_rx conn; was_expiring = will_expire now conn; prev_state = vc_state conn
          in xbind (mut_fn conn) (\<lambda>(conn, res).
               let conn = (if prev_state = LocalInit \<and> vc_state conn = Established
                           then ack_connection S key conn else conn);
                   mx = mx\<lparr>mx_conn_map := (mx_conn_map mx)(key \<mapsto> conn)\<rparr>;
                   mx = (if \<not> had_rx \<and> has_pending_rx conn then mx_push_rx (ConnRx key) mx else mx)
               in xbind
                    (if \<not> was_expiring \<and> will_expire now conn
                     then (case vc_expiry conn of
                             None \<Rightarrow> Some Panic
                           | Some t \<Rightarrow> Some (Done (mx\<lparr>mx_killq := killq_push key t (mx_killq mx)\<rparr>)))
                     else Some (Done mx))
                    (\<lambda>mx. Some (Done (update_listener E key conn mx, res)))))"

lemma kill_connection_killq [simp]: "mx_killq (kill_connection key mx) = mx_killq mx"
  by (simp add: kill_connection_def mx_push_rx_def split: option.split prod.split)

lemma killq_pop_Some:
  "killq_pop now q = (q', Some key) \<longleftrightarrow>
   (\<exists>item. killq_q q = item # killq_q q' \<and> ki_kill_time item < now \<and> key = ki_key item \<and> killq_synced q' = killq_synced q)"
  by (cases q; cases q') (auto simp: killq_pop_def split: list.split_asm if_split_asm)

text \<open>The loop over the expired entries of the kill queue; it ends with the queue.\<close>

function sweep_expired :: "nat \<Rightarrow> ('s, 'w) VsockMuxer \<Rightarrow> ('s, 'w) VsockMuxer" where
  "sweep_expired now mx =
     (case killq_pop now (mx_killq mx) of
        (q, None) \<Rightarrow> mx
      | (q, Some key) \<Rightarrow>
          let mx = mx\<lparr>mx_killq := q\<rparr>;
              kl = (case mx_conn_map mx key of None \<Rightarrow> False | Some conn \<Rightarrow> has_expired now conn)
          in sweep_expired now (if kl then kill_connection key mx else mx))"
  by pat_completeness auto

termination
  by (relation "measure (\<lambda>(now, mx). length (killq_q (mx_killq mx)))") (auto simp: killq_pop_Some dest!: sym [of "(_, Some _)"])

declare sweep_expired.simps [simp del]

partial_function (option) sweep_killq ::
  "('s, 'io, 'w) MuxerEnv \<Rightarrow> nat \<Rightarrow> ('s, 'w) VsockMuxer \<Rightarrow> ('s, 'w) VsockMuxer exec option" where
  "sweep_killq E now mx =
     (let mx = sweep_expired now mx
      in if killq_is_empty (mx_killq mx) \<and> \<not> killq_synced (mx_killq mx)
         then (case killq_from_conn_map now (conn_iter E (mx_conn_map mx)) of
                 Panic \<Rightarrow> Some Panic
               | Done q \<Rightarrow> sweep_killq E now (mx\<lparr>mx_killq := q\<rparr>))
         else Some (Done mx))"

definition add_connection ::
  "('s, 'io, 'w) MuxerEnv \<Rightarrow> nat \<Rightarrow> ConnMapKey \<Rightarrow> 's VsockConnection \<Rightarrow> ('s, 'w) VsockMuxer \<Rightarrow>
   (('s, 'w) VsockMuxer \<times> ('io MuxerError + unit)) exec option" where
  "add_connection E now key conn mx =
     xbind (sweep_killq E now mx) (\<lambda>mx.
       if MAX_CONNECTIONS \<le> length (conn_iter E (mx_conn_map mx)) then Some (Done (mx, Err TooManyConnections))
       else case add_listener E (as_raw_fd E (vc_stream conn)) (Connection key (conn_get_polled_evset conn)) mx of
         (mx, Inl e) \<Rightarrow> Some (Done (mx, Err e))
       | (mx, Inr _) \<Rightarrow>
           let mx = (if has_pending_rx conn then mx_push_rx (ConnRx key) mx else mx)
           in Some (Done (mx\<lparr>mx_conn_map := (mx_conn_map mx)(key \<mapsto> conn)\<rparr>, Ok ())))"

text \<open>The loop that looks for a free port may not end, when there is none.\<close>

definition next_local_port :: "u32 \<Rightarrow> u32" where
  "next_local_port p = ((p + 1) AND NOT (push_bit 31 1)) OR push_bit 30 1"

partial_function (option) allocate_local_port ::
  "('s, 'w) VsockMuxer \<Rightarrow> (('s, 'w) VsockMuxer \<times> u32) option" where
  "allocate_local_port mx =
     (let mx = mx\<lparr>mx_local_port_last := next_local_port (mx_local_port_last mx)\<rparr>
      in if mx_local_port_last mx \<in> mx_local_port_set mx then allocate_local_port mx
         else Some (mx\<lparr>mx_local_port_set := insert (mx_local_port_last mx) (mx_local_port_set mx)\<rparr>,
                    mx_local_port_last mx))"

text \<open>\<open>format!("{}_{}", path, port)\<close>\<close>

definition port_path :: "u8 list \<Rightarrow> u32 \<Rightarrow> u8 list" where
  "port_path path port = path @ [95] @ dec_digits (unat port)"

definition handle_peer_request_pkt ::
  "('s, 'io, 'w) MuxerEnv \<Rightarrow> nat \<Rightarrow> VsockPacket \<Rightarrow> ('s, 'w) VsockMuxer \<Rightarrow> ('s, 'w) VsockMuxer exec option" where
  "handle_peer_request_pkt E now pkt mx =
     (let rst = (\<lambda>mx. enq_rst (pkt_dst_port pkt) (pkt_src_port pkt) mx)
      in case connect E (mx_os mx) (port_path (mx_host_sock_path mx) (pkt_dst_port pkt)) of
           (os, Inl _) \<Rightarrow> Some (Done (rst (mx\<lparr>mx_os := os\<rparr>)))
         | (os, Inr stream) \<Rightarrow>
             let mx = mx\<lparr>mx_os := os\<rparr>
             in case set_nonblocking E stream of
                  Inl _ \<Rightarrow> Some (Done (rst mx))
                | Inr _ \<Rightarrow>
                    xbind (add_connection E now \<lparr>key_local_port = pkt_dst_port pkt, key_peer_port = pkt_src_port pkt\<rparr>
                        (new_peer_init stream VSOCK_HOST_CID (mx_cid mx) (pkt_dst_port pkt) (pkt_src_port pkt)
                          (pkt_buf_alloc pkt)) mx)
                      (\<lambda>(mx, r). Some (Done (case r of Inl _ \<Rightarrow> rst mx | Inr _ \<Rightarrow> mx))))"

definition handle_event ::
  "('s, 'io, 'w) MuxerEnv \<Rightarrow> ('m, 'ge, 'io, 's) StreamOps \<Rightarrow> nat \<Rightarrow> RawFd \<Rightarrow> EventSet \<Rightarrow> ('s, 'w) VsockMuxer \<Rightarrow>
   ('s, 'w) VsockMuxer exec option" where
  "handle_event E S now fd event_set mx =
     (case mx_listener_map mx fd of
        Some (Connection key _) \<Rightarrow>
          xbind (apply_conn_mutation E S now key
                   (\<lambda>conn. xbind (conn_notify S event_set conn) (\<lambda>conn. Some (Done (conn, ())))) () mx)
            (\<lambda>(mx, _). Some (Done mx))
      | Some HostSock \<Rightarrow>
          (case accept E (mx_os mx) of
             (os, r) \<Rightarrow>
               let full = (length (conn_iter E (mx_conn_map mx)) = MAX_CONNECTIONS); mx = mx\<lparr>mx_os := os\<rparr>
               in Some (Done (case r of
                    Inl _ \<Rightarrow> mx
                  | Inr stream \<Rightarrow>
                      if full then mx
                      else case set_nonblocking E stream of
                        Inl _ \<Rightarrow> mx
                      | Inr _ \<Rightarrow> fst (add_listener E (as_raw_fd E stream) (LocalStream stream) mx))))
      | Some (LocalStream _) \<Rightarrow>
          (case remove_listener E fd mx of
             (mx, Some (LocalStream stream)) \<Rightarrow>
               (case read_local_stream_port (read_exact E) stream of
                  (stream, Inl _) \<Rightarrow> Some (Done mx)
                | (stream, Inr peer_port) \<Rightarrow>
                    Option.bind (allocate_local_port mx) (\<lambda>(mx, local_port).
                      xbind (add_connection E now \<lparr>key_local_port = local_port, key_peer_port = peer_port\<rparr>
                          (new_local_init stream VSOCK_HOST_CID (mx_cid mx) local_port peer_port) mx)
                        (\<lambda>(mx, _). Some (Done mx))))
           | (mx, _) \<Rightarrow> Some (Done mx))
      | None \<Rightarrow> Some (Done mx))"

text \<open>The reset packet that answers an unexpected packet.\<close>

definition rst_pkt :: "u64 \<Rightarrow> u32 \<Rightarrow> u32 \<Rightarrow> VsockPacket \<Rightarrow> VsockPacket" where
  "rst_pkt cid local_port peer_port pkt =
     set_fwd_cnt 0 (set_buf_alloc 0 (set_flags 0 (set_type VSOCK_TYPE_STREAM (set_len 0
       (set_dst_port peer_port (set_src_port local_port (set_dst_cid cid (set_src_cid VSOCK_HOST_CID
         (set_op VSOCK_OP_RST pkt)))))))))"

text \<open>The packet of a connection, and whether the connection has nothing more to say.\<close>

definition recv_from_conn ::
  "'m RegionOps \<Rightarrow> ('m, 'ge, 'io, 's) StreamOps \<Rightarrow> nat \<Rightarrow> 'm \<Rightarrow> VsockPacket \<Rightarrow> 's VsockConnection \<Rightarrow>
   ('s VsockConnection \<times> 'm \<times> VsockPacket \<times> (('ge, 'io) VsockError + unit) \<times> bool) exec option" where
  "recv_from_conn R S now m pkt conn =
     (case conn_recv_pkt R S now m conn pkt of
        (m, conn, pkt, r) \<Rightarrow> Some (Done (conn, m, pkt, r, \<not> has_pending_rx conn)))"

partial_function (option) recv_loop ::
  "('s, 'io, 'w) MuxerEnv \<Rightarrow> 'm RegionOps \<Rightarrow> ('m, 'ge, 'io, 's) StreamOps \<Rightarrow> nat \<Rightarrow> 'm \<Rightarrow> VsockPacket \<Rightarrow>
   ('s, 'w) VsockMuxer \<Rightarrow> ('m \<times> VsockPacket \<times> ('s, 'w) VsockMuxer \<times> (('ge, 'io) VsockError + unit)) exec option" where
  "recv_loop E R S now m pkt mx =
     (case rxq_peek (mx_rxq mx) of
        None \<Rightarrow> Some (Done (m, pkt, mx, Err NoData))
      | Some (RstPkt local_port peer_port) \<Rightarrow>
          Some (Done (m, rst_pkt (mx_cid mx) local_port peer_port pkt,
                      mx\<lparr>mx_rxq := fst (rxq_pop (mx_rxq mx))\<rparr>, Ok ()))
      | Some (ConnRx key) \<Rightarrow>
          (case apply_conn_mutation E S now key (recv_from_conn R S now m pkt) (m, pkt, Err NoData, True) mx of
             None \<Rightarrow> None
           | Some Panic \<Rightarrow> Some Panic
           | Some (Done (mx, m, pkt, conn_res, do_pop)) \<Rightarrow>
               if do_pop \<and> snd (rxq_pop (mx_rxq mx)) = None then Some Panic
               else let mx = (if do_pop then mx\<lparr>mx_rxq := fst (rxq_pop (mx_rxq mx))\<rparr> else mx)
                    in case conn_res of
                         Inr _ \<Rightarrow>
                           Some (Done (m, pkt,
                             if pkt_op pkt = VSOCK_OP_RST
                             then remove_connection E \<lparr>key_local_port = pkt_src_port pkt, key_peer_port = pkt_dst_port pkt\<rparr> mx
                             else mx, Ok ()))
                       | Inl _ \<Rightarrow> recv_loop E R S now m pkt mx))"

definition mux_recv_pkt ::
  "('s, 'io, 'w) MuxerEnv \<Rightarrow> 'm RegionOps \<Rightarrow> ('m, 'ge, 'io, 's) StreamOps \<Rightarrow> nat \<Rightarrow> 'm \<Rightarrow> VsockPacket \<Rightarrow>
   ('s, 'w) VsockMuxer \<Rightarrow> ('m \<times> VsockPacket \<times> ('s, 'w) VsockMuxer \<times> (('ge, 'io) VsockError + unit)) exec option" where
  "mux_recv_pkt E R S now m pkt mx =
     recv_loop E R S now m pkt
       (if rxq_is_empty (mx_rxq mx) \<and> \<not> rxq_synced (mx_rxq mx)
        then mx\<lparr>mx_rxq := rxq_from_conn_map (conn_iter E (mx_conn_map mx))\<rparr> else mx)"

definition mux_send_pkt ::
  "('s, 'io, 'w) MuxerEnv \<Rightarrow> 'm RegionOps \<Rightarrow> ('m, 'ge, 'io, 's) StreamOps \<Rightarrow> nat \<Rightarrow> 'm \<Rightarrow> VsockPacket \<Rightarrow>
   ('s, 'w) VsockMuxer \<Rightarrow> ('s, 'w) VsockMuxer exec option" where
  "mux_send_pkt E R S now m pkt mx =
     (let conn_key = \<lparr>key_local_port = pkt_dst_port pkt, key_peer_port = pkt_src_port pkt\<rparr>
      in if pkt_type pkt \<noteq> VSOCK_TYPE_STREAM then Some (Done (enq_rst (pkt_dst_port pkt) (pkt_src_port pkt) mx))
         else if pkt_dst_cid pkt \<noteq> VSOCK_HOST_CID then Some (Done mx)
         else if mx_conn_map mx conn_key = None then
           (if pkt_op pkt = VSOCK_OP_REQUEST then handle_peer_request_pkt E now pkt mx
            else Some (Done (enq_rst (pkt_dst_port pkt) (pkt_src_port pkt) mx)))
         else if pkt_op pkt = VSOCK_OP_RST then Some (Done (remove_connection E conn_key mx))
         else xbind (apply_conn_mutation E S now conn_key
                (\<lambda>conn. Some (ebind (conn_send_pkt R S now m pkt conn) (\<lambda>conn. Done (conn, ())))) () mx)
              (\<lambda>(mx, _). Some (Done mx)))"

definition mux_has_pending_rx :: "('s, 'w) VsockMuxer \<Rightarrow> bool" where
  "mux_has_pending_rx mx \<longleftrightarrow> \<not> rxq_is_empty (mx_rxq mx) \<or> \<not> rxq_synced (mx_rxq mx)"

text \<open>The loop over the events; \<open>EventSet::from_bits(ev.events).unwrap()\<close> panics on an unknown flag.\<close>

fun handle_events ::
  "('s, 'io, 'w) MuxerEnv \<Rightarrow> ('m, 'ge, 'io, 's) StreamOps \<Rightarrow> nat \<Rightarrow> (RawFd \<times> u32) list \<Rightarrow> ('s, 'w) VsockMuxer \<Rightarrow>
   ('s, 'w) VsockMuxer exec option" where
  "handle_events E S now [] mx = Some (Done mx)"
| "handle_events E S now ((fd, events) # rest) mx =
     (case evset_from_bits E events of
        None \<Rightarrow> Some Panic
      | Some event_set \<Rightarrow> xbind (handle_event E S now fd event_set mx) (handle_events E S now rest))"

definition mux_notify ::
  "('s, 'io, 'w) MuxerEnv \<Rightarrow> ('m, 'ge, 'io, 's) StreamOps \<Rightarrow> nat \<Rightarrow> ('s, 'w) VsockMuxer \<Rightarrow>
   ('s, 'w) VsockMuxer exec option" where
  "mux_notify E S now mx =
     (case epoll_wait E (mx_os mx) of
        (os, Inl _) \<Rightarrow> Some (Done (mx\<lparr>mx_os := os\<rparr>))
      | (os, Inr events) \<Rightarrow> handle_events E S now events (mx\<lparr>mx_os := os\<rparr>))"

definition mux_new ::
  "('s, 'io, 'w) MuxerEnv \<Rightarrow> 'w \<Rightarrow> u64 \<Rightarrow> u8 list \<Rightarrow> 'w \<times> ('io MuxerError + ('s, 'w) VsockMuxer)" where
  "mux_new E os cid path =
     (case bind_listener E os path of
        (os, Inl e) \<Rightarrow> (os, Err (UnixBind e))
      | (os, Inr fd) \<Rightarrow>
          (case listener_nonblocking E fd of
             Inl e \<Rightarrow> (os, Err (UnixBind e))
           | Inr _ \<Rightarrow>
               (case epoll_create E os of
                  (os, Inl e) \<Rightarrow> (os, Err (EpollFdCreate e))
                | (os, Inr _) \<Rightarrow>
                    (case add_listener E fd HostSock
                       \<lparr>mx_cid = cid, mx_conn_map = Map.empty, mx_listener_map = Map.empty, mx_rxq = rxq_new,
                        mx_killq = killq_new, mx_os = os, mx_host_sock_path = path, mx_local_port_set = {},
                        mx_local_port_last = push_bit 30 1 - 1\<rparr> of
                       (mx, Inl e) \<Rightarrow> (mx_os mx, Err e)
                     | (mx, Inr _) \<Rightarrow> (mx_os mx, Ok mx)))))"

section \<open>Connections in the pool\<close>

text \<open>
  What the multiplexer relies on: a killed connection owes the guest a reset, and a connection of the
  host never has a response pending.
\<close>

definition conn_good :: "'s VsockConnection \<Rightarrow> bool" where
  "conn_good c \<longleftrightarrow> conn_wf c
     \<and> (vc_state c = Killed \<longrightarrow> Rst \<in> rxset_abs (vc_pending_rx c))
     \<and> (vc_state c = LocalInit \<longrightarrow> Response \<notin> rxset_abs (vc_pending_rx c))"

definition keyed :: "ConnMapKey \<Rightarrow> 's VsockConnection \<Rightarrow> bool" where
  "keyed key c \<longleftrightarrow> vc_local_port c = key_local_port key \<and> vc_peer_port c = key_peer_port key"

text \<open>What an operation on a connection keeps.\<close>

definition conn_frame :: "'s VsockConnection \<Rightarrow> 's VsockConnection \<Rightarrow> bool" where
  "conn_frame c c' \<longleftrightarrow> vc_local_port c' = vc_local_port c \<and> vc_peer_port c' = vc_peer_port c
     \<and> (vc_state c' = LocalInit \<longrightarrow> vc_state c = LocalInit)
     \<and> (Response \<in> rxset_abs (vc_pending_rx c') \<longrightarrow> Response \<in> rxset_abs (vc_pending_rx c))"

lemma conn_frame_refl [simp]: "conn_frame c c"
  by (simp add: conn_frame_def)

lemma conn_frame_trans: "conn_frame a b \<Longrightarrow> conn_frame b c \<Longrightarrow> conn_frame a c"
  by (auto simp: conn_frame_def)

lemma conn_frame_keyed: "conn_frame c c' \<Longrightarrow> keyed key c' \<longleftrightarrow> keyed key c"
  by (simp add: conn_frame_def keyed_def)

lemma conn_frame_insert: "i \<noteq> Response \<Longrightarrow> conn_frame c (vc_insert_rx i c)"
  by (auto simp: conn_frame_def vc_insert_rx_def rxset.abs_ins)

lemma conn_frame_kill: "conn_frame c (kill c)"
  by (simp add: conn_frame_def kill_def vc_insert_rx_def rxset.abs_ins)

lemma conn_good_kill: "conn_wf c \<Longrightarrow> conn_good (kill c)"
  by (simp add: conn_good_def conn_wf_def rxset.inv_ins rxset.abs_ins)

lemma has_pending_kill [simp]: "conn_wf c \<Longrightarrow> has_pending_rx (kill c)"
  by (simp add: has_pending_rx_def conn_wf_def rxset.not_empty_ins)

lemma send_control_frame: "conn_frame c (send_control_pkt now p c)"
  by (cases "vc_state c"; simp add: send_control_pkt_def shutdown_flags_def Let_def conn_frame_insert)
    (simp_all add: conn_frame_def vc_insert_rx_def rxset.abs_ins)

lemma send_bytes_frame:
  "send_bytes R S m p c = Done (c', r) \<Longrightarrow>
   vc_local_port c' = vc_local_port c \<and> vc_peer_port c' = vc_peer_port c \<and> vc_state c' = vc_state c
   \<and> vc_pending_rx c' = vc_pending_rx c"
  by (auto simp: send_bytes_def ebind_Done Let_def split: if_split_asm sum.split_asm prod.split_asm)

lemma send_pkt_frame:
  fixes S :: "('m, 'ge, 'io, 's) StreamOps"
  assumes "conn_send_pkt R S now m p c = Done c'"
  shows "conn_frame c c'"
proof -
  let ?c = "c\<lparr>vc_peer_buf_alloc := pkt_buf_alloc p, vc_peer_fwd_cnt := pkt_fwd_cnt p\<rparr>"
  have c: "conn_frame c ?c" by (simp add: conn_frame_def)
  have "conn_frame ?c c'"
  proof (cases "may_send (vc_state c) \<and> pkt_op p = VSOCK_OP_RW \<and> buf_size p \<noteq> 0")
    case False
    then show ?thesis
      using assms send_control_frame [of ?c now p] by (auto simp: conn_send_pkt_def Let_def split: if_split_asm)
  next
    case True
    then obtain c1 and r :: "('ge, 'io) VsockError + unit" where sb: "send_bytes R S m p ?c = Done (c1, r)"
      using assms by (cases "send_bytes R S m p ?c") (auto simp: conn_send_pkt_def)
    have "conn_frame ?c c1" using send_bytes_frame [OF sb] by (simp add: conn_frame_def)
    moreover have "c' = kill c1 \<or> c' = c1 \<or> c' = vc_insert_rx CreditUpdate c1"
      using assms True sb by (cases r) (auto simp: conn_send_pkt_def)
    ultimately show ?thesis using conn_frame_trans conn_frame_kill conn_frame_insert [of CreditUpdate c1] by blast
  qed
  then show ?thesis by (rule conn_frame_trans [OF c])
qed

lemma notify_frame:
  assumes "conn_notify S ev c = Some (Done c')"
  shows "conn_frame c c'"
proof -
  define c0 where "c0 = (if evset_contains ev EPOLLIN then vc_insert_rx Rw c else c)"
  have c0: "conn_frame c c0" by (simp add: c0_def conn_frame_insert)
  have "conn_frame c0 c'"
  proof (cases "\<not> evset_contains ev EPOLLOUT \<or> txbuf_is_empty (vc_tx_buf c0)")
    case True
    then show ?thesis using assms by (simp add: conn_notify_def Let_def c0_def [symmetric])
  next
    case False
    then obtain b s r where "txbuf_flush_to (stream_write S) (vc_tx_buf c0) (vc_stream c0) = Some (Done (b, s, r))"
      using assms
      by (auto simp: conn_notify_def Let_def c0_def [symmetric] ebind_Done bind_eq_Some_conv)
    then show ?thesis
      using assms False
      by (auto simp: conn_notify_def Let_def c0_def [symmetric] conn_frame_def vc_insert_rx_def kill_def
          rxset.abs_ins split: sum.split_asm if_split_asm)
  qed
  then show ?thesis by (rule conn_frame_trans [OF c0])
qed

text \<open>The packet for the guest carries the ports of its connection.\<close>

definition pkt_ports :: "VsockPacket \<Rightarrow> u32 \<times> u32" where
  "pkt_ports p = (pkt_src_port p, pkt_dst_port p)"

lemma pkt_ports_simps [simp]:
  "pkt_ports (set_op v p) = pkt_ports p" "pkt_ports (set_flag f p) = pkt_ports p"
  "pkt_ports (set_len l p) = pkt_ports p" "pkt_ports (init_pkt c p) = (vc_local_port c, vc_peer_port c)"
  by (simp_all add: pkt_ports_def pkt_defs init_pkt_def)

lemma recv_rw_ports: "recv_rw R S now m c p = (m', c', p', filled) \<Longrightarrow> pkt_ports p' = pkt_ports p"
  by (auto simp: recv_rw_def Let_def split: if_split_asm prod.split_asm sum.split_asm)

lemma recv_credit_update_ports: "recv_credit_update m c p = (m', c', p', r) \<Longrightarrow> pkt_ports p' = pkt_ports p"
  by (auto simp: recv_credit_update_def split: if_split_asm prod.split_asm)

lemma recv_pkt_ports:
  "conn_recv_pkt R S now m c p = (m', c', p', r) \<Longrightarrow> pkt_ports p' = (vc_local_port c, vc_peer_port c)"
  by (simp add: conn_recv_pkt_def take_rx_eq Let_def split: if_split_asm prod.split_asm)
    (auto dest!: recv_rw_ports recv_credit_update_ports)

context host_stream
begin

lemma recv_rw_frame_conn:
  "recv_rw R S now m c p = (m', c', p', filled) \<Longrightarrow>
   vc_local_port c' = vc_local_port c \<and> vc_peer_port c' = vc_peer_port c
   \<and> (vc_state c' = LocalInit \<longrightarrow> vc_state c = LocalInit)"
  by (erule recv_rw_cases) simp_all

lemma recv_pkt_frame:
  assumes recv: "conn_recv_pkt R S now m c p = (m', c', p', r :: ('ge, 'io) VsockError + unit)"
  shows "conn_frame c c'"
proof (cases "Rst \<in> rxset_abs (vc_pending_rx c)")
  case True
  then show ?thesis using recv by (auto simp: recv_pkt_rst conn_frame_def rxset_del)
next
  case False
  with recv show ?thesis
  proof (cases rule: recv_pkt_cases)
    case (control s st ex f)
    then show ?thesis by (auto simp: conn_frame_def)
  next
    case (rw s cr pr filled s' f)
    then show ?thesis using recv_rw_frame_conn [OF rw(1)] by (auto simp: conn_frame_def)
  qed
qed

text \<open>
  A connection is well formed after a packet for the guest, and good unless the packet was a reset. An
  error is the want of data, leaves nothing pending, and comes from a connection with no reset pending.
\<close>

lemma conn_good_stream:
  assumes "conn_good c"
  shows "\<exists>off. stream_inv off taken c (conn_data taken c)"
proof
  let ?off = "of_nat (length (taken (vc_stream c))) - vc_fwd_cnt c"
  show "stream_inv ?off taken c (conn_data taken c)"
    using assms by (simp add: conn_good_def stream_inv_def counts_def)
qed

lemma conn_good_frame: "stream_inv off taken c' acc \<Longrightarrow> conn_frame c c' \<Longrightarrow> conn_good c \<Longrightarrow> conn_good c'"
  by (simp add: conn_good_def stream_inv_def conn_frame_def split: if_split_asm) blast

lemma send_pkt_good:
  assumes "conn_good c"
  obtains c' where "conn_send_pkt R S now m p c = Done c'" and "conn_good c'" and "conn_frame c c'"
proof -
  obtain off where "stream_inv off taken c (conn_data taken c)" using conn_good_stream [OF assms] ..
  then obtain c' where c': "conn_send_pkt R S now m p c = Done c'"
    "stream_inv off taken c' (conn_data taken c @ accepted mem_byte m p c)"
    by (rule send_pkt_stream)
  have "conn_frame c c'" by (rule send_pkt_frame [OF c'(1)])
  with that [OF c'(1) conn_good_frame [OF c'(2) _ assms]] show thesis by simp
qed

lemma notify_good:
  assumes "conn_good c"
  obtains c' where "conn_notify S ev c = Some (Done c')" and "conn_good c'" and "conn_frame c c'"
proof -
  obtain off where "stream_inv off taken c (conn_data taken c)" using conn_good_stream [OF assms] ..
  then obtain c' where c': "conn_notify S ev c = Some (Done c')" "stream_inv off taken c' (conn_data taken c)"
    by (rule notify_stream)
  have "conn_frame c c'" by (rule notify_frame [OF c'(1)])
  with that [OF c'(1) conn_good_frame [OF c'(2) _ assms]] show thesis by simp
qed

lemma recv_pkt_good:
  assumes recv: "conn_recv_pkt R S now m c p = (m', c', p', r :: ('ge, 'io) VsockError + unit)" and good: "conn_good c"
  shows "conn_wf c'" and "r = Ok () \<and> pkt_op p' = VSOCK_OP_RST \<or> conn_good c'"
    and "r = Err e \<Longrightarrow> e = NoData \<and> \<not> has_pending_rx c' \<and> Rst \<notin> rxset_abs (vc_pending_rx c)"
proof -
  obtain off where inv: "stream_inv off taken c (conn_data taken c)" using conn_good_stream [OF good] ..
  show "r = Ok () \<and> pkt_op p' = VSOCK_OP_RST \<or> conn_good c'"
    using recv_pkt_stream [OF recv inv] conn_good_frame [OF _ recv_pkt_frame [OF recv] good] by blast
  have tx: "vc_tx_buf c' = vc_tx_buf c"
  proof (cases "Rst \<in> rxset_abs (vc_pending_rx c)")
    case True
    then show ?thesis using recv by (auto simp: recv_pkt_rst)
  next
    case False
    with recv show ?thesis
      by (cases rule: recv_pkt_cases) (auto dest: recv_rw_effect)
  qed
  note err = recv_pkt_error [OF recv]
  show "conn_wf c'" using err good tx by (simp add: conn_good_def conn_wf_def)
  show "r = Err e \<Longrightarrow> e = NoData \<and> \<not> has_pending_rx c' \<and> Rst \<notin> rxset_abs (vc_pending_rx c)"
    using err good recv by (auto simp: conn_good_def conn_wf_def recv_pkt_rst)
qed

end

section \<open>The invariant of the multiplexer\<close>

text \<open>
  While the queue of packets is synchronized, every connection with something to say is in it.
\<close>

definition rx_complete :: "MuxerRxQ \<Rightarrow> (ConnMapKey \<rightharpoonup> 's VsockConnection) \<Rightarrow> bool" where
  "rx_complete q pool \<longleftrightarrow> (rxq_synced q \<longrightarrow>
     (\<forall>key c. pool key = Some c \<and> has_pending_rx c \<longrightarrow> ConnRx key \<in> set (rxq_q q)))"

text \<open>The pool is bounded and filed by port; connections outside of \<open>X\<close> are good.\<close>

definition pool_ok :: "ConnMapKey set \<Rightarrow> (ConnMapKey \<rightharpoonup> 's VsockConnection) \<Rightarrow> bool" where
  "pool_ok X pool \<longleftrightarrow> finite (dom pool) \<and> card (dom pool) \<le> MAX_CONNECTIONS
     \<and> (\<forall>key c. pool key = Some c \<longrightarrow> keyed key c \<and> conn_wf c \<and> (key \<in> X \<or> conn_good c))"

definition mux_inv_except :: "ConnMapKey set \<Rightarrow> ('s, 'w) VsockMuxer \<Rightarrow> bool" where
  "mux_inv_except X mx \<longleftrightarrow> pool_ok X (mx_conn_map mx) \<and> rx_complete (mx_rxq mx) (mx_conn_map mx)
     \<and> length (rxq_q (mx_rxq mx)) \<le> MUXER_RXQ_SIZE \<and> length (killq_q (mx_killq mx)) \<le> MUXER_KILLQ_SIZE"

abbreviation mux_inv :: "('s, 'w) VsockMuxer \<Rightarrow> bool" where
  "mux_inv \<equiv> mux_inv_except {}"

lemma replace_conn_length: "replace_conn rx q = Some q' \<Longrightarrow> length q' = length q"
  by (induction rx q arbitrary: q' rule: replace_conn.induct) auto

text \<open>A push that keeps the queue synchronized keeps its entries; only a packet may be dropped.\<close>

lemma rxq_push_synced:
  "rxq_synced (fst (rxq_push rx q)) \<Longrightarrow>
   rxq_synced q \<and> (rxq_q (fst (rxq_push rx q)) = rxq_q q @ [rx] \<or> fst (rxq_push rx q) = q \<and> (\<exists>l p. rx = RstPkt l p))"
  by (auto simp: rxq_push_def split: if_split_asm MuxerRx.split_asm option.split_asm)

lemma rxq_push_length:
  assumes "length (rxq_q q) \<le> MUXER_RXQ_SIZE"
  shows "length (rxq_q (fst (rxq_push rx q))) \<le> MUXER_RXQ_SIZE"
    and "length (rxq_q q) \<le> length (rxq_q (fst (rxq_push rx q)))"
  using assms
  by (auto simp: rxq_push_def rxq_is_full_def dest: replace_conn_length split: MuxerRx.split option.split)

lemma rxq_push_conn:
  "rxq_q (fst (rxq_push (ConnRx key) q)) = rxq_q q \<or> rxq_q (fst (rxq_push (ConnRx key) q)) = rxq_q q @ [ConnRx key]"
  by (simp add: rxq_push_def)

lemma rx_complete_push: "rx_complete q pool \<Longrightarrow> rx_complete (fst (rxq_push rx q)) pool"
  using rxq_push_synced [of rx q] by (auto simp: rx_complete_def)

lemma rx_complete_pushed:
  assumes "rx_complete q pool"
  shows "rx_complete (fst (rxq_push (ConnRx key) q)) (pool(key \<mapsto> c))"
  using assms rxq_push_synced [of "ConnRx key" q] by (auto simp: rx_complete_def)

lemma rx_complete_upd:
  assumes "rx_complete q pool" and "has_pending_rx c' \<Longrightarrow> pool key = Some c \<and> has_pending_rx c"
  shows "rx_complete q (pool(key \<mapsto> c'))"
  using assms by (auto simp: rx_complete_def)

lemma pool_ok_upd:
  assumes "pool_ok X pool" and "keyed key c" and "conn_wf c" and "key \<in> Y \<or> conn_good c" and "X \<subseteq> insert key Y"
    and "key \<in> dom pool \<or> card (dom pool) < MAX_CONNECTIONS"
  shows "pool_ok Y (pool(key \<mapsto> c))"
proof -
  have "card (insert key (dom pool)) \<le> MAX_CONNECTIONS"
    using assms(1,6) by (auto simp: pool_ok_def insert_absorb card_insert_if)
  then show ?thesis using assms by (auto simp: pool_ok_def)
qed

lemma pool_ok_mono: "pool_ok X pool \<Longrightarrow> X \<subseteq> Y \<Longrightarrow> pool_ok Y pool"
  by (auto simp: pool_ok_def)

lemma pool_ok_del:
  assumes "pool_ok {key} pool"
  shows "pool_ok {} (pool(key := None))"
  using assms card_Diff_subset [of "{key}" "dom pool"] card_mono [of "dom pool" "dom pool - {key}"]
  by (auto simp: pool_ok_def)

lemma enq_rst_inv [intro]: "mux_inv mx \<Longrightarrow> mux_inv (enq_rst l p mx)"
  by (simp add: mux_inv_except_def enq_rst_def mx_push_rx_def rx_complete_push rxq_push_length)

lemma kill_connection_eq:
  "kill_connection key mx = (case mx_conn_map mx key of
     None \<Rightarrow> mx_push_rx (ConnRx key) mx
   | Some c \<Rightarrow>
       let mx' = mx\<lparr>mx_conn_map := (mx_conn_map mx)(key \<mapsto> kill c)\<rparr>
       in if has_pending_rx c then mx' else mx_push_rx (ConnRx key) mx')"
  by (simp add: kill_connection_def Let_def split: option.split)

lemma kill_connection_inv:
  assumes "mux_inv_except X mx"
  shows "mux_inv_except X (kill_connection key mx)"
proof (cases "mx_conn_map mx key")
  case None
  then show ?thesis
    using assms by (simp add: kill_connection_eq mux_inv_except_def mx_push_rx_def rx_complete_push rxq_push_length)
next
  case (Some c)
  have c: "keyed key c" "conn_wf c" using assms Some by (simp_all add: mux_inv_except_def pool_ok_def)
  have "pool_ok X ((mx_conn_map mx)(key \<mapsto> kill c))"
    using assms Some c
    by (intro pool_ok_upd [of X])
      (auto simp: mux_inv_except_def conn_frame_keyed [OF conn_frame_kill] conn_good_kill
        dest: conn_good_kill [of c, unfolded conn_good_def])
  then show ?thesis
    using assms Some rx_complete_upd [of "mx_rxq mx" "mx_conn_map mx" "kill c" key c]
      rx_complete_pushed [of "mx_rxq mx" "mx_conn_map mx" key "kill c"]
    by (simp add: kill_connection_eq Let_def mux_inv_except_def mx_push_rx_def rxq_push_length)
qed

lemma kill_connection_simps [simp]:
  "mx_local_port_set (kill_connection key mx) = mx_local_port_set mx"
  "mx_listener_map (kill_connection key mx) = mx_listener_map mx"
  by (simp_all add: kill_connection_eq mx_push_rx_def Let_def split: option.split)

lemma remove_listener_simps [simp]:
  "mx_conn_map (fst (remove_listener E fd mx)) = mx_conn_map mx"
  "mx_rxq (fst (remove_listener E fd mx)) = mx_rxq mx" "mx_killq (fst (remove_listener E fd mx)) = mx_killq mx"
  "mx_local_port_set (fst (remove_listener E fd mx)) = mx_local_port_set mx"
  by (simp_all add: remove_listener_def split: option.split)

lemma add_listener_simps [simp]:
  "mx_conn_map (fst (add_listener E fd l mx)) = mx_conn_map mx"
  "mx_rxq (fst (add_listener E fd l mx)) = mx_rxq mx" "mx_killq (fst (add_listener E fd l mx)) = mx_killq mx"
  "mx_local_port_set (fst (add_listener E fd l mx)) = mx_local_port_set mx"
  by (simp_all add: add_listener_def Let_def split: prod.split sum.split)

lemma remove_connection_inv:
  assumes "mux_inv_except {key} mx"
  shows "mux_inv (remove_connection E key mx)"
proof (cases "mx_conn_map mx key")
  case None
  then have "pool_ok {} (mx_conn_map mx)"
    using assms by (auto simp: mux_inv_except_def pool_ok_def) (metis option.distinct(1))
  then show ?thesis using assms None by (simp add: remove_connection_def free_local_port_def mux_inv_except_def)
next
  case (Some c)
  have "rx_complete (mx_rxq mx) ((mx_conn_map mx)(key := None))"
    using assms by (simp add: mux_inv_except_def rx_complete_def)
  then show ?thesis
    using assms Some pool_ok_del [of key "mx_conn_map mx"]
    by (simp add: remove_connection_def free_local_port_def mux_inv_except_def)
qed

text \<open>
  What a mutation of a connection does: the new connection, acknowledged when it has just been
  established, is filed, killed if its listener cannot be updated, and queued if it is the first to say
  something.
\<close>

definition acked ::
  "('m, 'ge, 'io, 's) StreamOps \<Rightarrow> ConnMapKey \<Rightarrow> 's VsockConnection \<Rightarrow> 's VsockConnection \<Rightarrow> 's VsockConnection" where
  "acked S key c c1 =
     (if vc_state c = LocalInit \<and> vc_state c1 = Established then ack_connection S key c1 else c1)"

text \<open>Listeners and epoll do not touch the rest.\<close>

definition same_core :: "('s, 'w) VsockMuxer \<Rightarrow> ('s, 'w) VsockMuxer \<Rightarrow> bool" where
  "same_core mx mx' \<longleftrightarrow> mx_conn_map mx' = mx_conn_map mx \<and> mx_rxq mx' = mx_rxq mx \<and> mx_killq mx' = mx_killq mx
     \<and> mx_local_port_set mx' = mx_local_port_set mx"

lemma same_core_add: "add_listener E fd l mx = (mx', r) \<Longrightarrow> same_core mx mx'"
  using add_listener_simps [of E fd l mx] by (simp add: same_core_def)

lemma same_core_remove: "same_core mx (fst (remove_listener E fd mx))"
  by (simp add: same_core_def)

lemma update_listener_cases:
  "\<exists>mx'. same_core mx mx' \<and> (update_listener E key c mx = mx' \<or> update_listener E key c mx = kill_connection key mx')"
proof (cases "conn_get_polled_evset c = 0")
  case True
  then show ?thesis using same_core_remove [of mx E] by (auto simp: update_listener_def)
next
  case ev: False
  let ?fd = "as_raw_fd E (vc_stream c)" and ?ev = "conn_get_polled_evset c"
  obtain mxa ra where add: "add_listener E ?fd (Connection key ?ev) mx = (mxa, ra)" by fastforce
  show ?thesis
  proof (cases "\<exists>k evset. mx_listener_map mx ?fd = Some (Connection k evset)")
    case False
    then have "update_listener E key c mx = mxa \<or> update_listener E key c mx = kill_connection key mxa"
      using ev add by (cases ra) (auto simp: update_listener_def Let_def split: option.split EpollListener.split)
    then show ?thesis using same_core_add [OF add] by blast
  next
    case True
    then obtain k evset where l: "mx_listener_map mx ?fd = Some (Connection k evset)" by blast
    obtain os r where ctl: "epoll_ctl E (mx_os mx) Modify ?fd ?ev = (os, r)" by fastforce
    let ?mx = "mx\<lparr>mx_listener_map := (mx_listener_map mx)(?fd \<mapsto> Connection k ?ev), mx_os := os\<rparr>"
    have "same_core mx ?mx" "same_core mx mx" by (simp_all add: same_core_def)
    moreover have "update_listener E key c mx \<in> {mx, ?mx, kill_connection key ?mx}"
      using ev l ctl by (cases r) (simp_all add: update_listener_def Let_def)
    ultimately show ?thesis by blast
  qed
qed

lemma apply_effect:
  assumes c: "mx_conn_map mx key = Some c" and mut: "mut c = Some (Done (c1, res))"
    and kq: "length (killq_q (mx_killq mx)) \<le> MUXER_KILLQ_SIZE"
  obtains mx' killed where "apply_conn_mutation E S now key mut dflt mx = Some (Done (mx', res))"
    and "mx_conn_map mx' = (mx_conn_map mx)(key \<mapsto> if killed then kill (acked S key c c1) else acked S key c c1)"
    and "mx_rxq mx' =
      (if \<not> has_pending_rx c \<and> has_pending_rx (acked S key c c1) \<or> killed \<and> \<not> has_pending_rx (acked S key c c1)
       then fst (rxq_push (ConnRx key) (mx_rxq mx)) else mx_rxq mx)"
    and "length (killq_q (mx_killq mx')) \<le> MUXER_KILLQ_SIZE"
    and "mx_local_port_set mx' = mx_local_port_set mx"
proof -
  define c2 where "c2 = acked S key c c1"
  define mx1 where "mx1 = mx\<lparr>mx_conn_map := (mx_conn_map mx)(key \<mapsto> c2)\<rparr>"
  define mx2 where "mx2 = (if \<not> has_pending_rx c \<and> has_pending_rx c2 then mx_push_rx (ConnRx key) mx1 else mx1)"
  define mx3 where "mx3 = (if \<not> will_expire now c \<and> will_expire now c2
    then mx2\<lparr>mx_killq := killq_push key (the (vc_expiry c2)) (mx_killq mx2)\<rparr> else mx2)"
  have app: "apply_conn_mutation E S now key mut dflt mx = Some (Done (update_listener E key c2 mx3, res))"
    using c mut
    by (auto simp: apply_conn_mutation_def Let_def c2_def acked_def mx1_def mx2_def mx3_def will_expire_def
        split: option.split)
  have mx3: "mx_conn_map mx3 = (mx_conn_map mx)(key \<mapsto> c2)" "mx_local_port_set mx3 = mx_local_port_set mx"
    "mx_rxq mx3 = (if \<not> has_pending_rx c \<and> has_pending_rx c2
       then fst (rxq_push (ConnRx key) (mx_rxq mx)) else mx_rxq mx)"
    "length (killq_q (mx_killq mx3)) \<le> MUXER_KILLQ_SIZE"
    using kq by (simp_all add: mx3_def mx2_def mx1_def mx_push_rx_def killq_push_def killq_is_full_def)
  obtain mx4 where mx4: "update_listener E key c2 mx3 = mx4 \<or> update_listener E key c2 mx3 = kill_connection key mx4"
    "mx_conn_map mx4 = mx_conn_map mx3" "mx_rxq mx4 = mx_rxq mx3" "mx_killq mx4 = mx_killq mx3"
    "mx_local_port_set mx4 = mx_local_port_set mx3"
    using update_listener_cases [of mx3 E key c2] unfolding same_core_def by blast
  from mx4(1) show thesis
  proof
    assume "update_listener E key c2 mx3 = mx4"
    then show thesis
      using that [of mx4 False] app mx3 mx4 by (simp flip: c2_def)
  next
    assume "update_listener E key c2 mx3 = kill_connection key mx4"
    then show thesis
      using that [of "kill_connection key mx4" True] app mx3 mx4
      by (simp add: kill_connection_eq Let_def mx_push_rx_def flip: c2_def)
  qed
qed

lemma ack_connection_cases:
  "\<exists>s. ack_connection S key c = c\<lparr>vc_stream := s\<rparr> \<or> ack_connection S key c = kill (c\<lparr>vc_stream := s\<rparr>)"
proof -
  obtain s r where "stream_write S (vc_stream c) (ack_msg (key_local_port key)) = (s, r)" by fastforce
  then show ?thesis
    by (cases r) (auto simp: ack_connection_def send_bytes_raw_def Let_def)
qed

lemma acked_keeps:
  assumes "conn_wf c1"
  shows "conn_wf (acked S key c c1)" and "conn_good c1 \<Longrightarrow> conn_good (acked S key c c1)"
    and "conn_frame c1 (acked S key c c1)"
proof -
  obtain s where s: "ack_connection S key c1 = c1\<lparr>vc_stream := s\<rparr> \<or> ack_connection S key c1 = kill (c1\<lparr>vc_stream := s\<rparr>)"
    using ack_connection_cases [of S key c1] ..
  have 1: "conn_wf (c1\<lparr>vc_stream := s\<rparr>)" "conn_good c1 \<Longrightarrow> conn_good (c1\<lparr>vc_stream := s\<rparr>)"
    "conn_frame c1 (c1\<lparr>vc_stream := s\<rparr>)"
    using assms by (simp_all add: conn_wf_def conn_good_def conn_frame_def)
  then have "conn_wf (kill (c1\<lparr>vc_stream := s\<rparr>))" "conn_good (kill (c1\<lparr>vc_stream := s\<rparr>))"
    "conn_frame c1 (kill (c1\<lparr>vc_stream := s\<rparr>))"
    using conn_good_kill [of "c1\<lparr>vc_stream := s\<rparr>"] conn_frame_trans [OF 1(3) conn_frame_kill]
    by (simp_all add: conn_good_def)
  with 1 s assms show "conn_wf (acked S key c c1)" "conn_good c1 \<Longrightarrow> conn_good (acked S key c c1)"
    "conn_frame c1 (acked S key c c1)"
    by (auto simp: acked_def)
qed

lemma apply_inv:
  assumes inv: "mux_inv mx" and c: "mx_conn_map mx key = Some c" and mut: "mut c = Some (Done (c1, res))"
    and c1: "conn_wf c1" "conn_frame c c1" "key \<in> Y \<or> conn_good c1"
  shows "\<exists>mx'. apply_conn_mutation E S now key mut dflt mx = Some (Done (mx', res)) \<and> mux_inv_except Y mx'
    \<and> mx_local_port_set mx' = mx_local_port_set mx"
proof -
  let ?c = "acked S key c c1"
  have kq: "length (killq_q (mx_killq mx)) \<le> MUXER_KILLQ_SIZE" using inv by (simp add: mux_inv_except_def)
  obtain mx' killed where app: "apply_conn_mutation E S now key mut dflt mx = Some (Done (mx', res))"
    and cm: "mx_conn_map mx' = (mx_conn_map mx)(key \<mapsto> if killed then kill ?c else ?c)"
    and rq: "mx_rxq mx' = (if \<not> has_pending_rx c \<and> has_pending_rx ?c \<or> killed \<and> \<not> has_pending_rx ?c
       then fst (rxq_push (ConnRx key) (mx_rxq mx)) else mx_rxq mx)"
    and rest: "length (killq_q (mx_killq mx')) \<le> MUXER_KILLQ_SIZE" "mx_local_port_set mx' = mx_local_port_set mx"
    by (rule apply_effect [of mx key c mut c1 res, OF c mut kq])
  note ack = acked_keeps [OF c1(1), of S key c]
  have "keyed key c" using inv c by (simp add: mux_inv_except_def pool_ok_def)
  then have "keyed key ?c" using conn_frame_keyed conn_frame_trans [OF c1(2) ack(3)] by blast
  then have "pool_ok Y (mx_conn_map mx')"
    unfolding cm using inv c c1(3) ack conn_good_kill [OF ack(1)]
    by (intro pool_ok_upd [of "{}"])
      (auto simp: mux_inv_except_def conn_frame_keyed [OF conn_frame_kill] conn_good_def)
  moreover have "rx_complete (mx_rxq mx') (mx_conn_map mx')"
    unfolding rq cm using inv c
    by (auto simp: mux_inv_except_def intro!: rx_complete_pushed rx_complete_upd [where c = c])
  ultimately show ?thesis
    using app rest inv rq by (auto simp: mux_inv_except_def rxq_push_length)
qed

section \<open>Terminating expired connections\<close>

lemma sweep_expired_inv:
  assumes "mux_inv mx"
  shows "mux_inv (sweep_expired now mx) \<and> mx_local_port_set (sweep_expired now mx) = mx_local_port_set mx"
  using assms
proof (induction now mx rule: sweep_expired.induct)
  case (1 now mx)
  obtain q k where pop: "killq_pop now (mx_killq mx) = (q, k)" by fastforce
  show ?case
  proof (cases k)
    case None
    then show ?thesis using 1(2) pop by (subst (1 2) sweep_expired.simps) simp
  next
    case (Some key)
    let ?mx = "mx\<lparr>mx_killq := q\<rparr>"
    let ?kl = "case mx_conn_map ?mx key of None \<Rightarrow> False | Some conn \<Rightarrow> has_expired now conn"
    have "mux_inv ?mx" using 1(2) pop Some by (auto simp: mux_inv_except_def killq_pop_Some)
    then have "mux_inv (if ?kl then kill_connection key ?mx else ?mx)" by (simp add: kill_connection_inv)
    note IH = 1(1) [OF pop [symmetric, unfolded Some] refl refl refl this]
    have "sweep_expired now mx = sweep_expired now (if ?kl then kill_connection key ?mx else ?mx)"
      using pop Some by (subst sweep_expired.simps) (simp add: Let_def)
    then show ?thesis using IH by simp
  qed
qed

lemma killq_collect_Done:
  assumes "length q \<le> MUXER_KILLQ_SIZE" and "\<forall>it \<in> set q. now < ki_kill_time it"
  shows "\<exists>q' synced. killq_collect now pool q = Done (q', synced) \<and> length q' \<le> MUXER_KILLQ_SIZE
    \<and> (\<forall>it \<in> set q'. now < ki_kill_time it) \<and> (\<not> synced \<longrightarrow> q' \<noteq> [])"
  using assms
proof (induction now pool q rule: killq_collect.induct)
  case (2 now key conn rest q)
  consider "\<not> will_expire now conn" | "will_expire now conn" "MUXER_KILLQ_SIZE \<le> length q"
    | "will_expire now conn" "\<not> MUXER_KILLQ_SIZE \<le> length q" by blast
  then show ?case
  proof cases
    case 1
    then show ?thesis using 2(1,3,4) by simp
  next
    case 2
    then have "q \<noteq> []" by (auto simp: MUXER_KILLQ_SIZE_def)
    then show ?thesis using 2 \<open>length q \<le> MUXER_KILLQ_SIZE\<close> \<open>\<forall>it \<in> set q. now < ki_kill_time it\<close> by auto
  next
    case 3
    then obtain t where t: "vc_expiry conn = Some t" "now < t" by (auto simp: will_expire_def split: option.split_asm)
    let ?q = "q @ [\<lparr>ki_key = key, ki_kill_time = t\<rparr>]"
    have "killq_collect now ((key, conn) # rest) q = killq_collect now rest ?q" using 3 t(1) by simp
    moreover have "length ?q \<le> MUXER_KILLQ_SIZE" "\<forall>it \<in> set ?q. now < ki_kill_time it" using 3 2(4) t(2) by auto
    ultimately show ?thesis using 2(2) [OF _ _ t(1)] 3 by simp
  qed
qed auto

lemma sweep_none: "\<forall>it \<in> set (killq_q (mx_killq mx)). now \<le> ki_kill_time it \<Longrightarrow> sweep_expired now mx = mx"
  by (subst sweep_expired.simps) (auto simp: killq_pop_def split: list.split)

lemma sweep_killq_stable:
  assumes "\<forall>it \<in> set (killq_q (mx_killq mx)). now \<le> ki_kill_time it"
    and "killq_q (mx_killq mx) = [] \<Longrightarrow> killq_synced (mx_killq mx)"
  shows "sweep_killq E now mx = Some (Done mx)"
  by (cases "killq_q (mx_killq mx) = []"; subst sweep_killq.simps;
      simp add: sweep_none [OF assms(1)] assms(2) killq_is_empty_def)

lemma sweep_killq_inv:
  assumes "mux_inv mx"
  shows "\<exists>mx'. sweep_killq E now mx = Some (Done mx') \<and> mux_inv mx' \<and> mx_local_port_set mx' = mx_local_port_set mx"
proof (cases "killq_is_empty (mx_killq (sweep_expired now mx)) \<and> \<not> killq_synced (mx_killq (sweep_expired now mx))")
  case False
  then show ?thesis using sweep_expired_inv [OF assms, of now] by (subst sweep_killq.simps) auto
next
  case True
  let ?mx = "sweep_expired now mx"
  obtain q synced where q: "killq_collect now (conn_iter E (mx_conn_map ?mx)) [] = Done (q, synced)"
    "length q \<le> MUXER_KILLQ_SIZE" "\<forall>it \<in> set q. now < ki_kill_time it" "\<not> synced \<longrightarrow> q \<noteq> []"
    using killq_collect_Done [of "[]" now "conn_iter E (mx_conn_map ?mx)"] by auto
  let ?q = "\<lparr>killq_q = sort_key ki_kill_time q, killq_synced = synced\<rparr>"
  have "sweep_killq E now mx = sweep_killq E now (?mx\<lparr>mx_killq := ?q\<rparr>)"
    using True q(1) by (subst sweep_killq.simps) (simp add: killq_from_conn_map_def)
  also have "\<dots> = Some (Done (?mx\<lparr>mx_killq := ?q\<rparr>))"
  proof (rule sweep_killq_stable)
    have "length (sort_key ki_kill_time q) = length q" by simp
    then show "killq_q (mx_killq (?mx\<lparr>mx_killq := ?q\<rparr>)) = [] \<Longrightarrow> killq_synced (mx_killq (?mx\<lparr>mx_killq := ?q\<rparr>))"
      using q(4) by auto
  qed (use q(3) in \<open>simp add: less_imp_le\<close>)
  finally show ?thesis
    using sweep_expired_inv [OF assms, of now] q(2) by (simp add: mux_inv_except_def)
qed

end
