(* ===== verification/VsockMuxerRun.thy ===== *)
theory VsockMuxerRun
  imports VsockMuxer "HOL-Library.Product_Lexorder"
begin

text \<open>
  The multiplexer of the vsock device over its life: every operation returns, keeps the bounds of the
  queues and of the connection pool, and never forgets a connection that has something to say to the
  guest. \<open>vsock_mux\<close> adds what is documented of a hash map's iterator and of \<open>epoll_wait\<close> to the
  contract of the host streams.
\<close>

section \<open>Local ports\<close>

lemma unat_next_local_port: "unat (next_local_port p) = 2 ^ 30 + (unat p + 1) mod 2 ^ 30"
proof -
  define a b where "a = push_bit 30 (1 :: u32)" and "b = push_bit 31 (1 :: u32)"
  have pb: "k < 32 \<Longrightarrow> bit (push_bit k (1 :: u32)) n \<longleftrightarrow> n = k" for k n by (auto simp: bit_simps)
  have ab: "bit a n \<longleftrightarrow> n = 30" "bit b n \<longleftrightarrow> n = 31" for n unfolding a_def b_def by (rule pb, simp)+
  have "next_local_port p = a OR take_bit 30 (p + 1)"
    unfolding next_local_port_def a_def [symmetric] b_def [symmetric]
    by (rule bit_word_eqI) (auto simp: bit_or_iff bit_and_iff bit_not_iff bit_take_bit_iff ab)
  also have "\<dots> = a + take_bit 30 (p + 1)"
    by (rule disjunctive_add [symmetric]) (auto simp: bit_take_bit_iff ab)
  finally have "next_local_port p = a + take_bit 30 (p + 1)" .
  moreover have "unat (take_bit 30 (p + 1)) = (unat p + 1) mod 2 ^ 30"
    by (simp add: take_bit_eq_mod unat_mod unat_word_ariths mod_mod_cancel)
  moreover have "unat a = 2 ^ 30" by (simp add: a_def)
  moreover have "(unat p + 1) mod 2 ^ 30 < 2 ^ 30" by simp
  ultimately show ?thesis by (simp add: unat_add_small)
qed

lemma mod_shift: "(m + x mod m + 1) mod m = Suc x mod (m :: nat)"
  by (metis Suc_eq_plus1 mod_Suc_eq mod_add_self1 add.assoc)

lemma mod_shift_inj:
  assumes "(a + i) mod m = (a + j) mod m" and "i < m" and "j < (m :: nat)"
  shows "i = j"
proof -
  have "y = x" if "(a + x) mod m = (a + y) mod m" "y < m" "x \<le> y" for x y
    using that mod_eq_dvd_iff_nat [of "a + x" "a + y" m] dvd_imp_le [of m "y - x"] by fastforce
  from this [OF assms(1,3)] this [OF assms(1) [symmetric] assms(2)] nat_le_linear [of i j] show ?thesis by blast
qed

lemma unat_ports: "unat ((next_local_port ^^ Suc j) p) = 2 ^ 30 + (unat p + Suc j) mod 2 ^ 30"
proof (induction j)
  case 0
  then show ?case by (simp add: unat_next_local_port)
next
  case (Suc j)
  then show ?case
    using unat_next_local_port [of "(next_local_port ^^ Suc j) p"] mod_shift [of "2 ^ 30" "unat p + Suc j"]
    by (simp only: funpow.simps o_apply add_Suc_right)
qed

lemma ports_inj: "inj_on (\<lambda>j. (next_local_port ^^ Suc j) p) {..<2 ^ 30}"
proof (rule inj_onI)
  fix i j :: nat
  assume ij: "i \<in> {..<2 ^ 30}" "j \<in> {..<2 ^ 30}"
    and "(next_local_port ^^ Suc i) p = (next_local_port ^^ Suc j) p"
  then have "(Suc (unat p) + i) mod 2 ^ 30 = (Suc (unat p) + j) mod 2 ^ 30"
    using unat_ports [of i p] unat_ports [of j p] by (metis add_left_imp_eq add_Suc_shift)
  then show "i = j" by (rule mod_shift_inj) (use ij in \<open>simp_all only: lessThan_iff\<close>)
qed

lemma free_port_exists:
  assumes "card (P :: u32 set) < 2 ^ 30"
  shows "\<exists>j. (next_local_port ^^ Suc j) p \<notin> P"
proof (rule ccontr)
  assume "\<nexists>j. (next_local_port ^^ Suc j) p \<notin> P"
  then have "(\<lambda>j. (next_local_port ^^ Suc j) p) ` {..<2 ^ 30} \<subseteq> P" by blast
  from card_mono [OF finite this] have "2 ^ 30 \<le> card P" by (simp only: card_image [OF ports_inj] card_lessThan)
  then show False using assms by simp
qed

lemma allocate_finds:
  assumes "\<And>i. i < j \<Longrightarrow> (next_local_port ^^ Suc i) (mx_local_port_last mx) \<in> mx_local_port_set mx"
    and "(next_local_port ^^ Suc j) (mx_local_port_last mx) = port" and "port \<notin> mx_local_port_set mx"
  shows "allocate_local_port mx =
    Some (mx\<lparr>mx_local_port_last := port, mx_local_port_set := insert port (mx_local_port_set mx)\<rparr>, port)"
  using assms
proof (induction j arbitrary: mx)
  case 0
  then show ?case by (subst allocate_local_port.simps) (simp add: Let_def)
next
  case (Suc j)
  let ?mx = "mx\<lparr>mx_local_port_last := next_local_port (mx_local_port_last mx)\<rparr>"
  have "next_local_port (mx_local_port_last mx) \<in> mx_local_port_set mx" using Suc.prems(1) [of 0] by simp
  then have "allocate_local_port mx = allocate_local_port ?mx"
    by (subst allocate_local_port.simps) (simp add: Let_def)
  also have "\<dots> = Some (?mx\<lparr>mx_local_port_last := port, mx_local_port_set := insert port (mx_local_port_set ?mx)\<rparr>, port)"
  proof (rule Suc.IH)
    show "(next_local_port ^^ Suc i) (mx_local_port_last ?mx) \<in> mx_local_port_set ?mx" if "i < j" for i
      using Suc.prems(1) [of "Suc i"] that by (simp add: funpow_swap1)
  qed (use Suc.prems(2,3) in \<open>simp_all add: funpow_swap1\<close>)
  finally show ?case by simp
qed

lemma allocate_fresh:
  assumes "card (mx_local_port_set mx) < 2 ^ 30"
  obtains port where "allocate_local_port mx =
      Some (mx\<lparr>mx_local_port_last := port, mx_local_port_set := insert port (mx_local_port_set mx)\<rparr>, port)"
    and "port \<notin> mx_local_port_set mx" and "2 ^ 30 \<le> unat port" and "unat port < 2 ^ 31"
proof -
  let ?P = "\<lambda>j. (next_local_port ^^ Suc j) (mx_local_port_last mx) \<notin> mx_local_port_set mx"
  define j where "j = (LEAST j. ?P j)"
  have j: "?P j" "\<And>i. i < j \<Longrightarrow> \<not> ?P i"
    unfolding j_def using LeastI_ex [OF free_port_exists [OF assms]] not_less_Least by blast+
  let ?port = "(next_local_port ^^ Suc j) (mx_local_port_last mx)"
  have "(unat (mx_local_port_last mx) + Suc j) mod 2 ^ 30 < 2 ^ 30" by simp
  then have bounds: "2 ^ 30 \<le> unat ?port" "unat ?port < 2 ^ 31"
    unfolding unat_ports [of j "mx_local_port_last mx"] by simp_all
  have "allocate_local_port mx =
    Some (mx\<lparr>mx_local_port_last := ?port, mx_local_port_set := insert ?port (mx_local_port_set mx)\<rparr>, ?port)"
    by (rule allocate_finds [OF _ refl j(1)]) (use j(2) in blast)
  then show thesis by (rule that [OF _ j(1) bounds])
qed

section \<open>The contract of the environment\<close>

text \<open>
  The iterator of the connection pool yields every entry once; \<open>epoll_wait\<close> fills a buffer of 32 events,
  whose flags are those of \<open>EventSet\<close>.
\<close>

locale vsock_mux =
  host_stream G mem_byte R S taken
  for G :: "('m, 'ge) GuestMemory" and mem_byte :: "'m \<Rightarrow> u64 \<Rightarrow> u8" and R :: "'m RegionOps"
    and S :: "('m, 'ge, 'io, 's) StreamOps" and taken :: "'s \<Rightarrow> u8 list" and E :: "('s, 'io, 'w) MuxerEnv" +
  assumes iter_map: "finite (dom pool) \<Longrightarrow> map_of (conn_iter E pool) = pool"
    and iter_distinct: "finite (dom pool) \<Longrightarrow> distinct (map fst (conn_iter E pool))"
    and wait_events: "epoll_wait E w = (w', Inr evs) \<Longrightarrow>
      length evs \<le> 32 \<and> (\<forall>e \<in> set evs. evset_from_bits E (snd e) \<noteq> None)"
begin

lemma iter_length:
  assumes "finite (dom pool)"
  shows "length (conn_iter E pool) = card (dom pool)"
proof -
  have "dom pool = set (map fst (conn_iter E pool))"
    using dom_map_of_conv_image_fst [of "conn_iter E pool"] by (simp add: iter_map [OF assms])
  then show ?thesis using distinct_card [OF iter_distinct [OF assms]] by simp
qed

lemma iter_mem: "finite (dom pool) \<Longrightarrow> pool key = Some c \<Longrightarrow> (key, c) \<in> set (conn_iter E pool)"
  using map_of_SomeD [of "conn_iter E pool" key c] by (simp add: iter_map)

lemma add_connection_inv:
  assumes inv: "mux_inv mx" and c: "keyed key c" "conn_good c"
  shows "\<exists>mx' r. add_connection E now key c mx = Some (Done (mx', r)) \<and> mux_inv mx'
    \<and> mx_local_port_set mx' = mx_local_port_set mx"
proof -
  obtain mx1 where sw: "sweep_killq E now mx = Some (Done mx1)" "mux_inv mx1" "mx_local_port_set mx1 = mx_local_port_set mx"
    using sweep_killq_inv [OF inv] by blast
  obtain mx2 r where al: "add_listener E (as_raw_fd E (vc_stream c)) (Connection key (conn_get_polled_evset c)) mx1 = (mx2, r)"
    by fastforce
  have mx2: "mux_inv mx2" "mx_local_port_set mx2 = mx_local_port_set mx" "mx_conn_map mx2 = mx_conn_map mx1"
    using same_core_add [OF al] sw(2,3) by (simp_all add: same_core_def mux_inv_except_def)
  define mx3 where "mx3 = (if has_pending_rx c then mx_push_rx (ConnRx key) mx2 else mx2)
    \<lparr>mx_conn_map := (mx_conn_map mx2)(key \<mapsto> c)\<rparr>"
  show ?thesis
  proof (cases "MAX_CONNECTIONS \<le> length (conn_iter E (mx_conn_map mx1))")
    case True
    then show ?thesis using sw by (simp add: add_connection_def)
  next
    case False
    then have card: "card (dom (mx_conn_map mx2)) < MAX_CONNECTIONS"
      using mx2(1,3) iter_length [of "mx_conn_map mx1"] by (simp add: mux_inv_except_def pool_ok_def)
    have "pool_ok {} ((mx_conn_map mx2)(key \<mapsto> c))"
      using mx2(1) c card by (intro pool_ok_upd [of "{}"]) (auto simp: mux_inv_except_def conn_good_def)
    moreover have "\<not> has_pending_rx c \<Longrightarrow> rx_complete (mx_rxq mx2) ((mx_conn_map mx2)(key \<mapsto> c))"
      using mx2(1) by (intro rx_complete_upd) (auto simp: mux_inv_except_def)
    ultimately have "mux_inv mx3" "mx_local_port_set mx3 = mx_local_port_set mx"
      using mx2 rx_complete_pushed [of "mx_rxq mx2" "mx_conn_map mx2" key c]
      by (simp_all add: mx3_def mux_inv_except_def mx_push_rx_def rxq_push_length)
    then show ?thesis
      using sw(1) False al mx2(1,2)
      by (cases r; cases "has_pending_rx c") (simp_all add: add_connection_def mx_push_rx_def mx3_def)
  qed
qed

lemma handle_peer_request_inv:
  assumes "mux_inv mx"
  shows "\<exists>mx'. handle_peer_request_pkt E now p mx = Some (Done mx') \<and> mux_inv mx'
    \<and> mx_local_port_set mx' = mx_local_port_set mx"
proof -
  have rst: "mux_inv mx \<Longrightarrow> mux_inv (enq_rst l q mx)" "mx_local_port_set (enq_rst l q mx) = mx_local_port_set mx"
    for l q and mx :: "('s, 'w) VsockMuxer"
    by (rule enq_rst_inv) (simp_all add: enq_rst_def mx_push_rx_def)
  obtain os r where co: "connect E (mx_os mx) (port_path (mx_host_sock_path mx) (pkt_dst_port p)) = (os, r)" by fastforce
  let ?mx = "mx\<lparr>mx_os := os\<rparr>"
  have os: "mux_inv ?mx" "mx_local_port_set ?mx = mx_local_port_set mx" using assms by (simp_all add: mux_inv_except_def)
  show ?thesis
  proof (cases "\<exists>s. r = Inr s \<and> (\<exists>u. set_nonblocking E s = Inr u)")
    case False
    then have "handle_peer_request_pkt E now p mx = Some (Done (enq_rst (pkt_dst_port p) (pkt_src_port p) ?mx))"
      using co by (cases r) (auto simp: handle_peer_request_pkt_def Let_def split: sum.split)
    then show ?thesis using rst os by simp
  next
    case True
    then obtain s u where s: "r = Inr s" "set_nonblocking E s = Inr u" by blast
    let ?key = "\<lparr>key_local_port = pkt_dst_port p, key_peer_port = pkt_src_port p\<rparr>"
    let ?c = "new_peer_init s VSOCK_HOST_CID (mx_cid ?mx) (pkt_dst_port p) (pkt_src_port p) (pkt_buf_alloc p)"
    have "keyed ?key ?c" "conn_good ?c"
      by (simp_all add: keyed_def new_peer_init_def conn_good_def conn_wf_def rxset.inv_single rxset.abs_single txbuf_inv_new)
    from add_connection_inv [OF os(1) this, of now] obtain mx' q where
      "add_connection E now ?key ?c ?mx = Some (Done (mx', q))" "mux_inv mx'" "mx_local_port_set mx' = mx_local_port_set mx"
      by auto
    then show ?thesis
      using co s rst by (cases q) (simp_all add: handle_peer_request_pkt_def Let_def)
  qed
qed

lemma mux_send_inv:
  assumes inv: "mux_inv mx"
  shows "\<exists>mx'. mux_send_pkt E R S now m p mx = Some (Done mx') \<and> mux_inv mx'
    \<and> mx_local_port_set mx' \<subseteq> mx_local_port_set mx"
proof -
  let ?key = "\<lparr>key_local_port = pkt_dst_port p, key_peer_port = pkt_src_port p\<rparr>"
  let ?rst = "enq_rst (pkt_dst_port p) (pkt_src_port p) mx"
  have rst: "mux_inv ?rst" "mx_local_port_set ?rst = mx_local_port_set mx"
    using inv by (rule enq_rst_inv) (simp add: enq_rst_def mx_push_rx_def)
  have rem: "mux_inv (remove_connection E ?key mx)"
    using inv by (intro remove_connection_inv) (auto simp: mux_inv_except_def intro: pool_ok_mono)
  have rem_ports: "mx_local_port_set (remove_connection E ?key mx) \<subseteq> mx_local_port_set mx"
    by (auto simp: remove_connection_def free_local_port_def Let_def split: option.split)
  show ?thesis
  proof (cases "pkt_type p = VSOCK_TYPE_STREAM \<and> pkt_dst_cid p = VSOCK_HOST_CID \<and> pkt_op p \<noteq> VSOCK_OP_RST")
    case False
    then show ?thesis using inv rst rem rem_ports handle_peer_request_inv [OF inv, of now p]
      by (auto simp: mux_send_pkt_def Let_def VSOCK_OP_REQUEST_def VSOCK_OP_RST_def)
  next
    case True
    show ?thesis
    proof (cases "mx_conn_map mx ?key")
      case None
      then show ?thesis using True rst handle_peer_request_inv [OF inv, of now p] by (auto simp: mux_send_pkt_def)
    next
      case (Some c)
      then have good: "conn_good c" using inv by (simp add: mux_inv_except_def pool_ok_def)
      obtain c' where c': "conn_send_pkt R S now m p c = Done c'" "conn_good c'" "conn_frame c c'"
        by (rule send_pkt_good [OF good])
      let ?mut = "\<lambda>conn. Some (ebind (conn_send_pkt R S now m p conn) (\<lambda>conn. Done (conn, ())))"
      have mut: "?mut c = Some (Done (c', ()))" using c'(1) by simp
      have wf: "conn_wf c'" using c'(2) by (simp add: conn_good_def)
      obtain mx' where "apply_conn_mutation E S now ?key ?mut () mx = Some (Done (mx', ()))" "mux_inv mx'"
        "mx_local_port_set mx' = mx_local_port_set mx"
        using apply_inv [where mut = ?mut, OF inv Some mut wf c'(3) disjI2 [OF c'(2)]] by blast
      then show ?thesis using True Some by (simp add: mux_send_pkt_def)
    qed
  qed
qed

lemma handle_event_inv:
  assumes inv: "mux_inv mx" and ports: "card (mx_local_port_set mx) < 2 ^ 30"
  shows "\<exists>mx'. handle_event E S now fd ev mx = Some (Done mx') \<and> mux_inv mx'
    \<and> card (mx_local_port_set mx') \<le> card (mx_local_port_set mx) + 1"
proof (cases "mx_listener_map mx fd")
  case None
  then show ?thesis using inv by (simp add: handle_event_def)
next
  case (Some l)
  show ?thesis
  proof (cases l)
    case (Connection key evset)
    let ?mut = "\<lambda>conn. xbind (conn_notify S ev conn) (\<lambda>conn. Some (Done (conn, ())))"
    have "\<exists>mx'. apply_conn_mutation E S now key ?mut () mx = Some (Done (mx', ())) \<and> mux_inv mx'
      \<and> mx_local_port_set mx' = mx_local_port_set mx"
    proof (cases "mx_conn_map mx key")
      case None
      then show ?thesis using inv by (simp add: apply_conn_mutation_def)
    next
      case (Some c)
      then have good: "conn_good c" using inv by (simp add: mux_inv_except_def pool_ok_def)
      obtain c' where c': "conn_notify S ev c = Some (Done c')" "conn_good c'" "conn_frame c c'"
        by (rule notify_good [OF good])
      have mut: "?mut c = Some (Done (c', ()))" using c'(1) by simp
      have wf: "conn_wf c'" using c'(2) by (simp add: conn_good_def)
      show ?thesis using apply_inv [where mut = ?mut, OF inv Some mut wf c'(3) disjI2 [OF c'(2)]] by blast
    qed
    then show ?thesis using Some Connection by (auto simp: handle_event_def)
  next
    case HostSock
    obtain os r where acc: "accept E (mx_os mx) = (os, r)" by fastforce
    let ?mx = "mx\<lparr>mx_os := os\<rparr>"
    have "mux_inv ?mx" using inv by (simp add: mux_inv_except_def)
    moreover have "mux_inv (fst (add_listener E fd' l' ?mx))" for fd' l'
      using inv by (simp add: mux_inv_except_def)
    ultimately show ?thesis
      using Some HostSock acc by (auto simp: handle_event_def Let_def split: sum.split)
  next
    case (LocalStream s)
    obtain mx1 where rl: "remove_listener E fd mx = (mx1, Some (LocalStream s))"
      using Some LocalStream by (simp add: remove_listener_def)
    have mx1: "mux_inv mx1" "mx_local_port_set mx1 = mx_local_port_set mx"
      using remove_listener_simps [of E fd mx] rl inv by (simp_all add: mux_inv_except_def)
    obtain s' r where rd: "read_local_stream_port (read_exact E) s = (s', r)" by fastforce
    show ?thesis
    proof (cases r)
      case (Inl e)
      then show ?thesis using Some LocalStream rl rd mx1 by (simp add: handle_event_def)
    next
      case (Inr peer)
      obtain port where al: "allocate_local_port mx1 =
          Some (mx1\<lparr>mx_local_port_last := port, mx_local_port_set := insert port (mx_local_port_set mx1)\<rparr>, port)"
        using allocate_fresh [of mx1] ports mx1(2) by metis
      let ?mx = "mx1\<lparr>mx_local_port_last := port, mx_local_port_set := insert port (mx_local_port_set mx1)\<rparr>"
      let ?key = "\<lparr>key_local_port = port, key_peer_port = peer\<rparr>"
      let ?c = "new_local_init s' VSOCK_HOST_CID (mx_cid ?mx) port peer"
      have c: "keyed ?key ?c" "conn_good ?c"
        by (simp_all add: keyed_def new_local_init_def conn_good_def conn_wf_def rxset.inv_single rxset.abs_single txbuf_inv_new)
      have "mux_inv ?mx" using mx1(1) by (simp add: mux_inv_except_def)
      from add_connection_inv [OF this c, of now] obtain mx' q where
        "add_connection E now ?key ?c ?mx = Some (Done (mx', q))" "mux_inv mx'"
        "mx_local_port_set mx' = insert port (mx_local_port_set mx)"
        using mx1(2) by auto
      then show ?thesis
        using Some LocalStream rl rd Inr al card_insert_le_m1 [of "card (mx_local_port_set mx) + 1" "mx_local_port_set mx" port]
        by (simp add: handle_event_def)
    qed
  qed
qed

end

section \<open>Packets for the guest\<close>

definition rxq_popped :: "('s, 'w) VsockMuxer \<Rightarrow> ('s, 'w) VsockMuxer" where
  "rxq_popped mx = mx\<lparr>mx_rxq := fst (rxq_pop (mx_rxq mx))\<rparr>"

text \<open>Bounds the passes of the receive loop: each drops an entry, or kills a connection.\<close>

definition rx_work :: "('s, 'w) VsockMuxer \<Rightarrow> nat" where
  "rx_work mx = card {key. \<exists>c. mx_conn_map mx key = Some c \<and> Rst \<notin> rxset_abs (vc_pending_rx c)} + length (rxq_q (mx_rxq mx))"

lemma rxq_popped_simps [simp]:
  "mx_conn_map (rxq_popped mx) = mx_conn_map mx" "mx_killq (rxq_popped mx) = mx_killq mx"
  "mx_local_port_set (rxq_popped mx) = mx_local_port_set mx"
  "rxq_q (mx_rxq (rxq_popped mx)) = tl (rxq_q (mx_rxq mx))"
  "rxq_synced (mx_rxq (rxq_popped mx)) = rxq_synced (mx_rxq mx)"
  by (simp_all add: rxq_popped_def rxq_pop_def split: list.split)

lemma popped_inv:
  assumes "mux_inv_except X mx" and "rxq_q (mx_rxq mx) = rx # q"
    and "\<And>key c. rx = ConnRx key \<Longrightarrow> mx_conn_map mx key = Some c \<Longrightarrow> has_pending_rx c \<Longrightarrow>
      rxq_synced (mx_rxq mx) \<Longrightarrow> rx \<in> set q"
  shows "mux_inv_except X (rxq_popped mx)"
proof -
  have "rx_complete (mx_rxq (rxq_popped mx)) (mx_conn_map mx)"
    using assms by (auto simp: mux_inv_except_def rx_complete_def)
  then show ?thesis using assms(1,2) by (auto simp: mux_inv_except_def)
qed

lemma rxq_collect_complete:
  assumes "length q \<le> MUXER_RXQ_SIZE"
  shows "length (rxq_q (rxq_collect l q)) \<le> MUXER_RXQ_SIZE" and "set q \<subseteq> set (rxq_q (rxq_collect l q))"
    and "rxq_synced (rxq_collect l q) \<Longrightarrow> (key, c) \<in> set l \<Longrightarrow> has_pending_rx c \<Longrightarrow> ConnRx key \<in> set (rxq_q (rxq_collect l q))"
proof -
  have "length (rxq_q (rxq_collect l q)) \<le> MUXER_RXQ_SIZE \<and> set q \<subseteq> set (rxq_q (rxq_collect l q))
    \<and> (rxq_synced (rxq_collect l q) \<longrightarrow>
       (\<forall>key c. (key, c) \<in> set l \<and> has_pending_rx c \<longrightarrow> ConnRx key \<in> set (rxq_q (rxq_collect l q))))"
    using assms by (induction l q rule: rxq_collect.induct) auto
  then show "length (rxq_q (rxq_collect l q)) \<le> MUXER_RXQ_SIZE" "set q \<subseteq> set (rxq_q (rxq_collect l q))"
    "rxq_synced (rxq_collect l q) \<Longrightarrow> (key, c) \<in> set l \<Longrightarrow> has_pending_rx c \<Longrightarrow> ConnRx key \<in> set (rxq_q (rxq_collect l q))"
    by blast+
qed

lemma rx_work_upd:
  assumes "finite (dom (mx_conn_map mx))" and "mx_conn_map mx key = Some c" and "Rst \<notin> rxset_abs (vc_pending_rx c)"
    and "mx_conn_map mx' = (mx_conn_map mx)(key \<mapsto> c')"
  shows "rx_work mx' + length (rxq_q (mx_rxq mx)) + (if Rst \<in> rxset_abs (vc_pending_rx c') then 1 else 0)
    = rx_work mx + length (rxq_q (mx_rxq mx'))"
proof -
  let ?A = "\<lambda>pool. {key. \<exists>c. pool key = Some c \<and> Rst \<notin> rxset_abs (vc_pending_rx c)}"
  have A: "key \<in> ?A (mx_conn_map mx)" using assms(2,3) by simp
  have fin: "finite (?A (mx_conn_map mx))" by (rule finite_subset [OF _ assms(1)]) auto
  have "?A (mx_conn_map mx') = (if Rst \<in> rxset_abs (vc_pending_rx c') then ?A (mx_conn_map mx) - {key} else ?A (mx_conn_map mx))"
    using assms(2,3) unfolding assms(4) by auto
  then show ?thesis using card_Suc_Diff1 [OF fin A] by (simp add: rx_work_def)
qed

text \<open>
  A connection that has a packet for the guest whatever its stream does: it owes a reset, a response, a
  request or a credit update, or its data cannot be asked of the stream.
\<close>

definition must_speak :: "'s VsockConnection \<Rightarrow> bool" where
  "must_speak c \<longleftrightarrow> \<not> rxset_abs (vc_pending_rx c) \<subseteq> {Rw}
     \<or> Rw \<in> rxset_abs (vc_pending_rx c) \<and> (need_credit_update_from_peer c
        \<or> \<not> (case vc_state c of Established \<Rightarrow> True | PeerClosed recv_off _ \<Rightarrow> \<not> recv_off | _ \<Rightarrow> False))"

text \<open>The queue holds no reset, and none of its connections has to speak.\<close>

definition rx_quiet :: "MuxerRxQ \<Rightarrow> (ConnMapKey \<rightharpoonup> 's VsockConnection) \<Rightarrow> bool" where
  "rx_quiet q pool \<longleftrightarrow> (\<forall>l p. RstPkt l p \<notin> set (rxq_q q))
     \<and> (\<forall>key c. ConnRx key \<in> set (rxq_q q) \<and> pool key = Some c \<longrightarrow> \<not> must_speak c)"

text \<open>The queue a request for a packet works on: one that is empty and out of step is rebuilt.\<close>

definition rx_view :: "('s, 'io, 'w) MuxerEnv \<Rightarrow> ('s, 'w) VsockMuxer \<Rightarrow> MuxerRxQ" where
  "rx_view E mx = (if rxq_is_empty (mx_rxq mx) \<and> \<not> rxq_synced (mx_rxq mx)
     then rxq_from_conn_map (conn_iter E (mx_conn_map mx)) else mx_rxq mx)"

text \<open>
  What a request for a packet answers: the reset at the front of its queue, or the packet of the
  connection at the front; a failure means that nothing in the queue had to be said.
\<close>

definition recv_front ::
  "'m RegionOps \<Rightarrow> ('m, 'ge, 'io, 's) StreamOps \<Rightarrow> nat \<Rightarrow> 'm \<Rightarrow> VsockPacket \<Rightarrow> ('s, 'w) VsockMuxer \<Rightarrow>
   'm \<Rightarrow> VsockPacket \<Rightarrow> ('s, 'w) VsockMuxer \<Rightarrow> (('ge, 'io) VsockError + unit) \<Rightarrow> bool" where
  "recv_front R S now m p mx m' p' mx' r \<longleftrightarrow>
     (\<forall>l pp q. rxq_q (mx_rxq mx) = RstPkt l pp # q \<longrightarrow>
        r = Ok () \<and> m' = m \<and> pkt_op p' = VSOCK_OP_RST \<and> pkt_src_port p' = l \<and> pkt_dst_port p' = pp
        \<and> pkt_src_cid p' = VSOCK_HOST_CID \<and> pkt_dst_cid p' = mx_cid mx \<and> pkt_len p' = 0 \<and> rxq_q (mx_rxq mx') = q)
   \<and> (\<forall>key q c m1 c1 p1. rxq_q (mx_rxq mx) = ConnRx key # q \<and> mx_conn_map mx key = Some c
        \<and> conn_recv_pkt R S now m c p = (m1, c1, p1, Ok () :: ('ge, 'io) VsockError + unit) \<longrightarrow>
        r = Ok () \<and> m' = m1 \<and> p' = p1 \<and> (pkt_op p1 = VSOCK_OP_RST \<longrightarrow> mx_conn_map mx' key = None))"

lemma rst_pkt_fields:
  "pkt_op (rst_pkt cid l pp p) = VSOCK_OP_RST" "pkt_src_port (rst_pkt cid l pp p) = l" "pkt_dst_port (rst_pkt cid l pp p) = pp"
  "pkt_src_cid (rst_pkt cid l pp p) = VSOCK_HOST_CID" "pkt_dst_cid (rst_pkt cid l pp p) = cid" "pkt_len (rst_pkt cid l pp p) = 0"
  by (simp_all add: rst_pkt_def pkt_op_def pkt_src_port_def pkt_dst_port_def pkt_src_cid_def pkt_dst_cid_def pkt_len_def
      set_fwd_cnt_def set_buf_alloc_def set_flags_def set_type_def set_len_def set_dst_port_def set_src_port_def
      set_dst_cid_def set_src_cid_def set_op_def)

lemma recv_rw_pending: "recv_rw R S now m c p = (m', c', p', filled) \<Longrightarrow> vc_pending_rx c' = vc_pending_rx c"
  by (auto simp: recv_rw_def Let_def split: if_split_asm prod.split_asm sum.split_asm)

lemma recv_credit_update_due:
  assumes "recv_credit_update m c p = (m', c', p', Err e)" and "rxset_inv (vc_pending_rx c)"
    and "rxset_abs (vc_pending_rx c) \<subseteq> {CreditUpdate}"
  shows "CreditUpdate \<notin> rxset_abs (vc_pending_rx c)"
proof -
  have "rxset_abs (rxset_del CreditUpdate (vc_pending_rx c)) = {}" "rxset_inv (rxset_del CreditUpdate (vc_pending_rx c))"
    using assms(2,3) by (auto simp: rxset_del)
  then have "\<not> has_pending_rx (c\<lparr>vc_pending_rx := rxset_del CreditUpdate (vc_pending_rx c)\<rparr>)"
    by (simp add: has_pending_rx_def rxset.abs_empty)
  then show ?thesis using assms(1) by (auto simp: recv_credit_update_def take_rx_eq split: if_split_asm)
qed

lemma recv_err_quiet:
  assumes "conn_recv_pkt R S now m c p = (m', c', p', Err e)" and "rxset_inv (vc_pending_rx c)"
  shows "\<not> must_speak c"
proof -
  have "rxset_abs (vc_pending_rx c) \<inter> {Rst, Response, Request} = {}"
    using assms(1) by (auto simp: conn_recv_pkt_def take_rx_eq Let_def rxset_del split: if_split_asm)
  moreover have "CreditUpdate \<notin> rxset_abs (vc_pending_rx c)"
  proof -
    let ?s = "rxset_del Rw (rxset_del Request (rxset_del Response (rxset_del Rst (vc_pending_rx c))))"
    obtain m1 c1 p1 where cu: "recv_credit_update m1 c1 p1 = (m', c', p', Err e)" "vc_pending_rx c1 = ?s"
      using assms(1)
      by (auto simp: conn_recv_pkt_def take_rx_eq Let_def split: if_split_asm prod.split_asm dest!: recv_rw_pending)
    have "x \<in> rxset_abs ?s \<Longrightarrow> x = CreditUpdate" for x by (cases x) (simp_all add: rxset_del)
    then have "rxset_abs (vc_pending_rx c1) \<subseteq> {CreditUpdate}" "rxset_inv (vc_pending_rx c1)"
      using cu(2) assms(2) by (auto simp: rxset_del)
    from recv_credit_update_due [OF cu(1) this(2,1)] show ?thesis by (simp add: cu(2) rxset_del)
  qed
  moreover have "\<not> need_credit_update_from_peer c"
    "case vc_state c of Established \<Rightarrow> True | PeerClosed recv_off _ \<Rightarrow> \<not> recv_off | _ \<Rightarrow> False"
    if "Rw \<in> rxset_abs (vc_pending_rx c)"
    using assms(1) that
    by (auto simp: conn_recv_pkt_def take_rx_eq Let_def rxset_del recv_rw_def need_credit_update_from_peer_def
        peer_avail_credit_def split: if_split_asm)
  moreover have "x \<in> {Rst, Response, Request} \<or> x = CreditUpdate \<or> x = Rw" for x by (cases x) simp_all
  ultimately show ?thesis unfolding must_speak_def by blast
qed

lemma rx_quiet_step:
  assumes "rxq_q q = ConnRx key # qs" and "pool key = Some c" and "\<not> must_speak c"
    and "set qs \<subseteq> set (rxq_q q')" and "\<forall>k. k \<noteq> key \<longrightarrow> pool' k = pool k" and "rx_quiet q' pool'"
  shows "rx_quiet q pool"
proof -
  have "\<not> must_speak d" if "ConnRx k \<in> set (rxq_q q)" "pool k = Some d" for k d
  proof (cases "k = key")
    case True
    then show ?thesis using that assms(2,3) by simp
  next
    case False
    then have "ConnRx k \<in> set (rxq_q q')" "pool' k = Some d" using that assms(1,4,5) by auto
    then show ?thesis using assms(6) by (simp add: rx_quiet_def)
  qed
  moreover have "RstPkt l p \<notin> set (rxq_q q)" for l p using assms(1,4,6) by (auto simp: rx_quiet_def)
  ultimately show ?thesis unfolding rx_quiet_def by blast
qed

lemma quiet_if_empty: "rxset_inv (vc_pending_rx c) \<Longrightarrow> \<not> has_pending_rx c \<Longrightarrow> \<not> must_speak c"
  by (simp add: must_speak_def has_pending_rx_def rxset.abs_empty)

context vsock_mux
begin

lemma recv_not_acked:
  assumes "conn_recv_pkt R S now m c p = (m', c', p', r :: ('ge, 'io) VsockError + unit)" and "conn_good c"
  shows "acked S key c c' = c'"
proof (cases "vc_state c = LocalInit")
  case False
  then show ?thesis by (simp add: acked_def)
next
  case True
  have "vc_state c' \<noteq> Established"
  proof (cases "Rst \<in> rxset_abs (vc_pending_rx c)")
    case rst: True
    then show ?thesis using assms(1) True by (auto simp: recv_pkt_rst)
  next
    case False
    with assms(1) show ?thesis
    proof (cases rule: recv_pkt_cases)
      case (control s st ex f)
      then show ?thesis using assms(2) True by (auto simp: conn_good_def)
    next
      case (rw s cr pr filled s' f)
      then have "vc_state cr = LocalInit" using True by (auto simp: recv_rw_def)
      then show ?thesis using rw(2) by simp
    qed
  qed
  then show ?thesis by (simp add: acked_def)
qed

text \<open>One pass of the loop over a connection of the pool.\<close>

lemma recv_conn_step:
  assumes inv: "mux_inv mx" and q: "rxq_q (mx_rxq mx) = ConnRx key # q" and c: "mx_conn_map mx key = Some c"
    and rp: "conn_recv_pkt R S now m c p = (m1, c1, p1, r :: ('ge, 'io) VsockError + unit)"
  obtains mx1 where
    "apply_conn_mutation E S now key (recv_from_conn R S now m p) dflt mx = Some (Done (mx1, m1, p1, r, \<not> has_pending_rx c1))"
    and "rxq_q (mx_rxq mx1) \<noteq> []" and "mx_local_port_set mx1 = mx_local_port_set mx"
    and "mux_inv_except (if r = Ok () \<and> pkt_op p1 = VSOCK_OP_RST then {key} else {})
      (if has_pending_rx c1 then mx1 else rxq_popped mx1)"
    and "\<And>e. r = Err e \<Longrightarrow> rx_work (rxq_popped mx1) < rx_work mx"
    and "set q \<subseteq> set (rxq_q (mx_rxq (rxq_popped mx1)))" and "\<forall>k. k \<noteq> key \<longrightarrow> mx_conn_map mx1 k = mx_conn_map mx k"
proof -
  let ?Y = "if r = Ok () \<and> pkt_op p1 = VSOCK_OP_RST then {key} else {}"
  let ?mut = "recv_from_conn R S now m p"
  have good: "conn_good c" and lens: "length (rxq_q (mx_rxq mx)) \<le> MUXER_RXQ_SIZE" "length (killq_q (mx_killq mx)) \<le> MUXER_KILLQ_SIZE"
    and fin: "finite (dom (mx_conn_map mx))"
    using inv c by (simp_all add: mux_inv_except_def pool_ok_def)
  note recv = recv_pkt_good [OF rp good]
  have mut: "?mut c = Some (Done (c1, m1, p1, r, \<not> has_pending_rx c1))" using rp by (simp add: recv_from_conn_def)
  obtain mx1 killed where app: "apply_conn_mutation E S now key ?mut dflt mx = Some (Done (mx1, m1, p1, r, \<not> has_pending_rx c1))"
    and cm: "mx_conn_map mx1 = (mx_conn_map mx)(key \<mapsto> if killed then kill c1 else c1)"
    and rq: "mx_rxq mx1 = (if \<not> has_pending_rx c \<and> has_pending_rx c1 \<or> killed \<and> \<not> has_pending_rx c1
       then fst (rxq_push (ConnRx key) (mx_rxq mx)) else mx_rxq mx)"
    and ports: "mx_local_port_set mx1 = mx_local_port_set mx"
    using apply_effect [of mx key c ?mut c1 "(m1, p1, r, \<not> has_pending_rx c1)", OF c mut lens(2)]
      recv_not_acked [OF rp good, of key] by metis
  have "key \<in> ?Y \<or> conn_good c1" using recv(2) by auto
  from apply_inv [where mut = ?mut, OF inv c mut recv(1) recv_pkt_frame [OF rp] this]
  obtain mx2 where "apply_conn_mutation E S now key ?mut dflt mx = Some (Done (mx2, m1, p1, r, \<not> has_pending_rx c1))"
    "mux_inv_except ?Y mx2" by blast
  with app have inv1: "mux_inv_except ?Y mx1" by simp
  have q1: "rxq_q (mx_rxq mx1) = ConnRx key # q \<or> rxq_q (mx_rxq mx1) = ConnRx key # q @ [ConnRx key]"
    using rq rxq_push_conn [of key "mx_rxq mx"] q by (simp split: if_split_asm) 
  have pop: "mux_inv_except ?Y (rxq_popped mx1)" if quiet: "\<not> has_pending_rx c1"
    using q1
  proof
    assume q1: "rxq_q (mx_rxq mx1) = ConnRx key # q"
    have "\<not> (killed \<and> rxq_synced (mx_rxq mx1))"
      using rq quiet q q1 rxq_push_synced [of "ConnRx key" "mx_rxq mx"] by auto
    then show ?thesis using cm quiet by (intro popped_inv [OF inv1 q1]) (auto split: if_split_asm)
  next
    assume q1: "rxq_q (mx_rxq mx1) = ConnRx key # q @ [ConnRx key]"
    show ?thesis by (rule popped_inv [OF inv1 q1]) simp
  qed
  have work: "rx_work (rxq_popped mx1) < rx_work mx" if "r = Err e" for e
  proof -
    have e: "\<not> has_pending_rx c1" "Rst \<notin> rxset_abs (vc_pending_rx c)" using recv(3) [OF that] by simp_all
    then have "Rst \<notin> rxset_abs (vc_pending_rx c1)"
      using recv(1) by (simp add: has_pending_rx_def conn_wf_def rxset.abs_empty)
    with rx_work_upd [OF fin c e(2) cm]
    have "rx_work mx1 + length (rxq_q (mx_rxq mx)) + (if killed then 1 else 0) = rx_work mx + length (rxq_q (mx_rxq mx1))"
      by (cases killed) (simp_all add: rxset.abs_ins)
    moreover have "length (rxq_q (mx_rxq mx1)) \<le> length (rxq_q (mx_rxq mx)) + (if killed then 1 else 0)"
      using rq e(1) rxq_push_conn [of key "mx_rxq mx"] by auto
    moreover have "rx_work mx1 = Suc (rx_work (rxq_popped mx1))" using q1 by (auto simp: rx_work_def)
    ultimately show ?thesis by linarith
  qed
  show thesis by (rule that [OF app _ ports]) (use q1 inv1 pop work cm in auto)
qed

lemma remove_connection_ports:
  "mx_local_port_set (remove_connection E key mx) = mx_local_port_set mx - {key_local_port key}"
  by (simp add: remove_connection_def free_local_port_def Let_def split: option.split)

lemma remove_connection_gone: "mx_conn_map (remove_connection E key mx) key = None"
  by (simp add: remove_connection_def free_local_port_def Let_def split: option.split)

lemma recv_loop_conn:
  assumes inv: "mux_inv mx" and q: "rxq_q (mx_rxq mx) = ConnRx key # q" and c: "mx_conn_map mx key = Some c"
  obtains (packet) m' p' mx' c' where "recv_loop E R S now m p mx = Some (Done (m', p', mx', Ok () :: ('ge, 'io) VsockError + unit))"
      and "mux_inv mx'" and "mx_local_port_set mx' \<subseteq> mx_local_port_set mx"
      and "conn_recv_pkt R S now m c p = (m', c', p', Ok () :: ('ge, 'io) VsockError + unit)"
      and "pkt_op p' = VSOCK_OP_RST \<longrightarrow> mx_conn_map mx' key = None"
  | (retry) m' p' mx' where "recv_loop E R S now m p mx
        = (recv_loop E R S now m' p' mx' :: ('m \<times> VsockPacket \<times> _ \<times> (('ge, 'io) VsockError + unit)) exec option)"
      and "mux_inv mx'" and "mx_local_port_set mx' = mx_local_port_set mx" and "rx_work mx' < rx_work mx"
      and "\<exists>m1 c1 p1 e. conn_recv_pkt R S now m c p = (m1, c1, p1, Err e :: ('ge, 'io) VsockError + unit)"
      and "rx_quiet (mx_rxq mx') (mx_conn_map mx') \<longrightarrow> rx_quiet (mx_rxq mx) (mx_conn_map mx)"
proof -
  obtain m1 c1 p1 r where rp: "conn_recv_pkt R S now m c p = (m1, c1, p1, r :: ('ge, 'io) VsockError + unit)"
    by (metis prod_cases4)
  obtain mx1 where st: "apply_conn_mutation E S now key (recv_from_conn R S now m p) (m, p, Err NoData, True) mx
      = Some (Done (mx1, m1, p1, r, \<not> has_pending_rx c1))"
    "rxq_q (mx_rxq mx1) \<noteq> []" "mx_local_port_set mx1 = mx_local_port_set mx"
    "mux_inv_except (if r = Ok () \<and> pkt_op p1 = VSOCK_OP_RST then {key} else {})
      (if has_pending_rx c1 then mx1 else rxq_popped mx1)"
    "\<And>e. r = Err e \<Longrightarrow> rx_work (rxq_popped mx1) < rx_work mx"
    "set q \<subseteq> set (rxq_q (mx_rxq (rxq_popped mx1)))" "\<forall>k. k \<noteq> key \<longrightarrow> mx_conn_map mx1 k = mx_conn_map mx k"
    by (rule recv_conn_step [OF inv q c rp]) blast
  have good: "conn_good c" "keyed key c" using inv c by (simp_all add: mux_inv_except_def pool_ok_def)
  have key: "\<lparr>key_local_port = pkt_src_port p1, key_peer_port = pkt_dst_port p1\<rparr> = key"
    using recv_pkt_ports [OF rp] good(2) by (cases key) (simp add: pkt_ports_def keyed_def)
  define mx2 where "mx2 = (if has_pending_rx c1 then mx1 else rxq_popped mx1)"
  have loop: "recv_loop E R S now m p mx = (case r of
      Inr _ \<Rightarrow> Some (Done (m1, p1, if pkt_op p1 = VSOCK_OP_RST then remove_connection E key mx2 else mx2, Ok ()))
    | Inl _ \<Rightarrow> recv_loop E R S now m1 p1 mx2)"
    using q st(1,2) key
    by (subst recv_loop.simps)
      (simp add: rxq_peek_def rxq_pop_def mx2_def rxq_popped_def split: list.split sum.split)
  have ports: "mx_local_port_set mx2 = mx_local_port_set mx" using st(3) by (simp add: mx2_def)
  show thesis
  proof (cases r)
    case (Inr u)
    show thesis
      by (rule packet [OF loop [unfolded Inr sum.case] _ _ rp [unfolded Inr unit_eq [of u]]])
        (use st(4) Inr ports remove_connection_inv [of key mx2 E] in
          \<open>auto simp: mx2_def [symmetric] remove_connection_ports remove_connection_gone\<close>)
  next
    case (Inl e)
    have quiet: "\<not> has_pending_rx c1" "\<not> must_speak c"
      using recv_pkt_good(3) [OF rp good(1) Inl] recv_err_quiet [OF rp [unfolded Inl]] good(1)
      by (simp_all add: conn_good_def conn_wf_def)
    have "rx_quiet (mx_rxq mx2) (mx_conn_map mx2) \<longrightarrow> rx_quiet (mx_rxq mx) (mx_conn_map mx)"
      using rx_quiet_step [where pool = "mx_conn_map mx" and pool' = "mx_conn_map mx1", OF q c quiet(2) st(6,7)] quiet(1)
      by (simp add: mx2_def)
    then show thesis
      using st(4,5) Inl quiet(1) rp
      by (intro retry [OF loop [unfolded Inl sum.case] _ ports]) (simp_all add: mx2_def)
  qed
qed

lemma recv_loop_inv:
  assumes "mux_inv mx"
  shows "\<exists>m' p' mx' r. recv_loop E R S now m p mx = Some (Done (m', p', mx', r :: ('ge, 'io) VsockError + unit)) \<and> mux_inv mx'
    \<and> mx_local_port_set mx' \<subseteq> mx_local_port_set mx \<and> recv_front R S now m p mx m' p' mx' r
    \<and> (\<forall>e. r = Err e \<longrightarrow> e = NoData \<and> rxq_is_empty (mx_rxq mx') \<and> rx_quiet (mx_rxq mx) (mx_conn_map mx))"
  using assms
proof (induction "rx_work mx" arbitrary: m p mx rule: less_induct)
  case less
  consider "rxq_q (mx_rxq mx) = []" | l pp q where "rxq_q (mx_rxq mx) = RstPkt l pp # q"
    | key q where "rxq_q (mx_rxq mx) = ConnRx key # q" "mx_conn_map mx key = None"
    | key q c where "rxq_q (mx_rxq mx) = ConnRx key # q" "mx_conn_map mx key = Some c"
    by (metis MuxerRx.exhaust list.exhaust option.exhaust)
  then show ?case
  proof cases
    case 1
    then show ?thesis
      using less.prems
      by (subst recv_loop.simps) (simp add: rxq_peek_def rxq_is_empty_def recv_front_def rx_quiet_def)
  next
    case (2 l pp q)
    have "mux_inv (rxq_popped mx)" by (rule popped_inv [OF less.prems 2]) simp
    then show ?thesis
      using 2 by (subst recv_loop.simps) (simp add: rxq_peek_def rxq_popped_def [symmetric] recv_front_def rst_pkt_fields)
  next
    case (3 key q)
    have "mux_inv (rxq_popped mx)" using 3 by (intro popped_inv [OF less.prems 3(1)]) simp
    moreover have "rx_work (rxq_popped mx) < rx_work mx" using 3 by (simp add: rx_work_def)
    moreover have "recv_loop E R S now m p mx = recv_loop E R S now m p (rxq_popped mx)"
      using 3
      by (subst recv_loop.simps) (simp add: rxq_peek_def apply_conn_mutation_def rxq_pop_def rxq_popped_def)
    moreover have "recv_front R S now m p mx m' p' mx' r" for m' p' mx' and r :: "('ge, 'io) VsockError + unit"
      using 3 by (simp add: recv_front_def)
    moreover have "rx_quiet (mx_rxq (rxq_popped mx)) (mx_conn_map mx) \<Longrightarrow> rx_quiet (mx_rxq mx) (mx_conn_map mx)"
      using 3 by (auto simp: rx_quiet_def)
    ultimately show ?thesis using less.hyps [of "rxq_popped mx" m p] by auto
  next
    case (4 key q c)
    show ?thesis
    proof (rule recv_loop_conn [OF less.prems 4, of now m p])
      fix m' p' mx' c'
      assume "recv_loop E R S now m p mx = Some (Done (m', p', mx', Ok () :: ('ge, 'io) VsockError + unit))"
        "mux_inv mx'" "mx_local_port_set mx' \<subseteq> mx_local_port_set mx"
        "conn_recv_pkt R S now m c p = (m', c', p', Ok () :: ('ge, 'io) VsockError + unit)"
        "pkt_op p' = VSOCK_OP_RST \<longrightarrow> mx_conn_map mx' key = None"
      then show ?thesis using 4 by (simp add: recv_front_def)
    next
      fix m' p' mx'
      assume loop: "recv_loop E R S now m p mx
        = (recv_loop E R S now m' p' mx' :: ('m \<times> VsockPacket \<times> _ \<times> (('ge, 'io) VsockError + unit)) exec option)"
        and mx': "mux_inv mx'" "mx_local_port_set mx' = mx_local_port_set mx" "rx_work mx' < rx_work mx"
        and err: "\<exists>m1 c1 p1 e. conn_recv_pkt R S now m c p = (m1, c1, p1, Err e :: ('ge, 'io) VsockError + unit)"
        and quiet: "rx_quiet (mx_rxq mx') (mx_conn_map mx') \<longrightarrow> rx_quiet (mx_rxq mx) (mx_conn_map mx)"
      have "recv_front R S now m p mx m2 p2 mx2 r" for m2 p2 mx2 and r :: "('ge, 'io) VsockError + unit"
        using 4 err by (auto simp: recv_front_def)
      then show ?thesis using less.hyps [OF mx'(3,1), of m' p'] loop mx'(2) quiet by auto
    qed
  qed
qed

lemma rx_view_inv:
  assumes inv: "mux_inv mx"
  shows "mux_inv (mx\<lparr>mx_rxq := rx_view E mx\<rparr>)"
proof -
  let ?q = "rxq_from_conn_map (conn_iter E (mx_conn_map mx))"
  have fin: "finite (dom (mx_conn_map mx))" using inv by (simp add: mux_inv_except_def pool_ok_def)
  have "length (rxq_q ?q) \<le> MUXER_RXQ_SIZE" "rx_complete ?q (mx_conn_map mx)"
    using rxq_collect_complete(1,3) [of "[]" "conn_iter E (mx_conn_map mx)"] iter_mem [OF fin]
    by (auto simp: rxq_from_conn_map_def rx_complete_def)
  then show ?thesis using inv by (simp add: mux_inv_except_def rx_view_def)
qed

lemma mux_recv_inv:
  assumes inv: "mux_inv mx"
  shows "\<exists>m' p' mx' r. mux_recv_pkt E R S now m p mx = Some (Done (m', p', mx', r :: ('ge, 'io) VsockError + unit)) \<and> mux_inv mx'
    \<and> mx_local_port_set mx' \<subseteq> mx_local_port_set mx \<and> recv_front R S now m p (mx\<lparr>mx_rxq := rx_view E mx\<rparr>) m' p' mx' r
    \<and> (\<forall>e. r = Err e \<longrightarrow> e = NoData \<and> rxq_is_empty (mx_rxq mx') \<and> rx_quiet (rx_view E mx) (mx_conn_map mx))"
proof -
  have "mux_recv_pkt E R S now m p mx
    = (recv_loop E R S now m p (mx\<lparr>mx_rxq := rx_view E mx\<rparr>) :: ('m \<times> VsockPacket \<times> _ \<times> (('ge, 'io) VsockError + unit)) exec option)"
    by (simp add: mux_recv_pkt_def rx_view_def)
  then show ?thesis using recv_loop_inv [OF rx_view_inv [OF inv], of now m p] by simp
qed

text \<open>A queue that is in step covers the whole pool.\<close>

lemma rx_quiet_pool:
  assumes "mux_inv mx" and "rx_quiet (rx_view E mx) (mx_conn_map mx)" and "rxq_synced (rx_view E mx)"
    and "mx_conn_map mx key = Some c"
  shows "\<not> must_speak c"
proof (cases "has_pending_rx c")
  case True
  then have "ConnRx key \<in> set (rxq_q (rx_view E mx))"
    using rx_view_inv [OF assms(1)] assms(3,4) by (simp add: mux_inv_except_def rx_complete_def)
  then show ?thesis using assms(2,4) unfolding rx_quiet_def by blast
next
  case False
  have "conn_wf c" using assms(1,4) by (simp add: mux_inv_except_def pool_ok_def)
  then show ?thesis using quiet_if_empty [OF _ False] by (simp add: conn_wf_def)
qed

lemma handle_events_inv:
  assumes "mux_inv mx" and "card (mx_local_port_set mx) + length evs \<le> 2 ^ 30"
    and "\<forall>e \<in> set evs. evset_from_bits E (snd e) \<noteq> None"
  shows "\<exists>mx'. handle_events E S now evs mx = Some (Done mx') \<and> mux_inv mx'
    \<and> card (mx_local_port_set mx') \<le> card (mx_local_port_set mx) + length evs"
  using assms
proof (induction evs arbitrary: mx)
  case Nil
  then show ?case by simp
next
  case (Cons e evs)
  obtain fd bits ev where e: "e = (fd, bits)" "evset_from_bits E bits = Some ev"
    using Cons.prems(3) by (cases e) auto
  from Cons.prems obtain mx1 where mx1: "handle_event E S now fd ev mx = Some (Done mx1)" "mux_inv mx1"
    "card (mx_local_port_set mx1) \<le> card (mx_local_port_set mx) + 1"
    using handle_event_inv [of mx now fd ev] by auto
  then obtain mx2 where "handle_events E S now evs mx1 = Some (Done mx2)" "mux_inv mx2"
    "card (mx_local_port_set mx2) \<le> card (mx_local_port_set mx1) + length evs"
    using Cons.IH [of mx1] Cons.prems(2,3) by auto
  then show ?case using e mx1 by simp
qed

lemma mux_notify_inv:
  assumes "mux_inv mx" and "card (mx_local_port_set mx) + 32 \<le> 2 ^ 30"
  shows "\<exists>mx'. mux_notify E S now mx = Some (Done mx') \<and> mux_inv mx'
    \<and> card (mx_local_port_set mx') \<le> card (mx_local_port_set mx) + 32"
proof -
  obtain os r where w: "epoll_wait E (mx_os mx) = (os, r)" by fastforce
  have os: "mux_inv (mx\<lparr>mx_os := os\<rparr>)" using assms(1) by (simp add: mux_inv_except_def)
  show ?thesis
  proof (cases r)
    case (Inl e)
    then show ?thesis using w os by (simp add: mux_notify_def)
  next
    case (Inr evs)
    have "length evs \<le> 32" "\<forall>e \<in> set evs. evset_from_bits E (snd e) \<noteq> None"
      using wait_events [OF w [unfolded Inr]] by simp_all
    then show ?thesis
      using handle_events_inv [OF os, of evs now] assms(2) w Inr by (auto simp: mux_notify_def)
  qed
qed

end

lemma mux_new_inv:
  assumes "mux_new E os cid path = (os', Ok mx)"
  shows "mux_inv mx \<and> mx_local_port_set mx = {}"
proof -
  obtain os1 fd os2 u u' where b: "bind_listener E os path = (os1, Inr fd)" "listener_nonblocking E fd = Inr u"
    "epoll_create E os1 = (os2, Inr u')"
    using assms by (auto simp: mux_new_def split: prod.split_asm sum.split_asm)
  let ?mx = "\<lparr>mx_cid = cid, mx_conn_map = Map.empty, mx_listener_map = Map.empty, mx_rxq = rxq_new,
      mx_killq = killq_new, mx_os = os2, mx_host_sock_path = path, mx_local_port_set = {},
      mx_local_port_last = push_bit 30 1 - 1\<rparr>"
  have "same_core ?mx mx"
    using assms b same_core_add [of E fd HostSock ?mx] by (auto simp: mux_new_def split: prod.split_asm sum.split_asm)
  then show ?thesis
    by (simp add: same_core_def mux_inv_except_def pool_ok_def rx_complete_def rxq_new_def killq_new_def)
qed

section \<open>The life of a multiplexer\<close>

datatype 'm mux_op = MuxSend nat 'm VsockPacket | MuxRecv nat 'm VsockPacket | is_notify: MuxNotify nat

fun mux_run ::
  "('s, 'io, 'w) MuxerEnv \<Rightarrow> 'm RegionOps \<Rightarrow> ('m, 'ge, 'io, 's) StreamOps \<Rightarrow> 'm mux_op list \<Rightarrow>
   ('s, 'w) VsockMuxer \<Rightarrow> ('s, 'w) VsockMuxer exec option" where
  "mux_run E R S [] mx = Some (Done mx)"
| "mux_run E R S (MuxSend now m p # ops) mx = xbind (mux_send_pkt E R S now m p mx) (mux_run E R S ops)"
| "mux_run E R S (MuxRecv now m p # ops) mx =
     xbind (mux_recv_pkt E R S now m p mx) (\<lambda>(_, _, mx, _). mux_run E R S ops mx)"
| "mux_run E R S (MuxNotify now # ops) mx = xbind (mux_notify E S now mx) (mux_run E R S ops)"

context vsock_mux
begin

lemma mux_run_inv:
  assumes "mux_inv mx" and "card (mx_local_port_set mx) + 32 * length (filter is_notify ops) \<le> 2 ^ 30"
  shows "\<exists>mx'. mux_run E R S ops mx = Some (Done mx') \<and> mux_inv mx'"
  using assms
proof (induction ops arbitrary: mx)
  case Nil
  then show ?case by simp
next
  case (Cons op ops)
  have le: "card (mx_local_port_set mx1) + 32 * length (filter is_notify ops) \<le> 2 ^ 30"
    if "mx_local_port_set mx1 \<subseteq> mx_local_port_set mx" for mx1 :: "('s, 'w) VsockMuxer"
    using card_mono [OF finite that] Cons.prems(2) by (simp split: if_split_asm)
  show ?case
  proof (cases op)
    case (MuxSend now m p)
    obtain mx1 where "mux_send_pkt E R S now m p mx = Some (Done mx1)" "mux_inv mx1"
      "mx_local_port_set mx1 \<subseteq> mx_local_port_set mx"
      using mux_send_inv [OF Cons.prems(1)] by blast
    then show ?thesis using Cons.IH [OF _ le, of mx1] MuxSend by simp
  next
    case (MuxRecv now m p)
    obtain m' p' mx1 and r :: "('ge, 'io) VsockError + unit" where
      "mux_recv_pkt E R S now m p mx = Some (Done (m', p', mx1, r))" "mux_inv mx1"
      "mx_local_port_set mx1 \<subseteq> mx_local_port_set mx"
      using mux_recv_inv [OF Cons.prems(1)] by blast
    then show ?thesis using Cons.IH [OF _ le, of mx1] MuxRecv by simp
  next
    case (MuxNotify now)
    obtain mx1 where "mux_notify E S now mx = Some (Done mx1)" "mux_inv mx1"
      "card (mx_local_port_set mx1) \<le> card (mx_local_port_set mx) + 32"
      using mux_notify_inv [OF Cons.prems(1)] Cons.prems(2) MuxNotify by fastforce
    then show ?thesis using Cons.IH [of mx1] Cons.prems(2) MuxNotify by simp
  qed
qed

end

section \<open>An environment\<close>

text \<open>The pool in the order of its keys, sockets that can always be used, and one pending connection.\<close>

definition iter_pool :: "(ConnMapKey \<rightharpoonup> 's VsockConnection) \<Rightarrow> (ConnMapKey \<times> 's VsockConnection) list" where
  "iter_pool pool =
     map (\<lambda>(l, p). let key = \<lparr>key_local_port = l, key_peer_port = p\<rparr> in (key, the (pool key)))
       (sorted_list_of_set {(l, p). pool \<lparr>key_local_port = l, key_peer_port = p\<rparr> \<noteq> None})"

definition demo_env :: "(script_sink, unit, unit) MuxerEnv" where
  "demo_env =
     \<lparr>epoll_ctl = (\<lambda>w op fd ev. (w, Inr ())), bind_listener = (\<lambda>w path. (w, Inr 3)),
      listener_nonblocking = (\<lambda>fd. Inr ()), epoll_create = (\<lambda>w. (w, Inr ())),
      epoll_wait = (\<lambda>w. (w, Inr [(3, EPOLLIN)])),
      evset_from_bits = (\<lambda>b. if b AND NOT 0xf000201f = 0 then Some b else None),
      accept = (\<lambda>w. (w, Inr \<lparr>ss_taken = [], ss_script = []\<rparr>)),
      connect = (\<lambda>w path. (w, Inr \<lparr>ss_taken = [], ss_script = []\<rparr>)), set_nonblocking = (\<lambda>s. Inr ()),
      as_raw_fd = (\<lambda>s. 4), read_exact = (\<lambda>s n. (s, Inl ())), conn_iter = iter_pool\<rparr>"

lemma iter_pool_fst: "map fst (iter_pool pool) = map (\<lambda>(l, p). \<lparr>key_local_port = l, key_peer_port = p\<rparr>)
    (sorted_list_of_set {(l, p). pool \<lparr>key_local_port = l, key_peer_port = p\<rparr> \<noteq> None})"
  by (simp add: iter_pool_def Let_def case_prod_unfold)

lemma iter_pool_distinct: "distinct (map fst (iter_pool pool))"
  unfolding iter_pool_fst by (auto simp: distinct_map inj_on_def)

lemma iter_pool_map:
  fixes pool :: "ConnMapKey \<rightharpoonup> 's VsockConnection"
  shows "map_of (iter_pool pool) = pool"
proof
  fix key :: ConnMapKey
  have keys: "fst ` set (iter_pool pool) = dom pool"
  proof -
    have "fst ` set (iter_pool pool) = (\<lambda>(l, p). \<lparr>key_local_port = l, key_peer_port = p\<rparr>) `
        {(l, p). pool \<lparr>key_local_port = l, key_peer_port = p\<rparr> \<noteq> None}"
      using arg_cong [OF iter_pool_fst [of pool], of set] by simp
    also have "\<dots> = dom pool" by (auto simp: image_iff) (metis ConnMapKey.cases)
    finally show ?thesis .
  qed
  show "map_of (iter_pool pool) key = pool key"
  proof (cases "pool key")
    case None
    then show ?thesis using keys by (simp add: map_of_eq_None_iff domIff)
  next
    case (Some c)
    then have "key \<in> fst ` set (iter_pool pool)" using keys by (simp add: domI)
    then have "(key, c) \<in> set (iter_pool pool)" using Some by (auto simp: iter_pool_def Let_def) (force simp: image_iff)
    then show ?thesis using Some map_of_is_SomeI [OF iter_pool_distinct] by simp
  qed
qed

interpretation mx: vsock_mux byte_memory bm_byte page_regions script_stream ss_taken demo_env
  by unfold_locales (auto simp: demo_env_def iter_pool_map iter_pool_distinct EPOLLIN_def)

section \<open>Properties\<close>

text \<open>
  (C8) A multiplexer keeps its invariant. The streams, the iterator of the pool and \<open>epoll\<close> keep to
  what is documented of them; in particular \<open>epoll\<close> only reports known flags. Then from its creation on,
  over any run in which it is notified of events at most \<open>2 ^ 25\<close> times, packets of the guest, requests
  for a packet and events of the host are all handled without a panic and return; there are at most
  1023 connections, the queues stay within their bounds, every connection is filed under its ports and
  owes a reset when it is killed, and no connection with something to say to the guest is forgotten:
  while there is one, the multiplexer reports pending packets. The bound on the notifications keeps the
  \<open>2 ^ 30\<close> local ports from running out: a port whose connection cannot be added is not freed.
\<close>

theorem mux_invariant:
  assumes "vsock_mux G mb R S taken E" and "mux_new E os cid path = (os', Ok mx)"
    and "length (filter is_notify ops) \<le> 2 ^ 25"
  shows "\<exists>mx'. mux_run E R S ops mx = Some (Done mx') \<and> mux_inv mx'
    \<and> (\<forall>key c. mx_conn_map mx' key = Some c \<and> has_pending_rx c \<longrightarrow> mux_has_pending_rx mx')"
proof -
  have "mux_inv mx" "card (mx_local_port_set mx) + 32 * length (filter is_notify ops) \<le> 2 ^ 30"
    using mux_new_inv [OF assms(2)] assms(3) by simp_all
  then obtain mx' where "mux_run E R S ops mx = Some (Done mx')" "mux_inv mx'"
    using vsock_mux.mux_run_inv [OF assms(1)] by blast
  then show ?thesis
    by (fastforce simp: mux_inv_except_def rx_complete_def mux_has_pending_rx_def rxq_is_empty_def)
qed

definition request_pkt :: VsockPacket where
  "request_pkt = \<lparr>hdr_addr = 1024, hdr = header_default\<lparr>vh_op := 1, vh_type := 1, vh_dst_cid := 2, vh_src_port := 9\<rparr>,
     buf_addr = None, buf_size = 0\<rparr>"

lemma demo_new: "\<exists>mx. mux_new demo_env () 3 [] = ((), Ok mx)"
  by (simp add: mux_new_def demo_env_def add_listener_def)

theorem mux_invariant_witness:
  "\<exists>mx mx'. mux_new demo_env () 3 [] = ((), Ok mx)
    \<and> mux_run demo_env page_regions script_stream
        [MuxSend 0 tx_mem request_pkt, MuxNotify 1, MuxRecv 2 tx_mem request_pkt] mx = Some (Done mx')
    \<and> mux_inv mx' \<and> (\<forall>key c. mx_conn_map mx' key = Some c \<and> has_pending_rx c \<longrightarrow> mux_has_pending_rx mx')"
proof -
  obtain mx where new: "mux_new demo_env () 3 [] = ((), Ok mx)" using demo_new by blast
  from mux_invariant [OF mx.vsock_mux_axioms new,
      of "[MuxSend 0 tx_mem request_pkt, MuxNotify 1, MuxRecv 2 tx_mem request_pkt]"]
  show ?thesis using new by auto
qed

text \<open>
  (C19) Asking for a packet always returns and keeps the invariant. The reset at the front of the queue
  is delivered as a reset packet from its local to its peer port; when the connection at the front has a
  packet, this very packet is delivered, and a connection that delivers a reset leaves the pool. The
  request only fails for want of data: then there was no reset in the queue, and no connection of the
  queue, nor of the whole pool if the queue was in step, that owed the guest a packet; the queue has been
  emptied, and unless it has to be rebuilt no connection has anything to say.
\<close>

theorem mux_recv_drains:
  assumes "vsock_mux G mb R S taken E" and "mux_inv mx"
  shows "\<exists>m' p' mx' r. mux_recv_pkt E R S now m p mx = Some (Done (m', p', mx', r)) \<and> mux_inv mx'
    \<and> recv_front R S now m p (mx\<lparr>mx_rxq := rx_view E mx\<rparr>) m' p' mx' r
    \<and> (\<forall>e. r = Err e \<longrightarrow> e = NoData \<and> rxq_is_empty (mx_rxq mx')
         \<and> rx_quiet (rx_view E mx) (mx_conn_map mx)
         \<and> (rxq_synced (rx_view E mx) \<longrightarrow> (\<forall>key c. mx_conn_map mx key = Some c \<longrightarrow> \<not> must_speak c))
         \<and> (\<not> mux_has_pending_rx mx' \<longrightarrow> (\<forall>key c. mx_conn_map mx' key = Some c \<longrightarrow> \<not> has_pending_rx c)))"
proof -
  obtain m' p' mx' r where recv: "mux_recv_pkt E R S now m p mx = Some (Done (m', p', mx', r))" "mux_inv mx'"
    "recv_front R S now m p (mx\<lparr>mx_rxq := rx_view E mx\<rparr>) m' p' mx' r"
    and err: "\<forall>e. r = Err e \<longrightarrow> e = NoData \<and> rxq_is_empty (mx_rxq mx') \<and> rx_quiet (rx_view E mx) (mx_conn_map mx)"
    using vsock_mux.mux_recv_inv [OF assms, of now m p] by blast
  have "\<not> mux_has_pending_rx mx' \<longrightarrow> (\<forall>key c. mx_conn_map mx' key = Some c \<longrightarrow> \<not> has_pending_rx c)"
    using recv(2) by (auto simp: mux_inv_except_def rx_complete_def mux_has_pending_rx_def rxq_is_empty_def)
  then show ?thesis using recv err vsock_mux.rx_quiet_pool [OF assms] by blast
qed

text \<open>A request of the guest has just been accepted; the response is due.\<close>

definition asking_key :: ConnMapKey where
  "asking_key = \<lparr>key_local_port = 5, key_peer_port = 9\<rparr>"

definition asking :: "(script_sink, unit) VsockMuxer" where
  "asking = \<lparr>mx_cid = 3, mx_conn_map = [asking_key \<mapsto> new_peer_init \<lparr>ss_taken = [], ss_script = []\<rparr> VSOCK_HOST_CID 3 5 9 64],
     mx_listener_map = Map.empty, mx_rxq = \<lparr>rxq_q = [ConnRx asking_key], rxq_synced = True\<rparr>,
     mx_killq = killq_new, mx_os = (), mx_host_sock_path = [], mx_local_port_set = {},
     mx_local_port_last = push_bit 30 1 - 1\<rparr>"

lemma asking_inv: "mux_inv asking"
proof -
  let ?c = "new_peer_init \<lparr>ss_taken = [], ss_script = []\<rparr> VSOCK_HOST_CID 3 5 9 64 :: script_sink VsockConnection"
  have "keyed asking_key ?c" "conn_good ?c"
    by (simp_all add: keyed_def asking_key_def new_peer_init_def conn_good_def conn_wf_def rxset.inv_single
        rxset.abs_single txbuf_inv_new)
  then show ?thesis
    by (simp add: mux_inv_except_def asking_def pool_ok_def rx_complete_def killq_new_def conn_good_def
        MAX_CONNECTIONS_def MUXER_RXQ_SIZE_def)
qed

theorem mux_recv_drains_witness:
  "mux_inv asking \<and> (\<exists>m' p' mx'. mux_recv_pkt demo_env page_regions script_stream 0 tx_mem request_pkt asking
      = Some (Done (m', p', mx', Ok () :: (unit, unit) VsockError + unit))
    \<and> mux_inv mx' \<and> pkt_op p' = VSOCK_OP_RESPONSE \<and> pkt_src_port p' = 5 \<and> pkt_dst_port p' = 9)"
proof -
  let ?c = "new_peer_init \<lparr>ss_taken = [], ss_script = []\<rparr> VSOCK_HOST_CID 3 5 9 64 :: script_sink VsockConnection"
  obtain c1 where c1: "conn_recv_pkt page_regions script_stream 0 tx_mem ?c request_pkt
    = (tx_mem, c1, set_op VSOCK_OP_RESPONSE (init_pkt ?c request_pkt), Ok () :: (unit, unit) VsockError + unit)"
    by (simp add: conn_recv_pkt_def take_rx_eq new_peer_init_def rxset.abs_single rxset_del)
  have view: "rx_view demo_env asking = mx_rxq asking" by (simp add: rx_view_def asking_def)
  obtain m' p' mx' and r :: "(unit, unit) VsockError + unit" where recv:
    "mux_recv_pkt demo_env page_regions script_stream 0 tx_mem request_pkt asking = Some (Done (m', p', mx', r))"
    "mux_inv mx'" and front: "recv_front page_regions script_stream 0 tx_mem request_pkt (asking\<lparr>mx_rxq := mx_rxq asking\<rparr>) m' p' mx' r"
    using mux_recv_drains [OF mx.vsock_mux_axioms asking_inv, of 0 tx_mem request_pkt, unfolded view] by blast
  have "rxq_q (mx_rxq asking) = [ConnRx asking_key]" "mx_conn_map asking asking_key = Some ?c" by (simp_all add: asking_def)
  then have "r = Ok ()" "p' = set_op VSOCK_OP_RESPONSE (init_pkt ?c request_pkt)"
    using conjunct2 [OF front [unfolded recv_front_def]] c1 by simp_all
  then show ?thesis
    using recv asking_inv
    by (simp add: pkt_op_def pkt_src_port_def pkt_dst_port_def set_op_def set_src_port_def set_dst_port_def set_type_def
        set_src_cid_def set_dst_cid_def set_buf_alloc_def set_fwd_cnt_def init_pkt_def new_peer_init_def)
qed

text \<open>
  (C28) A local port for a connection of the host is fresh and in the upper half of the non-negative
  32-bit range; the search ends as long as one of these \<open>2 ^ 30\<close> ports is free, and only books the port.
\<close>

theorem local_port_fresh:
  assumes "card (mx_local_port_set mx) < 2 ^ 30"
  shows "\<exists>port. allocate_local_port mx =
      Some (mx\<lparr>mx_local_port_last := port, mx_local_port_set := insert port (mx_local_port_set mx)\<rparr>, port)
    \<and> port \<notin> mx_local_port_set mx \<and> 2 ^ 30 \<le> unat port \<and> unat port < 2 ^ 31"
  by (rule allocate_fresh [OF assms]) blast

theorem local_port_fresh_witness:
  "\<exists>mx port mx'. mux_new demo_env () 3 [] = ((), Ok mx) \<and> allocate_local_port mx = Some (mx', port) \<and> 2 ^ 30 \<le> unat port"
proof -
  obtain mx where new: "mux_new demo_env () 3 [] = ((), Ok mx)" using demo_new by blast
  have "card (mx_local_port_set mx) < 2 ^ 30" using mux_new_inv [OF new] by simp
  from local_port_fresh [OF this] show ?thesis using new by blast
qed

text \<open>A sweep of a queue of expired entries empties it and leaves the other connections as they are.\<close>

lemma sweep_expired_drains:
  assumes "\<forall>it \<in> set (killq_q (mx_killq mx)). ki_kill_time it < now"
  shows "mx_killq (sweep_expired now mx) = (mx_killq mx)\<lparr>killq_q := []\<rparr>
    \<and> (\<forall>k. k \<notin> ki_key ` set (killq_q (mx_killq mx)) \<longrightarrow> mx_conn_map (sweep_expired now mx) k = mx_conn_map mx k)
    \<and> (\<forall>k. map_option vc_expiry (mx_conn_map (sweep_expired now mx) k) = map_option vc_expiry (mx_conn_map mx k))"
  using assms
proof (induction now mx rule: sweep_expired.induct)
  case (1 now mx)
  show ?case
  proof (cases "killq_q (mx_killq mx)")
    case Nil
    then show ?thesis by (subst (1 2 3) sweep_expired.simps) (simp add: killq_pop_def)
  next
    case (Cons it q)
    let ?mx = "mx\<lparr>mx_killq := (mx_killq mx)\<lparr>killq_q := q\<rparr>\<rparr>"
    let ?kl = "case mx_conn_map ?mx (ki_key it) of None \<Rightarrow> False | Some conn \<Rightarrow> has_expired now conn"
    let ?mx' = "if ?kl then kill_connection (ki_key it) ?mx else ?mx"
    have pop: "killq_pop now (mx_killq mx) = ((mx_killq mx)\<lparr>killq_q := q\<rparr>, Some (ki_key it))"
      using Cons 1(2) by (simp add: killq_pop_def)
    have "sweep_expired now mx = sweep_expired now ?mx'"
      using pop by (subst sweep_expired.simps) (simp add: Let_def)
    moreover have "mx_killq ?mx' = (mx_killq mx)\<lparr>killq_q := q\<rparr>" by simp
    moreover have "mx_conn_map ?mx' k = mx_conn_map mx k" if "k \<noteq> ki_key it" for k
      using that by (simp add: kill_connection_eq mx_push_rx_def Let_def split: option.split)
    moreover have "map_option vc_expiry (mx_conn_map ?mx' k) = map_option vc_expiry (mx_conn_map mx k)" for k
      by (simp add: kill_connection_eq mx_push_rx_def Let_def split: option.split)
    ultimately show ?thesis using 1(1) [OF pop [symmetric] refl refl refl] 1(2) Cons by auto
  qed
qed

lemma killq_collect_none: "(\<And>k c. (k, c) \<in> set l \<Longrightarrow> \<not> will_expire now c) \<Longrightarrow> killq_collect now l q = Done (q, True)"
  by (induction now l q rule: killq_collect.induct) auto

text \<open>
  (C36) A kill queue that has been out of step forgets connections: when it is drained after a
  connection that was left out of it has expired, the queue that replaces it only looks for timers in
  the future, so the connection is neither terminated nor queued, and no later sweep terminates it.
\<close>

theorem expired_connection_survives:
  assumes "vsock_mux G mb R S taken E" and "mux_inv mx" and "\<not> killq_synced (mx_killq mx)"
    and "\<forall>it \<in> set (killq_q (mx_killq mx)). ki_kill_time it < now"
    and "\<forall>k c. mx_conn_map mx k = Some c \<longrightarrow> \<not> will_expire now c"
    and "mx_conn_map mx key = Some c" and "has_expired now c" and "key \<notin> ki_key ` set (killq_q (mx_killq mx))"
  shows "\<exists>mx'. sweep_killq E now mx = Some (Done mx') \<and> mx_conn_map mx' key = Some c
    \<and> (\<forall>later. sweep_killq E later mx' = Some (Done mx'))"
proof -
  let ?mx = "sweep_expired now mx"
  note sw = sweep_expired_drains [OF assms(4)]
  have "finite (dom (mx_conn_map ?mx))"
    using sweep_expired_inv [OF assms(2), of now] by (simp add: mux_inv_except_def pool_ok_def)
  note pool = vsock_mux.iter_map [OF assms(1) this] vsock_mux.iter_distinct [OF assms(1) this]
  have "\<not> will_expire now c'" if "(k, c') \<in> set (conn_iter E (mx_conn_map ?mx))" for k c'
  proof -
    have "mx_conn_map ?mx k = Some c'" using that pool by (metis map_of_is_SomeI)
    then obtain c0 where "mx_conn_map mx k = Some c0" "vc_expiry c0 = vc_expiry c'"
      using sw by (metis (no_types, lifting) map_option_eq_Some)
    then show ?thesis using assms(5) unfolding will_expire_def by metis
  qed
  then have none: "killq_collect now (conn_iter E (mx_conn_map ?mx)) [] = Done ([], True)"
    by (intro killq_collect_none) blast
  let ?mx' = "?mx\<lparr>mx_killq := killq_new\<rparr>"
  have stable: "sweep_killq E later ?mx' = Some (Done ?mx')" for later
    by (rule sweep_killq_stable) (simp_all add: killq_new_def)
  have "sweep_killq E now mx = sweep_killq E now ?mx'"
    using sw none assms(3)
    by (subst sweep_killq.simps) (simp add: killq_is_empty_def killq_from_conn_map_def killq_new_def)
  moreover have "mx_conn_map ?mx' key = Some c" using sw assms(6,8) by simp
  ultimately show ?thesis using stable by metis
qed

definition stuck_mux :: "(script_sink, unit) VsockMuxer" where
  "stuck_mux =
     \<lparr>mx_cid = 3, mx_conn_map = [\<lparr>key_local_port = 1024, key_peer_port = 5\<rparr> \<mapsto> sample_conn\<lparr>vc_expiry := Some 10\<rparr>],
      mx_listener_map = Map.empty, mx_rxq = \<lparr>rxq_q = [], rxq_synced = False\<rparr>,
      mx_killq = \<lparr>killq_q = [\<lparr>ki_key = \<lparr>key_local_port = 7, key_peer_port = 7\<rparr>, ki_kill_time = 9\<rparr>], killq_synced = False\<rparr>,
      mx_os = (), mx_host_sock_path = [], mx_local_port_set = {}, mx_local_port_last = 0\<rparr>"

lemma stuck_mux_inv: "mux_inv stuck_mux"
  by (simp add: stuck_mux_def mux_inv_except_def pool_ok_def rx_complete_def sample_conn_def new_peer_init_def
      keyed_def conn_wf_def conn_good_def rxset.inv_single rxset.abs_single txbuf_inv_new
      MAX_CONNECTIONS_def MUXER_RXQ_SIZE_def MUXER_KILLQ_SIZE_def)

theorem expired_connection_survives_witness:
  "\<exists>mx'. sweep_killq demo_env 11 stuck_mux = Some (Done mx')
    \<and> mx_conn_map mx' \<lparr>key_local_port = 1024, key_peer_port = 5\<rparr> = Some (sample_conn\<lparr>vc_expiry := Some 10\<rparr>)
    \<and> (\<forall>later. sweep_killq demo_env later mx' = Some (Done mx'))"
  by (rule expired_connection_survives [OF mx.vsock_mux_axioms stuck_mux_inv])
    (simp_all add: stuck_mux_def will_expire_def has_expired_def)

end
