(* ===== verification/Spec2Isabelle.thy ===== *)
theory Spec2Isabelle
  imports BalloonDevice GuestMem MmioTransport PortRequest Prelude QueueFrame RateLimiter
    Seccomp SeccompCompiler SyscallTable TxBuf VirtQueue VirtioDevice VsockConn VsockMuxer
    VsockMuxerRun VsockPacket
begin

text \<open>
  Firecracker is a virtual machine monitor: it runs a guest under KVM and gives it a small set of
  devices. This library models the parts of it that compute or keep state on behalf of the guest, and
  proves what they promise. Source paths are relative to \<open>src/src/\<close>.

  \<^bold>\<open>Conventions\<close> (\<open>Prelude\<close>). Rust integers are words of their width and wrap as in a release
  build; \<open>usize\<close> counts are natural numbers. A \<open>Result\<close> is a sum, with \<open>Err\<close> and \<open>Ok\<close> for its
  injections; an abort of the process is the value \<open>Panic\<close> of the type \<open>exec\<close>; an operation that may
  not return has an option type with \<open>None\<close> for not returning, and is defined by
  \<open>partial_function (option)\<close>. State is passed explicitly, a struct is a record, an enum a datatype.
  Code outside of the repository (the crate \<open>vm-memory\<close>, sockets, epoll, event and timer descriptors,
  \<open>madvise\<close>) is a parameter, usually a record of operations; a locale states what is documented of
  it, every theorem that relies on it has the locale predicate as a hypothesis, and each locale is
  interpreted on a concrete instance. Metrics and log messages are left out.

  \<^bold>\<open>Rate limiter\<close> (\<open>RateLimiter\<close>; \<open>rate_limiter/src/lib.rs\<close>, \<open>persist.rs\<close>). Token buckets with
  their 64-bit arithmetic, the limiter with its timer, and its snapshot. Shown: the tokens granted over
  a run are bounded by burst, size and refill rate; a blocked limiter grants nothing until its timer
  fires; every run returns and keeps the buckets well formed, for refill times that do not wrap to zero;
  a restored limiter answers as the saved one would have. Two theorems exhibit the rounding of the
  refill and the panic of the refill times that do wrap.

  \<^bold>\<open>Seccomp\<close> (\<open>Seccomp\<close>, \<open>SyscallTable\<close>, \<open>SeccompCompiler\<close>; \<open>seccompiler/src/\<close>). The BPF
  instructions and their machine, the conditions, rules and filters, and the compiler from named
  filters to programs. Shown: the program of a filter decides every system call as the rules do, across
  the jumps that are split at 256 instructions; compilation is total and bounded by 4096
  instructions; the compiler from the JSON structure down to the programs is correct.

  \<^bold>\<open>Virtio queues\<close> (\<open>GuestMem\<close>, \<open>VirtQueue\<close>, \<open>QueueFrame\<close>; \<open>devices/src/virtio/queue.rs\<close>). Guest
  memory as a parameter with the contract \<open>guest_memory\<close>, descriptor chains, the three rings with
  16-bit indices that wrap, and notification suppression. Shown: \<open>pop\<close> is a queue of the heads the
  driver made available; a walk of a chain ends after at most the queue size; \<open>add_used\<close> appends to the
  used ring; the kick decision is the one of the specification; no notification is lost when the driver
  runs concurrently; the outcome of the validity check, which panics for an available ring that ends but
  does not begin in memory. \<open>QueueFrame\<close> has the lemmas on servicing a queue that the devices share.

  \<^bold>\<open>Device trait and MMIO transport\<close> (\<open>VirtioDevice\<close>, \<open>MmioTransport\<close>; \<open>devices/src/virtio/device.rs\<close>,
  \<open>mmio.rs\<close>). A device is a record of operations with the contract \<open>virtio_device\<close>; the transport is
  every register access. A step relation interleaves register writes, writes of guest memory and work of
  the device. Shown: an activated device has valid queues and features that were offered; activation is
  final; the initialisation sequence of the specification activates the device.

  \<^bold>\<open>Balloon\<close> (\<open>BalloonDevice\<close>; \<open>devices/src/virtio/balloon/\<close>). The inflate, deflate and statistics
  queues, and the configuration. It interprets \<open>virtio_device\<close>. Shown: compaction of page frame
  numbers keeps the set of pages; inflating removes exactly the listed pages and changes nothing else
  but the used ring; deflating returns every descriptor; the target size is exact or refused.

  \<^bold>\<open>Vsock\<close> (\<open>TxBuf\<close>, \<open>VsockPacket\<close>, \<open>VsockConn\<close>, \<open>PortRequest\<close>, \<open>VsockMuxer\<close>,
  \<open>VsockMuxerRun\<close>; \<open>devices/src/virtio/vsock/\<close>). The transmit ring buffer, packets over descriptor chains, the
  connection state machine with credit-based flow control, the request line of a host process, and the
  multiplexer of connections. Shown: the transmit buffer is a byte queue; a packet lies in guest memory;
  the bytes of the guest reach the host in order whatever the interleaving; the credit of either side is
  respected, for the guest over every run of the step relation \<open>credit_step\<close> between a connection and a
  guest that counts its bytes; a committed header and a printed port request are read back. The multiplexer composes the
  connections (\<open>vsock_mux\<close> extends \<open>host_stream\<close>; \<open>epoll\<close> and \<open>EventSet::from_bits\<close> are parameters): it
  keeps its bounds, always returns and forgets no connection with something to say, over runs with at
  most \<open>2 ^ 25\<close> notifications, which cannot exhaust the \<open>2 ^ 30\<close> local ports; a request for a packet
  delivers what is at the front of the queue and only fails when nothing queued has to be said; one theorem exhibits a connection that outlives its kill timer.
  \<^bold>\<open>Bounds.\<close> Loops are total functions with a measure where the code bounds them (the length of a
  queue or of a list, the 32 bytes of a request). Where the bound depends on a parameter (a sink that
  reports more than it was given, a free port, connections that always have something to say) the loop
  is partial and a theorem shows that it returns under the contract. No fuel is used.

  \<^bold>\<open>Not modelled.\<close>
  \<^item> HTTP API server: Request parsing is done by the micro_http and serde crates; the rest
    hands values to other threads.
  \<^item> Guest boot and architecture support: Fills in KVM register and boot structures with
    constants of the architecture manuals.
  \<^item> Generated bindings: Generated constants and C structures.
  \<^item> CPUID templates: Rewrites CPUID leaves by vendor tables; the table contents are the
    behaviour.
  \<^item> Firecracker binary: Process start, command line and the event loop.
  \<^item> Jailer: System calls that set up a chroot, cgroups and namespaces.
  \<^item> Logger and metrics: Output only.
  \<^item> Snapshot container: Serialisation by the versionize crate, and a file copy.
  \<^item> Utilities: Wrappers of the operating system and a command line parser.
  \<^item> Guest memory wrapper: Re-exports the vm-memory crate, which is a parameter of the
    model, and allocates guard pages.
  \<^item> Network stack of the metadata service: A TCP/IP stack in user space; not covered yet.
  \<^item> Metadata service: A JSON store behind HTTP and session tokens with cryptography.
  \<^item> Asynchronous block I/O: Shared rings with the kernel over raw memory.
  \<^item> Block device: File and asynchronous I/O engines.
  \<^item> Network device: Reads and writes frames of a tap device.
  \<^item> Vsock device front end: The queue handlers of the device and its persistence.
  \<^item> Virtio persistence and event plumbing: Conversion to and from snapshot structures and
    registration of events.
  \<^item> Legacy devices and buses: Serial port, keyboard controller and the address map of a
    bus.
  \<^item> Virtual machine monitor: Builds the machine and drives KVM through ioctls;
    configuration requests from the API.
  \<^item> Seccomp command line tools: Argument handling and file output around the compiler.
\<close>

end
